(* ===== verification/Brm_Hasher.thy ===== *)
theory Brm_Hasher
  imports "HOL-Library.Word"
begin

text \<open>
  The hash function of the shared-memory tables, \<^verbatim>\<open>src/utils/common/hasher.h\<close>:
  the 32-bit Murmur3 finaliser and rotation, and \<^verbatim>\<open>Hasher::operator()\<close> on a byte buffer.
  The buffer is a list of bytes; \<^verbatim>\<open>blocks[i]\<close> reads four of them as a
  little-endian \<^verbatim>\<open>uint32_t\<close>, which is what the supported (x86) targets do.
  The last section gives the object representation of the integers the tables hash.
\<close>

unbundle bit_operations_syntax

type_synonym uint32 = "32 word"
type_synonym byte = "8 word"

section \<open>The mixing functions\<close>

definition rotl32 :: "uint32 \<Rightarrow> nat \<Rightarrow> uint32" where
  "rotl32 x r = push_bit r x OR drop_bit (32 - r) x"

definition fmix :: "uint32 \<Rightarrow> uint32" where
  "fmix h0 =
    (let h = h0 XOR drop_bit 16 h0;
         h = h * 0x85ebca6b;
         h = h XOR drop_bit 13 h;
         h = h * 0xc2b2ae35;
         h = h XOR drop_bit 16 h
     in h)"

definition c1 :: uint32 where
  "c1 = 0xcc9e2d51"

definition c2 :: uint32 where
  "c2 = 0x1b873593"

definition scramble :: "uint32 \<Rightarrow> uint32" where
  "scramble k1 = rotl32 (k1 * c1) 15 * c2"

definition block_of :: "byte \<Rightarrow> byte \<Rightarrow> byte \<Rightarrow> byte \<Rightarrow> uint32" where
  "block_of b0 b1 b2 b3 =
    ucast b0 OR push_bit 8 (ucast b1) OR push_bit 16 (ucast b2) OR push_bit 24 (ucast b3)"

definition body_step :: "uint32 \<Rightarrow> uint32 \<Rightarrow> uint32" where
  "body_step h1 k1 = rotl32 (h1 XOR scramble k1) 13 * 5 + 0xe6546b64"

section \<open>The buffer loop\<close>

text \<open>The loop over the whole blocks, followed by the \<^verbatim>\<open>switch (len & 3)\<close> on the
  at most three bytes that are left.\<close>

fun hash_body :: "uint32 \<Rightarrow> byte list \<Rightarrow> uint32" where
  "hash_body h1 (b0 # b1 # b2 # b3 # bs) = hash_body (body_step h1 (block_of b0 b1 b2 b3)) bs"
| "hash_body h1 [b0, b1, b2] =
     h1 XOR scramble (push_bit 16 (ucast b2) XOR push_bit 8 (ucast b1) XOR ucast b0)"
| "hash_body h1 [b0, b1] = h1 XOR scramble (push_bit 8 (ucast b1) XOR ucast b0)"
| "hash_body h1 [b0] = h1 XOR scramble (ucast b0)"
| "hash_body h1 [] = h1"

definition hasher :: "byte list \<Rightarrow> uint32" where
  "hasher data = fmix (hash_body 0 data XOR of_nat (length data))"

section \<open>Object representation of the hashed keys\<close>

definition bytes64 :: "int \<Rightarrow> byte list" where
  "bytes64 x = map (\<lambda>i. word_of_int (drop_bit (8 * i) x)) [0, 1, 2, 3, 4, 5, 6, 7]"

definition bytes32 :: "int \<Rightarrow> byte list" where
  "bytes32 x = map (\<lambda>i. word_of_int (drop_bit (8 * i) x)) [0, 1, 2, 3]"

end
