(* ===== verification/Brm_Prelude.thy ===== *)
theory Brm_Prelude
  imports "HOL-Library.Word" "HOL-Library.Multiset" "HOL-Library.Monad_Syntax"
begin

text \<open>
  What the components of the Block Resolution Manager (\<^verbatim>\<open>src/versioning/BRM\<close>) share:
  the type names of \<^verbatim>\<open>brmtypes.h\<close>, the exceptions the code throws, the two loop
  combinators used for linked lists and free-slot searches, and the generic facts about
  updated, filtered and counted lists that the component proofs rest on.

  \<^verbatim>\<open>LBID_t\<close> (64 bit) and \<^verbatim>\<open>VER_t\<close>, \<^verbatim>\<open>int\<close> (32 bit) values that
  are only compared, copied and used as indices are mathematical integers with the code's
  sentinel \<open>-1\<close>; quantities the code lets wrap are words in the components that use them.
  An operation of type \<open>'a option\<close> is \<open>None\<close> where the C++ code does not
  return normally: it reads outside its arrays, fails an assertion, or loops forever.
\<close>

section \<open>Types and exceptions\<close>

type_synonym LBID_t = int
type_synonym VER_t = int
type_synonym OID_t = int

datatype brm_exn =
    Logic_error string
  | Invalid_argument string
  | Runtime_error string
  | Overflow_error string
  | VBBMBufferOverFlowExcept string

type_synonym 'a res = "brm_exn + 'a"

text \<open>\<^verbatim>\<open>LBIDRange\<close> (\<^verbatim>\<open>brmtypes.h\<close>) and the blocks it names.\<close>

record LBIDRange =
  range_start :: LBID_t
  range_size :: int

definition range_lbids :: "LBIDRange \<Rightarrow> LBID_t list" where
  "range_lbids r = [range_start r .. range_start r + range_size r - 1]"

definition BLOCK_SIZE :: int where
  "BLOCK_SIZE = 8192"

named_theorems brm_defs \<open>definitions unfolded in most component proofs\<close>
named_theorems wf_intros \<open>preservation facts of the component invariants\<close>

section \<open>Loops with early exit\<close>

text \<open>One iteration of a loop body either goes on with new loop variables or executes a
  \<^verbatim>\<open>return\<close> statement.\<close>

datatype ('a, 'r) control = Continue 'a | Return 'r

text \<open>\<^verbatim>\<open>for (i = start; i != -1; i = storage[i].next) body\<close>, where the body reads the
  entry but does not write the table.\<close>

partial_function (option) scan ::
  "('e \<Rightarrow> int) \<Rightarrow> 'e list \<Rightarrow> ('a \<Rightarrow> nat \<Rightarrow> 'e \<Rightarrow> ('a, 'r) control) \<Rightarrow> 'a \<Rightarrow> int
    \<Rightarrow> ('a, 'r) control option" where
  [code]: "scan nxt st body a i =
    (if i = -1 then Some (Continue a)
     else if 0 \<le> i \<and> i < int (length st) then
       (case body a (nat i) (st ! nat i) of
          Return r \<Rightarrow> Some (Return r)
        | Continue a' \<Rightarrow> scan nxt st body a' (nxt (st ! nat i)))
     else None)"

text \<open>The same loop over the indices it visits, given as a list.\<close>

primrec scan_list ::
  "'e list \<Rightarrow> ('a \<Rightarrow> nat \<Rightarrow> 'e \<Rightarrow> ('a, 'r) control) \<Rightarrow> 'a \<Rightarrow> nat list \<Rightarrow> ('a, 'r) control" where
  "scan_list st body a [] = Continue a"
| "scan_list st body a (k # ks) =
    (case body a k (st ! k) of
       Return r \<Rightarrow> Return r
     | Continue a' \<Rightarrow> scan_list st body a' ks)"

text \<open>A sequence of consistency checks: one that passes is \<open>Inr ()\<close>; they run in order
  until one throws.\<close>

primrec check_all :: "('i \<Rightarrow> unit res option) \<Rightarrow> 'i list \<Rightarrow> unit res option" where
  "check_all f [] = Some (Inr ())"
| "check_all f (i # is) = do {
     r \<leftarrow> f i;
     (case r of Inl err \<Rightarrow> Some (Inl err) | Inr _ \<Rightarrow> check_all f is)
   }"

text \<open>\<^verbatim>\<open>while (storage[i].lbid != -1) i++\<close>.\<close>

function free_from :: "('e \<Rightarrow> bool) \<Rightarrow> 'e list \<Rightarrow> nat \<Rightarrow> nat option" where
  "free_from used st i =
    (if i < length st then (if used (st ! i) then free_from used st (Suc i) else Some i)
     else None)"
  by pat_completeness auto
termination
  by (relation "measure (\<lambda>(used, st, i). length st - i)") auto

declare free_from.simps [simp del]

lemma free_from_SomeD:
  "free_from used st i = Some j \<Longrightarrow>
    i \<le> j \<and> j < length st \<and> \<not> used (st ! j) \<and> (\<forall>k. i \<le> k \<and> k < j \<longrightarrow> used (st ! k))"
proof (induction used st i rule: free_from.induct)
  case (1 used st i)
  show ?case
  proof (cases "i < length st \<and> used (st ! i)")
    case True
    with "1.prems" have "free_from used st (Suc i) = Some j"
      by (simp add: free_from.simps)
    with True "1.IH" show ?thesis
      by (metis Suc_leD Suc_leI le_neq_implies_less)
  next
    case False
    with "1.prems" show ?thesis
      by (auto simp: free_from.simps [of used st i] split: if_splits)
  qed
qed

lemma free_from_Some:
  assumes "i \<le> j" "j < length st" "\<not> used (st ! j)"
  shows "\<exists>k. free_from used st i = Some k"
  using assms
proof (induction used st i rule: free_from.induct)
  case (1 used st i)
  show ?case
  proof (cases "used (st ! i)")
    case True
    with "1.prems" have "Suc i \<le> j" by (metis Suc_leI le_neq_implies_less)
    with True 1 show ?thesis by (simp add: free_from.simps [of used st i])
  next
    case False
    with "1.prems" show ?thesis by (simp add: free_from.simps [of used st i])
  qed
qed

text \<open>A search that starts at a low-water mark (below which every slot is used) finds the first
  free slot of the table.\<close>

lemma free_slot:
  assumes "\<And>i. i < lwm \<Longrightarrow> used (st ! i)" "length (filter used st) < length st"
  obtains k where "free_from used st lwm = Some k" "k < length st" "\<not> used (st ! k)" "lwm \<le> k"
    "\<And>i. i < k \<Longrightarrow> used (st ! i)"
proof -
  obtain j where j: "j < length st" "\<not> used (st ! j)"
    using assms(2) by (metis filter_True in_set_conv_nth less_irrefl)
  with assms(1) have "lwm \<le> j" using not_le by blast
  then obtain k where k: "free_from used st lwm = Some k"
    using j free_from_Some by blast
  note free_from_SomeD [OF k]
  moreover from this have "used (st ! i)" if "i < k" for i
    using that assms(1) by (cases "i < lwm") simp_all
  ultimately show thesis by (intro that [OF k]) simp_all
qed

lemma check_all_pass:
  "(\<And>i. i \<in> set is \<Longrightarrow> f i = Some (Inr ())) \<Longrightarrow> check_all f is = Some (Inr ())"
  by (induction "is") auto

lemma check_all_fail:
  assumes "\<And>i. i \<in> set is \<Longrightarrow> f i = Some (Inr ()) \<or> f i = Some (Inl err)"
    and "i \<in> set is" "f i = Some (Inl err)"
  shows "check_all f is = Some (Inl err)"
  using assms
proof (induction "is")
  case (Cons j "is")
  then consider "f j = Some (Inl err)" | "f j = Some (Inr ())" "i \<in> set is" by force
  then show ?case
  proof cases
    case 2
    with Cons.IH Cons.prems(1,3) show ?thesis by simp
  qed simp
qed simp

text \<open>The proof rule of a scan: \<open>P S a\<close> holds of the loop variables \<open>a\<close> after the
  indices \<open>S\<close> have been visited, and \<open>Q\<close> of a value returned from the body.\<close>

lemma scan_list_rule:
  assumes "P S a"
    and "\<And>S k a. k \<in> set ks \<Longrightarrow> P S a \<Longrightarrow>
      (case body a k (st ! k) of Continue a' \<Rightarrow> P (insert k S) a' | Return r \<Rightarrow> Q r)"
  shows "case scan_list st body a ks of Continue a' \<Rightarrow> P (S \<union> set ks) a' | Return r \<Rightarrow> Q r"
  using assms
proof (induction ks arbitrary: S a)
  case (Cons k ks)
  show ?case
  proof (cases "body a k (st ! k)")
    case (Continue a')
    with Cons.prems(2) [of k S a] Cons.prems(1) have "P (insert k S) a'" by simp
    from Cons.IH [OF this] Cons.prems(2) Continue show ?thesis
      by (simp split: control.splits)
  next
    case (Return r)
    with Cons.prems(2) [of k S a] Cons.prems(1) show ?thesis by simp
  qed
qed simp

section \<open>Lists updated by index\<close>

lemma nth_update_if: "j < length xs \<Longrightarrow> xs[i := x] ! j = (if i = j then x else xs ! j)"
  by (cases "i = j") auto

lemma length_filter_update:
  assumes "i < length xs"
  shows "int (length (filter P (xs[i := x]))) =
    int (length (filter P xs)) + of_bool (P x) - of_bool (P (xs ! i))"
  using assms
proof (induction xs arbitrary: i)
  case (Cons y ys)
  then show ?case by (cases i) auto
qed simp

lemma mset_filter_update:
  assumes "i < length xs"
  shows "mset (map f (filter P (xs[i := x]))) + (if P (xs ! i) then {#f (xs ! i)#} else {#}) =
    mset (map f (filter P xs)) + (if P x then {#f x#} else {#})"
  using assms
proof (induction xs arbitrary: i)
  case (Cons y ys)
  then show ?case
  proof (cases i)
    case (Suc j)
    with Cons.prems have "j < length ys" by simp
    from Cons.IH [OF this] Suc show ?thesis by (auto split: if_splits)
  qed auto
qed simp

lemma map_filter_update_same:
  assumes "P x = P (xs ! k)" "f x = f (xs ! k)"
  shows "map f (filter P (xs[k := x])) = map f (filter P xs)"
  using assms
proof (induction xs arbitrary: k)
  case (Cons y ys)
  then show ?case by (cases k) auto
qed simp

lemma length_filter_pos:
  "length (filter P xs) < length xs \<Longrightarrow> \<exists>i < length xs. \<not> P (xs ! i)"
  by (metis filter_True in_set_conv_nth less_irrefl)

lemma length_filter_full:
  "length (filter P xs) = length xs \<Longrightarrow> i < length xs \<Longrightarrow> P (xs ! i)"
  by (metis filter_id_conv length_filter_less less_irrefl nth_mem)

lemma set_filter_nth:
  "x \<in> set (filter P xs) \<longleftrightarrow> (\<exists>i < length xs. P (xs ! i) \<and> xs ! i = x)"
  by (auto simp: in_set_conv_nth)

end
