(* ===== verification/Hash_Chain.thy ===== *)
theory Hash_Chain
  imports Brm_Prelude
begin

text \<open>
  The chained hash table in shared memory that the VSS (\<^verbatim>\<open>vss.cpp\<close>) and the VBBM
  (\<^verbatim>\<open>vbbm.cpp\<close>) both implement: an array of bucket heads and an array of entries, each
  entry holding the index of the next entry of its bucket, \<open>-1\<close> at the end. An entry
  whose \<^verbatim>\<open>lbid\<close> is \<open>-1\<close> is free.

  \<open>is_chain\<close> relates a head index to the list of entries reached from it, \<open>hash_wf\<close>
  is the structural invariant: every bucket's chain ends and holds exactly the used entries
  that hash to the bucket, each once. The locale \<open>chained_entry\<close> is the interface an
  entry type has to offer (used flag, next index, bucket, and the two field writes); it proves
  once that writing a new entry at a chain's head, unlinking an entry and writing an entry's
  payload keep the invariant. Both tables interpret it.
\<close>

section \<open>Chains\<close>

fun is_chain :: "('e \<Rightarrow> int) \<Rightarrow> 'e list \<Rightarrow> int \<Rightarrow> nat list \<Rightarrow> bool" where
  "is_chain nxt st i [] \<longleftrightarrow> i = -1"
| "is_chain nxt st i (k # ks) \<longleftrightarrow> i = int k \<and> k < length st \<and> is_chain nxt st (nxt (st ! k)) ks"

lemma is_chain_unique: "is_chain nxt st i ks \<Longrightarrow> is_chain nxt st i ks' \<Longrightarrow> ks = ks'"
proof (induction ks arbitrary: i ks')
  case Nil
  then show ?case by (cases ks') auto
next
  case (Cons k ks)
  then show ?case by (cases ks') auto
qed

lemma is_chain_update:
  "is_chain nxt st i ks \<Longrightarrow> k \<notin> set ks \<Longrightarrow> is_chain nxt (st[k := e]) i ks"
  by (induction ks arbitrary: i) auto

lemma is_chain_update_same:
  "is_chain nxt st i ks \<Longrightarrow> nxt e = nxt (st ! k) \<Longrightarrow> is_chain nxt (st[k := e]) i ks"
  by (induction ks arbitrary: i) (auto simp: nth_update_if)

lemma is_chain_bounds: "is_chain nxt st i ks \<Longrightarrow> k \<in> set ks \<Longrightarrow> k < length st"
  by (induction ks arbitrary: i) auto

lemma is_chain_append:
  "is_chain nxt st i (xs @ k # ys) \<Longrightarrow> k < length st \<and> is_chain nxt st (nxt (st ! k)) ys"
  by (induction xs arbitrary: i) auto

lemma is_chain_suffix:
  "is_chain nxt st i (xs @ ys) \<Longrightarrow> \<exists>j. is_chain nxt st j ys"
  by (induction xs arbitrary: i) auto

definition head_of :: "nat list \<Rightarrow> int" where
  "head_of ks = (case ks of [] \<Rightarrow> -1 | k # _ \<Rightarrow> int k)"

lemma head_of_simps [simp]: "head_of [] = -1" "head_of (k # ks) = int k"
  by (simp_all add: head_of_def)

lemma is_chain_head: "is_chain nxt st i ks \<Longrightarrow> i = head_of ks"
  by (cases ks) simp_all

lemma is_chain_next_head:
  "is_chain nxt st i (xs @ k # ys) \<Longrightarrow> nxt (st ! k) = head_of ys"
  using is_chain_append is_chain_head by metis

lemma is_chain_relink:
  assumes "is_chain nxt st i (xs @ p # k # ys)" "distinct (xs @ p # k # ys)"
    and "nxt e = nxt (st ! k)"
  shows "is_chain nxt (st[p := e]) i (xs @ p # ys)"
  using assms
proof (induction xs arbitrary: i)
  case Nil
  then show ?case by (auto intro: is_chain_update)
next
  case (Cons x xs)
  then show ?case by auto
qed

lemma scan_end [simp]: "scan nxt st body a (-1) = Some (Continue a)"
  by (subst scan.simps) simp

lemma scan_step:
  "k < length st \<Longrightarrow> scan nxt st body a (int k) =
    (case body a k (st ! k) of
       Return r \<Rightarrow> Some (Return r)
     | Continue a' \<Rightarrow> scan nxt st body a' (nxt (st ! k)))"
  by (subst scan.simps) (simp split: control.split)

lemma scan_chain:
  "is_chain nxt st i ks \<Longrightarrow> scan nxt st body a i = Some (scan_list st body a ks)"
  by (induction ks arbitrary: i a) (auto simp: scan_step split: control.splits)

lemma scan_list_fold:
  assumes "\<And>a k. k \<in> set ks \<Longrightarrow> body a k (st ! k) = Continue (f (st ! k) a)"
  shows "scan_list st body a ks = Continue (fold (\<lambda>k. f (st ! k)) ks a)"
  using assms by (induction ks arbitrary: a) auto

lemma scan_list_find:
  assumes "\<And>k. k \<in> set ks \<Longrightarrow>
    body a k (st ! k) = (if P (st ! k) then Return (f k) else Continue a)"
  shows "scan_list st body a ks =
    (case find (\<lambda>k. P (st ! k)) ks of Some k \<Rightarrow> Return (f k) | None \<Rightarrow> Continue a)"
  using assms by (induction ks) auto

lemma scan_list_exists:
  "scan_list st (\<lambda>_ k e. if P e then Return () else Continue ()) () ks =
    (if \<exists>k \<in> set ks. P (st ! k) then Return () else Continue ())"
  by (induction ks) auto

section \<open>The structural invariant of a table\<close>

definition hash_wf ::
  "('e \<Rightarrow> bool) \<Rightarrow> ('e \<Rightarrow> int) \<Rightarrow> (nat \<Rightarrow> 'e \<Rightarrow> nat) \<Rightarrow> 'e list \<Rightarrow> int list \<Rightarrow> bool" where
  "hash_wf used nxt bkt st hb \<longleftrightarrow>
    (\<forall>i < length st. used (st ! i) \<longrightarrow> bkt (length hb) (st ! i) < length hb) \<and>
    (\<forall>b < length hb. \<exists>ks. is_chain nxt st (hb ! b) ks \<and> distinct ks \<and>
      set ks = {i. i < length st \<and> used (st ! i) \<and> bkt (length hb) (st ! i) = b})"

definition bucket_set ::
  "('e \<Rightarrow> bool) \<Rightarrow> (nat \<Rightarrow> 'e \<Rightarrow> nat) \<Rightarrow> 'e list \<Rightarrow> int list \<Rightarrow> nat \<Rightarrow> nat set" where
  "bucket_set used bkt st hb b = {i. i < length st \<and> used (st ! i) \<and> bkt (length hb) (st ! i) = b}"

lemma hash_wfE:
  assumes "hash_wf used nxt bkt st hb" "b < length hb"
  obtains ks where "is_chain nxt st (hb ! b) ks" "distinct ks"
    "set ks = bucket_set used bkt st hb b"
  using assms by (auto simp: hash_wf_def bucket_set_def)

lemma hash_wfI:
  assumes "\<And>i. i < length st \<Longrightarrow> used (st ! i) \<Longrightarrow> bkt (length hb) (st ! i) < length hb"
    and "\<And>b. b < length hb \<Longrightarrow> \<exists>ks. is_chain nxt st (hb ! b) ks \<and> distinct ks \<and>
      set ks = bucket_set used bkt st hb b"
  shows "hash_wf used nxt bkt st hb"
  using assms by (auto simp: hash_wf_def bucket_set_def)

lemma hash_wf_empty:
  assumes "\<And>i. i < length st \<Longrightarrow> \<not> used (st ! i)" "\<And>b. b < length hb \<Longrightarrow> hb ! b = -1"
  shows "hash_wf used nxt bkt st hb"
  using assms by (intro hash_wfI) (auto simp: bucket_set_def intro!: exI [of _ "[]"])

lemma hash_wf_chain:
  assumes "hash_wf used nxt bkt st hb" "b < length hb" "is_chain nxt st (hb ! b) ks"
  shows "distinct ks" "set ks = bucket_set used bkt st hb b"
proof -
  obtain ks' where "is_chain nxt st (hb ! b) ks'" "distinct ks'"
      "set ks' = bucket_set used bkt st hb b"
    using assms(1,2) by (rule hash_wfE)
  with is_chain_unique [OF assms(3)] show "distinct ks" "set ks = bucket_set used bkt st hb b"
    by auto
qed

lemma is_chain_nxt_cong:
  assumes "is_chain nxt st i ks" "length st' = length st"
    and "\<And>k. k < length st \<Longrightarrow> nxt (st' ! k) = nxt (st ! k)"
  shows "is_chain nxt st' i ks"
  using assms by (induction ks arbitrary: i) auto

text \<open>Writes that change neither the \<^verbatim>\<open>lbid\<close> key nor the \<^verbatim>\<open>next\<close> field of any entry
  keep the structure.\<close>

lemma hash_wf_cong:
  assumes wf: "hash_wf used nxt bkt st hb" and len: "length st' = length st"
    and eq: "\<And>k. k < length st \<Longrightarrow> used (st' ! k) = used (st ! k) \<and> nxt (st' ! k) = nxt (st ! k) \<and>
      bkt (length hb) (st' ! k) = bkt (length hb) (st ! k)"
  shows "hash_wf used nxt bkt st' hb"
proof (rule hash_wfI)
  show "bkt (length hb) (st' ! i) < length hb" if "i < length st'" "used (st' ! i)" for i
    using that wf len eq by (simp add: hash_wf_def)
next
  fix b assume "b < length hb"
  then obtain ks where ks: "is_chain nxt st (hb ! b) ks" "distinct ks"
      "set ks = bucket_set used bkt st hb b"
    using wf by (auto elim: hash_wfE [of _ _ _ _ _ b])
  moreover have "bucket_set used bkt st' hb b = bucket_set used bkt st hb b"
    using len eq by (auto simp: bucket_set_def)
  ultimately show "\<exists>ks. is_chain nxt st' (hb ! b) ks \<and> distinct ks \<and>
      set ks = bucket_set used bkt st' hb b"
    using is_chain_nxt_cong [OF ks(1) len] eq by blast
qed

text \<open>The write of a bucket head and the write of one entry's \<^verbatim>\<open>next\<close> field, whichever
  the position of the unlinked entry asks for.\<close>

definition unlinked ::
  "(int \<Rightarrow> 'e \<Rightarrow> 'e) \<Rightarrow> ('e \<Rightarrow> 'e) \<Rightarrow> ('e \<Rightarrow> int) \<Rightarrow> nat \<Rightarrow> int \<Rightarrow> nat \<Rightarrow> 'e list \<Rightarrow> int list
    \<Rightarrow> 'e list \<times> int list" where
  "unlinked set_next kill nxt b prev k st hb =
    (let st' = st[k := kill (st ! k)]
     in if prev \<noteq> -1 then (st'[nat prev := set_next (nxt (st' ! k)) (st' ! nat prev)], hb)
        else (st', hb[b := nxt (st' ! k)]))"

definition prev_of :: "nat list \<Rightarrow> int" where
  "prev_of xs = (if xs = [] then -1 else int (last xs))"

lemma prev_of_simps [simp]: "prev_of [] = -1" "prev_of (xs @ [x]) = int x"
  by (simp_all add: prev_of_def)

text \<open>The search for an entry that keeps the index of its predecessor, which both tables
  use before they unlink.\<close>

lemma scan_list_prev:
  "(\<forall>k \<in> set ys. \<not> M (st ! k)) \<and>
     scan_list st (\<lambda>prev k e. if M e then Return (int k, prev) else Continue (int k)) (prev_of xs) ys =
       Continue (prev_of (xs @ ys)) \<or>
   (\<exists>as k bs. ys = as @ k # bs \<and> M (st ! k) \<and> (\<forall>j \<in> set as. \<not> M (st ! j)) \<and>
     scan_list st (\<lambda>prev k e. if M e then Return (int k, prev) else Continue (int k)) (prev_of xs) ys =
       Return (int k, prev_of (xs @ as)))"
proof (induction ys arbitrary: xs)
  case (Cons y ys)
  show ?case
  proof (cases "M (st ! y)")
    case True
    then show ?thesis by (intro disjI2 exI [of _ "[]"]) simp
  next
    case False
    from Cons.IH [of "xs @ [y]"] show ?thesis
    proof (elim disjE exE conjE)
      fix as k bs
      assume "ys = as @ k # bs" "M (st ! k)" "\<forall>j \<in> set as. \<not> M (st ! j)"
        "scan_list st (\<lambda>prev k e. if M e then Return (int k, prev) else Continue (int k))
          (prev_of (xs @ [y])) ys = Return (int k, prev_of ((xs @ [y]) @ as))"
      with False show ?thesis by (intro disjI2 exI [of _ "y # as"]) simp
    qed (use False in simp)
  qed
qed simp

text \<open>A decision procedure for the invariant on concrete tables: the chain from a bucket head,
  followed for at most as many steps as there are entries.\<close>

fun chain_from :: "('e \<Rightarrow> int) \<Rightarrow> 'e list \<Rightarrow> nat \<Rightarrow> int \<Rightarrow> nat list option" where
  "chain_from nxt st fuel i =
    (if i = -1 then Some []
     else case fuel of
       0 \<Rightarrow> None
     | Suc n \<Rightarrow> if 0 \<le> i \<and> i < int (length st)
                then map_option ((#) (nat i)) (chain_from nxt st n (nxt (st ! nat i))) else None)"

definition hash_wf_check ::
  "('e \<Rightarrow> bool) \<Rightarrow> ('e \<Rightarrow> int) \<Rightarrow> (nat \<Rightarrow> 'e \<Rightarrow> nat) \<Rightarrow> 'e list \<Rightarrow> int list \<Rightarrow> bool" where
  "hash_wf_check used nxt bkt st hb \<longleftrightarrow>
    list_all (\<lambda>e. used e \<longrightarrow> bkt (length hb) e < length hb) st \<and>
    list_all (\<lambda>b. case chain_from nxt st (length st) (hb ! b) of
        None \<Rightarrow> False
      | Some ks \<Rightarrow> distinct ks \<and>
          set ks = set (filter (\<lambda>i. used (st ! i) \<and> bkt (length hb) (st ! i) = b) [0..<length st]))
      [0..<length hb]"

declare chain_from.simps [simp del]

lemma chain_from_sound: "chain_from nxt st n i = Some ks \<Longrightarrow> is_chain nxt st i ks"
proof (induction nxt st n i arbitrary: ks rule: chain_from.induct)
  case (1 nxt st n i)
  then show ?case
    by (auto simp: chain_from.simps [of nxt st n i] split: if_splits nat.splits)
qed

lemma hash_wf_checkI:
  assumes "hash_wf_check used nxt bkt st hb"
  shows "hash_wf used nxt bkt st hb"
proof (rule hash_wfI)
  show "bkt (length hb) (st ! i) < length hb" if "i < length st" "used (st ! i)" for i
    using that assms by (simp add: hash_wf_check_def list_all_length)
next
  fix b assume "b < length hb"
  with assms have "case chain_from nxt st (length st) (hb ! b) of None \<Rightarrow> False
      | Some ks \<Rightarrow> distinct ks \<and>
          set ks = set (filter (\<lambda>i. used (st ! i) \<and> bkt (length hb) (st ! i) = b) [0..<length st])"
    unfolding hash_wf_check_def list_all_iff by simp
  then obtain ks where "chain_from nxt st (length st) (hb ! b) = Some ks" "distinct ks"
      "set ks = set (filter (\<lambda>i. used (st ! i) \<and> bkt (length hb) (st ! i) = b) [0..<length st])"
    by (cases "chain_from nxt st (length st) (hb ! b)") auto
  then show "\<exists>ks. is_chain nxt st (hb ! b) ks \<and> distinct ks \<and> set ks = bucket_set used bkt st hb b"
    by (intro exI [of _ ks]) (auto simp: bucket_set_def intro: chain_from_sound)
qed

section \<open>Walks over every bucket\<close>

text \<open>Two checks both tables make: that no free entry is reachable from a bucket, and the nested
  loop that looks for two entries of a bucket with the same key.\<close>

definition scan_unused :: "('e \<Rightarrow> bool) \<Rightarrow> ('e \<Rightarrow> int) \<Rightarrow> 'e list \<Rightarrow> int \<Rightarrow> bool option" where
  "scan_unused used nxt st head =
    map_option (\<lambda>r. case r of Return _ \<Rightarrow> True | Continue _ \<Rightarrow> False)
      (scan nxt st (\<lambda>_ k e. if \<not> used e then Return () else Continue ()) () head)"

definition scan_duplicate :: "('e \<Rightarrow> 'k) \<Rightarrow> ('e \<Rightarrow> int) \<Rightarrow> 'e list \<Rightarrow> int \<Rightarrow> bool option" where
  "scan_duplicate key nxt st head =
    (case scan nxt st
       (\<lambda>_ j e. case scan nxt st (\<lambda>_ k e'. if key e = key e' then Return () else Continue ())
            () (nxt e) of
          None \<Rightarrow> Return None
        | Some (Return _) \<Rightarrow> Return (Some ())
        | Some (Continue _) \<Rightarrow> Continue ()) () head of
       None \<Rightarrow> None
     | Some (Return None) \<Rightarrow> None
     | Some (Return (Some _)) \<Rightarrow> Some True
     | Some (Continue _) \<Rightarrow> Some False)"

lemma scan_unused_chain:
  assumes "is_chain nxt st i ks" "\<forall>k \<in> set ks. used (st ! k)"
  shows "scan_unused used nxt st i = Some False"
  using assms by (simp add: scan_unused_def scan_chain [OF assms(1)] scan_list_exists)

lemma scan_duplicate_chain:
  assumes "is_chain nxt st i ks"
  shows "scan_duplicate key nxt st i = Some (\<not> distinct (map (\<lambda>k. key (st ! k)) ks))"
proof -
  let ?key = "\<lambda>k. key (st ! k)"
  let ?body = "\<lambda>_ j e. case scan nxt st
      (\<lambda>_ k e'. if key e = key e' then Return () else Continue ()) () (nxt e) of
        None \<Rightarrow> Return None | Some (Return _) \<Rightarrow> Return (Some ()) | Some (Continue _) \<Rightarrow> Continue ()"
  have "scan nxt st ?body () i =
      Some (if distinct (map ?key ks) then Continue () else Return (Some ()))"
    using assms
  proof (induction ks arbitrary: i)
    case (Cons k ks)
    then have k: "i = int k" "k < length st" and ch: "is_chain nxt st (nxt (st ! k)) ks"
      by simp_all
    have "?body () k (st ! k) = (if ?key k \<in> set (map ?key ks) then Return (Some ()) else Continue ())"
      by (auto simp: scan_chain [OF ch] scan_list_exists)
    with Cons.IH [OF ch] k show ?case by (simp add: scan_step)
  qed simp
  then show ?thesis by (simp add: scan_duplicate_def)
qed

text \<open>The keys of the used entries are unique.\<close>

definition keys_unique :: "('e \<Rightarrow> bool) \<Rightarrow> ('e \<Rightarrow> 'k) \<Rightarrow> 'e list \<Rightarrow> bool" where
  "keys_unique used key st \<longleftrightarrow>
    (\<forall>i < length st. \<forall>j < length st. used (st ! i) \<longrightarrow> used (st ! j) \<longrightarrow>
      key (st ! i) = key (st ! j) \<longrightarrow> i = j)"

text \<open>Two entries with the same key hash to the same bucket, so the search by bucket finds every
  duplicate.\<close>

lemma keys_unique_chains:
  assumes hash: "hash_wf used nxt bkt st hb" and bkt: "\<And>m e e'. key e = key e' \<Longrightarrow> bkt m e = bkt m e'"
  shows "keys_unique used key st \<longleftrightarrow> (\<forall>b < length hb. \<forall>ks.
    is_chain nxt st (hb ! b) ks \<longrightarrow> distinct (map (\<lambda>k. key (st ! k)) ks))"
    (is "_ \<longleftrightarrow> ?chains")
proof
  show ?chains if u: "keys_unique used key st"
  proof (intro allI impI)
    fix b ks assume b: "b < length hb" and ch: "is_chain nxt st (hb ! b) ks"
    note ks = hash_wf_chain [OF hash b ch]
    show "distinct (map (\<lambda>k. key (st ! k)) ks)"
      using ks u by (auto simp: distinct_map inj_on_def keys_unique_def bucket_set_def)
  qed
  show "keys_unique used key st" if ?chains
    unfolding keys_unique_def
  proof (intro allI impI)
    fix i j
    assume ij: "i < length st" "j < length st" "used (st ! i)" "used (st ! j)"
      and key: "key (st ! i) = key (st ! j)"
    let ?b = "bkt (length hb) (st ! i)"
    have b: "?b < length hb" using hash ij by (simp add: hash_wf_def)
    then obtain ks where ch: "is_chain nxt st (hb ! ?b) ks"
        and ks: "set ks = bucket_set used bkt st hb ?b"
      using hash by (auto elim: hash_wfE)
    have "i \<in> set ks" "j \<in> set ks"
      using ij bkt [OF key] ks by (auto simp: bucket_set_def)
    moreover have "inj_on (\<lambda>k. key (st ! k)) (set ks)"
      using that b ch by (auto simp: distinct_map)
    ultimately show "i = j" using key by (auto dest: inj_onD)
  qed
qed

definition reject_if :: "brm_exn \<Rightarrow> bool option \<Rightarrow> unit res option" where
  "reject_if err r = map_option (\<lambda>bad. if bad then Inl err else Inr ()) r"

lemma hash_wf_bucket_chain:
  assumes "hash_wf used nxt bkt st hb" "n \<in> set hb"
  shows "\<exists>ks. is_chain nxt st n ks \<and> (\<forall>k \<in> set ks. used (st ! k))"
proof -
  obtain b where b: "b < length hb" "hb ! b = n" using assms(2) by (auto simp: in_set_conv_nth)
  obtain ks where "is_chain nxt st (hb ! b) ks" "set ks = bucket_set used bkt st hb b"
    using assms(1) b(1) by (rule hash_wfE)
  with b(2) show ?thesis by (auto simp: bucket_set_def)
qed

lemma check_unused_pass:
  assumes "hash_wf used nxt bkt st hb"
  shows "check_all (\<lambda>n. reject_if err (scan_unused used nxt st n)) hb = Some (Inr ())"
proof (rule check_all_pass)
  fix n assume "n \<in> set hb"
  from hash_wf_bucket_chain [OF assms this] obtain ks where
    ks: "is_chain nxt st n ks" "\<forall>k \<in> set ks. used (st ! k)" by blast
  show "reject_if err (scan_unused used nxt st n) = Some (Inr ())"
    unfolding scan_unused_chain [OF ks] by (simp add: reject_if_def)
qed

lemma check_duplicate_decides:
  assumes hash: "hash_wf used nxt bkt st hb" and bkt: "\<And>m e e'. key e = key e' \<Longrightarrow> bkt m e = bkt m e'"
  shows "check_all (\<lambda>n. reject_if err (scan_duplicate key nxt st n)) hb =
    Some (if keys_unique used key st then Inr () else Inl err)"
proof -
  let ?dist = "\<lambda>ks. distinct (map (\<lambda>k. key (st ! k)) ks)"
  have uniq: "keys_unique used key st \<longleftrightarrow>
      (\<forall>b < length hb. \<forall>ks. is_chain nxt st (hb ! b) ks \<longrightarrow> ?dist ks)"
    using hash bkt by (rule keys_unique_chains)
  have chk: "\<exists>ks. is_chain nxt st n ks \<and>
      reject_if err (scan_duplicate key nxt st n) = Some (if ?dist ks then Inr () else Inl err)"
    if n: "n \<in> set hb" for n
  proof -
    obtain ks where ks: "is_chain nxt st n ks" using hash_wf_bucket_chain [OF hash n] by blast
    with scan_duplicate_chain [OF ks, of key] show ?thesis
      by (intro exI [of _ ks]) (simp add: reject_if_def)
  qed
  show ?thesis
  proof (cases "keys_unique used key st")
    case True
    have "reject_if err (scan_duplicate key nxt st n) = Some (Inr ())" if n: "n \<in> set hb" for n
    proof -
      obtain b where b: "b < length hb" "hb ! b = n" using n by (auto simp: in_set_conv_nth)
      obtain ks where ks: "is_chain nxt st n ks"
          "reject_if err (scan_duplicate key nxt st n) = Some (if ?dist ks then Inr () else Inl err)"
        using chk [OF n] by blast
      from True b ks(1) have "?dist ks" unfolding uniq by blast
      with ks(2) show ?thesis by simp
    qed
    with True show ?thesis by (simp add: check_all_pass)
  next
    case False
    then obtain b ks where b: "b < length hb" and ks: "is_chain nxt st (hb ! b) ks" "\<not> ?dist ks"
      unfolding uniq by blast
    have "reject_if err (scan_duplicate key nxt st (hb ! b)) = Some (Inl err)"
      using scan_duplicate_chain [OF ks(1), of key] ks(2) by (simp add: reject_if_def)
    moreover have "reject_if err (scan_duplicate key nxt st n) = Some (Inr ()) \<or>
        reject_if err (scan_duplicate key nxt st n) = Some (Inl err)" if "n \<in> set hb" for n
      using chk [OF that] by (auto split: if_splits)
    ultimately have "check_all (\<lambda>n. reject_if err (scan_duplicate key nxt st n)) hb = Some (Inl err)"
      using b by (intro check_all_fail [of hb _ err "hb ! b"]) simp_all
    with False show ?thesis by simp
  qed
qed

section \<open>The interface of an entry type\<close>

locale chained_entry =
  fixes used :: "'e \<Rightarrow> bool"
    and nxt :: "'e \<Rightarrow> int"
    and bkt :: "nat \<Rightarrow> 'e \<Rightarrow> nat"
    and set_next :: "int \<Rightarrow> 'e \<Rightarrow> 'e"
    and kill :: "'e \<Rightarrow> 'e"
  assumes used_set_next [simp]: "used (set_next n e) = used e"
    and nxt_set_next [simp]: "nxt (set_next n e) = n"
    and bkt_set_next [simp]: "bkt m (set_next n e) = bkt m e"
    and used_kill [simp]: "\<not> used (kill e)"
    and nxt_kill [simp]: "nxt (kill e) = nxt e"
begin

lemma hash_wf_link:
  assumes wf: "hash_wf used nxt bkt st hb"
    and k: "k < length st" "\<not> used (st ! k)"
    and e: "used e" "bkt (length hb) e = b" "b < length hb"
  shows "hash_wf used nxt bkt (st[k := set_next (hb ! b) e]) (hb[b := int k])"
    (is "hash_wf used nxt bkt ?st ?hb")
proof (rule hash_wfI)
  fix i assume "i < length ?st" "used (?st ! i)"
  with wf e show "bkt (length ?hb) (?st ! i) < length ?hb"
    by (auto simp: hash_wf_def nth_update_if split: if_splits)
next
  fix b' assume b': "b' < length ?hb"
  then obtain ks where ks: "is_chain nxt st (hb ! b') ks" "distinct ks"
      "set ks = bucket_set used bkt st hb b'"
    using wf by (auto elim: hash_wfE [of _ _ _ _ _ b'])
  then have notin: "k \<notin> set ks" using k by (auto simp: bucket_set_def)
  then have ch: "is_chain nxt ?st (hb ! b') ks" by (rule is_chain_update [OF ks(1)])
  have set': "bucket_set used bkt ?st ?hb b' =
      (if b' = b then insert k (bucket_set used bkt st hb b') else bucket_set used bkt st hb b')"
  proof (rule set_eqI)
    show "i \<in> bucket_set used bkt ?st ?hb b' \<longleftrightarrow>
        i \<in> (if b' = b then insert k (bucket_set used bkt st hb b') else bucket_set used bkt st hb b')"
      for i using k e by (cases "i = k") (auto simp: bucket_set_def)
  qed
  show "\<exists>ks. is_chain nxt ?st (?hb ! b') ks \<and> distinct ks \<and> set ks = bucket_set used bkt ?st ?hb b'"
  proof (cases "b' = b")
    case True
    with ks(2) notin ch b' k e show ?thesis
      unfolding set' ks(3) [symmetric] by (intro exI [of _ "k # ks"]) simp
  next
    case False
    with ks(2) ch show ?thesis
      unfolding set' ks(3) [symmetric] by (intro exI [of _ ks]) simp
  qed
qed

lemma unlinked_chain:
  assumes ch: "is_chain nxt st (hb ! b) (xs @ k # ys)" "distinct (xs @ k # ys)" "b < length hb"
    and un: "unlinked set_next kill nxt b (prev_of xs) k st hb = (st', hb')"
  shows "is_chain nxt st' (hb' ! b) (xs @ ys)"
proof (cases xs rule: rev_cases)
  case Nil
  have "is_chain nxt (st[k := kill (st ! k)]) (nxt (st ! k)) ys"
    using ch Nil by (auto intro: is_chain_update)
  with ch un Nil show ?thesis by (auto simp: unlinked_def Let_def)
next
  case (snoc zs p)
  let ?st = "st[k := kill (st ! k)]"
  have "is_chain nxt ?st (hb ! b) (zs @ p # k # ys)"
    using is_chain_update_same [of nxt st "hb ! b" "xs @ k # ys" "kill (st ! k)" k] ch snoc by simp
  then have "is_chain nxt (?st[p := set_next (nxt (?st ! k)) (?st ! p)]) (hb ! b) (zs @ p # ys)"
    using ch(2) snoc by (intro is_chain_relink) auto
  with un snoc show ?thesis by (auto simp: unlinked_def Let_def)
qed

lemma unlinked_entry:
  assumes ch: "is_chain nxt st (hb ! b) (xs @ k # ys)" "distinct (xs @ k # ys)"
    and un: "unlinked set_next kill nxt b (prev_of xs) k st hb = (st', hb')" and i: "i < length st"
  shows "st' ! i = (if i = k then kill (st ! k)
    else if int i = prev_of xs then set_next (nxt (st ! k)) (st ! i) else st ! i)"
proof (cases xs rule: rev_cases)
  case Nil
  with un i show ?thesis by (auto simp: unlinked_def Let_def nth_update_if)
next
  case (snoc zs p)
  then have "p \<noteq> k" using ch(2) by auto
  with snoc un i is_chain_append [OF ch(1)] show ?thesis
    by (auto simp: unlinked_def Let_def nth_update_if)
qed

lemma unlinked_nth:
  assumes ch: "is_chain nxt st (hb ! b) (xs @ k # ys)" "distinct (xs @ k # ys)"
    and un: "unlinked set_next kill nxt b (prev_of xs) k st hb = (st', hb')"
  shows "length st' = length st" "length hb' = length hb"
    and "i < length st \<Longrightarrow> used (st' ! i) \<longleftrightarrow> i \<noteq> k \<and> used (st ! i)"
    and "i < length st \<Longrightarrow> i \<noteq> k \<Longrightarrow> \<exists>n. st' ! i = st ! i \<or> st' ! i = set_next n (st ! i)"
    and "st' ! k = kill (st ! k)"
    and "b' \<noteq> b \<Longrightarrow> hb' ! b' = hb ! b'"
    and "i < length st \<Longrightarrow> i \<notin> set (xs @ k # ys) \<Longrightarrow> st' ! i = st ! i"
proof -
  note entry = unlinked_entry [OF ch un]
  have k: "k < length st" using is_chain_append [OF ch(1)] by simp
  show "length st' = length st" "length hb' = length hb"
    using un by (auto simp: unlinked_def Let_def split: if_splits)
  show "i < length st \<Longrightarrow> used (st' ! i) \<longleftrightarrow> i \<noteq> k \<and> used (st ! i)"
    by (simp add: entry)
  show "i < length st \<Longrightarrow> i \<noteq> k \<Longrightarrow> \<exists>n. st' ! i = st ! i \<or> st' ! i = set_next n (st ! i)"
    by (auto simp: entry)
  show "st' ! k = kill (st ! k)" by (simp add: entry k)
  show "b' \<noteq> b \<Longrightarrow> hb' ! b' = hb ! b'"
    using un by (auto simp: unlinked_def Let_def split: if_splits)
  show "i < length st \<Longrightarrow> i \<notin> set (xs @ k # ys) \<Longrightarrow> st' ! i = st ! i"
    by (auto simp: entry prev_of_def)
qed

lemma is_chain_cong:
  assumes "is_chain nxt st i ks" "\<And>k. k \<in> set ks \<Longrightarrow> st' ! k = st ! k" "length st' = length st"
  shows "is_chain nxt st' i ks"
  using assms by (induction ks arbitrary: i) auto

lemma hash_wf_unlink:
  assumes wf: "hash_wf used nxt bkt st hb" and b: "b < length hb"
    and ch: "is_chain nxt st (hb ! b) (xs @ k # ys)"
    and un: "unlinked set_next kill nxt b (prev_of xs) k st hb = (st', hb')"
  shows "hash_wf used nxt bkt st' hb'"
proof (rule hash_wfI)
  note dist = hash_wf_chain [OF wf b ch]
  note nth = unlinked_nth [OF ch dist(1) un]
  have bkt: "bkt m (st' ! i) = bkt m (st ! i)" if "i < length st" "i \<noteq> k" for i m
    using nth(4) [OF that] by auto
  have set': "bucket_set used bkt st' hb' b' = bucket_set used bkt st hb b' - {k}" for b'
    using nth(1-3) bkt by (auto simp: bucket_set_def)
  show "bkt (length hb') (st' ! i) < length hb'" if "i < length st'" "used (st' ! i)" for i
    using that wf nth(1-3) bkt by (auto simp: hash_wf_def)
  fix b' assume b': "b' < length hb'"
  show "\<exists>ks. is_chain nxt st' (hb' ! b') ks \<and> distinct ks \<and> set ks = bucket_set used bkt st' hb' b'"
  proof (cases "b' = b")
    case True
    have "set (xs @ ys) = bucket_set used bkt st' hb' b'"
      unfolding set' True dist(2) [symmetric] using dist(1) by auto
    with True dist(1) unlinked_chain [OF ch dist(1) b un] show ?thesis
      by (intro exI [of _ "xs @ ys"]) simp
  next
    case False
    obtain ks where ks: "is_chain nxt st (hb ! b') ks" "distinct ks"
        "set ks = bucket_set used bkt st hb b'"
      using wf b' nth(2) by (auto elim: hash_wfE [of _ _ _ _ _ b'])
    have disj: "j \<notin> set (xs @ k # ys)" if "j \<in> set ks" for j
      using that ks(3) dist(2) False by (auto simp: bucket_set_def)
    then have "is_chain nxt st' (hb ! b') ks"
      using ks nth(1,7) by (intro is_chain_cong [OF ks(1)]) (auto simp: bucket_set_def)
    moreover have "set ks = bucket_set used bkt st' hb' b'"
      unfolding set' ks(3) [symmetric] using disj by auto
    ultimately show ?thesis using ks(2) nth(6) [OF False] by auto
  qed
qed

end

end
