(* ===== verification/Undo_Log.thy ===== *)
theory Undo_Log
  imports Brm_Prelude
begin

text \<open>
  The undo log every table of the Block Resolution Manager inherits,
  \<^verbatim>\<open>src/versioning/BRM/undoable.cpp\<close>. A record is the image of one memory cell taken
  before the cell is written. \<^verbatim>\<open>undoChanges\<close> copies the images back, the most recent
  first, and clears the log; \<^verbatim>\<open>confirmChanges\<close> only clears it.

  The locale \<open>undoable\<close> is the contract between a table and the log. A table supplies the
  function that copies one image back (\<open>None\<close> when the image points into a segment that
  is no longer mapped) and access to its log. The locale shows that an operation which
  journals what it writes is undone by \<^verbatim>\<open>undoChanges\<close>, alone or in a sequence.
\<close>

section \<open>The operations of Undoable\<close>

definition ID_MAXSIZE :: int where
  "ID_MAXSIZE = 200"

definition makeUndoRecord :: "'r \<Rightarrow> int \<Rightarrow> 'r list \<Rightarrow> 'r list res" where
  "makeUndoRecord d sz log =
    (if sz > ID_MAXSIZE then Inl (Overflow_error ''Undoable::makeUndoRecord(): size > max'')
     else Inr (log @ [d]))"

primrec undo_all :: "('r \<Rightarrow> 's \<Rightarrow> 's option) \<Rightarrow> 'r list \<Rightarrow> 's \<Rightarrow> 's option" where
  "undo_all restore [] s = Some s"
| "undo_all restore (r # rs) s = Option.bind (undo_all restore rs s) (restore r)"

definition undoChanges ::
  "('r \<Rightarrow> 's \<Rightarrow> 's option) \<Rightarrow> ('s \<Rightarrow> 'r list) \<Rightarrow> ('r list \<Rightarrow> 's \<Rightarrow> 's) \<Rightarrow> 's \<Rightarrow> 's option" where
  "undoChanges restore log set_log s = map_option (set_log []) (undo_all restore (log s) s)"

definition confirmChanges :: "('r list \<Rightarrow> 's \<Rightarrow> 's) \<Rightarrow> 's \<Rightarrow> 's" where
  "confirmChanges set_log s = set_log [] s"

lemma undo_all_append:
  "undo_all restore (rs @ rs') s = Option.bind (undo_all restore rs' s) (undo_all restore rs)"
  by (induction rs) (auto simp: bind_assoc Option.bind_eq_Some_conv split: option.splits bind_splits)

text \<open>A \<^verbatim>\<open>for\<close> loop whose body may write the table, concatenating the images the
  iterations record.\<close>

primrec for_each ::
  "('i \<Rightarrow> 'g \<Rightarrow> ('g \<times> 'm list) option) \<Rightarrow> 'i list \<Rightarrow> 'g \<Rightarrow> ('g \<times> 'm list) option" where
  "for_each f [] g = Some (g, [])"
| "for_each f (i # is) g = do {
     (g1, ms1) \<leftarrow> f i g;
     (g2, ms2) \<leftarrow> for_each f is g1;
     Some (g2, ms1 @ ms2)
   }"

lemma for_each_invariant:
  assumes "for_each f is g = Some (g', ms)" "P g"
    and "\<And>i g g' ms. i \<in> set is \<Longrightarrow> f i g = Some (g', ms) \<Longrightarrow> P g \<Longrightarrow> P g'"
  shows "P g'"
  using assms
proof (induction "is" arbitrary: g ms)
  case (Cons i "is")
  then show ?case by (fastforce simp: Option.bind_eq_Some_conv)
qed simp

lemma for_each_append:
  "for_each f (is @ js) g = do {
     (g1, ms1) \<leftarrow> for_each f is g;
     (g2, ms2) \<leftarrow> for_each f js g1;
     Some (g2, ms1 @ ms2)
   }"
  by (induction "is" arbitrary: g) (simp_all add: bind_assoc case_prod_beta split: bind_splits)

lemma for_each_undo:
  assumes "for_each f is g = Some (g', ms)"
    and "\<And>i g g' ms. f i g = Some (g', ms) \<Longrightarrow> foldr restore ms g' = g"
  shows "foldr restore ms g' = g"
  using assms(1)
proof (induction "is" arbitrary: g g' ms)
  case (Cons i "is")
  then obtain g1 ms1 ms2 where "f i g = Some (g1, ms1)" "for_each f is g1 = Some (g', ms2)" "ms = ms1 @ ms2"
    by (auto simp: Option.bind_eq_Some_conv)
  with Cons.IH assms(2) show ?case by simp
qed simp

section \<open>The contract of a journalled table\<close>

definition journalled ::
  "('r \<Rightarrow> 's \<Rightarrow> 's option) \<Rightarrow> ('s \<Rightarrow> 'r list) \<Rightarrow> ('r list \<Rightarrow> 's \<Rightarrow> 's) \<Rightarrow> 's \<Rightarrow> 's \<Rightarrow> bool" where
  "journalled restore log set_log s s' \<longleftrightarrow>
    (\<exists>rs. log s' = log s @ rs \<and> undo_all restore rs (set_log [] s') = Some (set_log [] s))"

locale undoable =
  fixes restore :: "'r \<Rightarrow> 's \<Rightarrow> 's option"
    and log :: "'s \<Rightarrow> 'r list"
    and set_log :: "'r list \<Rightarrow> 's \<Rightarrow> 's"
  assumes log_set_log: "log (set_log l s) = l"
    and set_log_set_log: "set_log l (set_log l' s) = set_log l s"
    and set_log_log: "set_log (log s) s = s"
    and restore_set_log: "restore r (set_log l s) = map_option (set_log l) (restore r s)"
begin

lemma undo_all_set_log:
  "undo_all restore rs (set_log l s) = map_option (set_log l) (undo_all restore rs s)"
  by (induction rs) (auto simp: restore_set_log split: option.splits bind_splits)

lemma journalled_refl: "journalled restore log set_log s s"
  by (simp add: journalled_def)

lemma journalled_trans:
  assumes "journalled restore log set_log s s'" "journalled restore log set_log s' s''"
  shows "journalled restore log set_log s s''"
proof -
  obtain rs rs' where
    rs: "log s' = log s @ rs" "undo_all restore rs (set_log [] s') = Some (set_log [] s)"
    and rs': "log s'' = log s' @ rs'" "undo_all restore rs' (set_log [] s'') = Some (set_log [] s')"
    using assms by (auto simp: journalled_def)
  have "undo_all restore (rs @ rs') (set_log [] s'') = Some (set_log [] s)"
    using rs(2) rs'(2) by (simp add: undo_all_append)
  with rs(1) rs'(1) show ?thesis by (auto simp: journalled_def)
qed

lemma journalled_undo:
  assumes "journalled restore log set_log s s'"
  shows "undoChanges restore log set_log s' = undoChanges restore log set_log s"
proof -
  obtain rs where
    rs: "log s' = log s @ rs" "undo_all restore rs (set_log [] s') = Some (set_log [] s)"
    using assms by (auto simp: journalled_def)
  have clear: "map_option (set_log []) (undo_all restore l t) = undo_all restore l (set_log [] t)"
    for l t by (simp add: undo_all_set_log)
  show ?thesis
    unfolding undoChanges_def clear using rs by (simp add: undo_all_append)
qed

lemma undo_confirmed: "log s = [] \<Longrightarrow> undoChanges restore log set_log s = Some s"
  using set_log_log [of s] by (simp add: undoChanges_def)

lemma undo_to_confirmed:
  assumes "log s = []" "journalled restore log set_log s s'"
  shows "undoChanges restore log set_log s' = Some s"
  using journalled_undo [OF assms(2)] undo_confirmed [OF assms(1)] by simp

lemma journalled_rtranclp:
  assumes "step\<^sup>*\<^sup>* s s'"
    and "\<And>t t'. step t t' \<Longrightarrow> journalled restore log set_log t t'"
  shows "journalled restore log set_log s s'"
  using assms(1) by induction (auto intro: journalled_refl journalled_trans assms(2))

end

end
