(* ===== verification/Shm_Keys.thy ===== *)
theory Shm_Keys
  imports Brm_Prelude
begin

text \<open>
  The key ranges of the shared-memory segments (\<^verbatim>\<open>shmkeys.h\<close>, \<^verbatim>\<open>shmkeys.cpp\<close>
  in the default build, where \<^verbatim>\<open>BRM_UID\<close> is 0) and the choice of the next key.
  \<^verbatim>\<open>chooseShmkey\<close> of the VSS, the VBBM and the copy locks, and \<^verbatim>\<open>chooseEMShmkey\<close>
  and \<^verbatim>\<open>chooseFLShmkey\<close> of the extent map, are the same function of the table's base key
  and its current key; \<^verbatim>\<open>fixedKeys\<close> is 1 in all of them. The second comparison is unsigned.

  The theory also has a table's descriptor in the master segment table
  (\<^verbatim>\<open>mastersegmenttable.h\<close>) and the growth of a mapped segment
  (\<^verbatim>\<open>brmshmimpl.cpp\<close>): the old contents followed by zeroes.
\<close>

definition KEYRANGE_SIZE :: int where
  "KEYRANGE_SIZE = 0x10000"

definition KEYRANGE_VSS_BASE :: int where
  "KEYRANGE_VSS_BASE = 0x10000"

definition KEYRANGE_EXTENTMAP_BASE :: int where
  "KEYRANGE_EXTENTMAP_BASE = 0x20000"

definition KEYRANGE_EMFREELIST_BASE :: int where
  "KEYRANGE_EMFREELIST_BASE = 0x30000"

definition KEYRANGE_VBBM_BASE :: int where
  "KEYRANGE_VBBM_BASE = 0x40000"

definition KEYRANGE_CL_BASE :: int where
  "KEYRANGE_CL_BASE = 0x50000"

definition chooseShmkey :: "int \<Rightarrow> int \<Rightarrow> int" where
  "chooseShmkey base key =
    (if key + 1 = base + KEYRANGE_SIZE - 1 \<or> take_bit 32 key < base then base + 1 else key + 1)"

lemma chooseShmkey_fresh:
  assumes "0 < base" "base + 1 < 2 ^ 32"
  shows "chooseShmkey base key \<noteq> key"
proof
  assume eq: "chooseShmkey base key = key"
  then have "key = base + 1" "take_bit 32 key < base"
    by (auto simp: chooseShmkey_def KEYRANGE_SIZE_def split: if_splits)
  moreover from this assms have "take_bit 32 key = key" by (intro take_bit_int_eq_self) simp_all
  ultimately show False by simp
qed

lemma chooseShmkey_range:
  assumes "0 \<le> key" "key < base + KEYRANGE_SIZE - 1" "base + KEYRANGE_SIZE < 2 ^ 32"
  shows "base < chooseShmkey base key \<and> chooseShmkey base key < base + KEYRANGE_SIZE - 1"
proof -
  have "take_bit 32 key = key" using assms by (intro take_bit_int_eq_self) simp_all
  then show ?thesis using assms by (auto simp: chooseShmkey_def KEYRANGE_SIZE_def)
qed

lemmas key_bases = KEYRANGE_VSS_BASE_def KEYRANGE_EXTENTMAP_BASE_def KEYRANGE_EMFREELIST_BASE_def
  KEYRANGE_VBBM_BASE_def KEYRANGE_CL_BASE_def

section \<open>Segment descriptors and growth\<close>

record MSTEntry =
  mst_tableShmkey :: int
  mst_allocdSize :: int
  mst_currentSize :: int

definition shm_grow :: "int \<Rightarrow> int \<Rightarrow> nat \<Rightarrow> 'e \<Rightarrow> 'e list \<Rightarrow> 'e list option" where
  "shm_grow key newKey n zero xs =
    (if newKey \<noteq> key \<and> length xs \<le> n then Some (xs @ replicate (n - length xs) zero) else None)"

end
