(* ===== verification/Vss.thy ===== *)
theory Vss
  imports Brm_Hasher Hash_Chain Undo_Log Shm_Keys
begin

text \<open>
  The Version Substitution Structure, \<^verbatim>\<open>src/versioning/BRM/vss.h\<close> and
  \<^verbatim>\<open>vss.cpp\<close>: for each block (LBID) the versions of it that exist, whether a version
  lives in the version buffer (\<^verbatim>\<open>vbFlag\<close>) and whether a transaction still holds it
  (\<^verbatim>\<open>locked\<close>).

  \<open>vss_segment\<close> is the shared-memory segment (header, bucket heads, entries) and
  \<open>VSS\<close> the object around it. An operation on the segment returns the new segment and
  the images it recorded for undo, in the order of its \<^verbatim>\<open>makeUndoRecord\<close> calls;
  \<open>vss_on\<close> runs it on the object and appends the images to the log. The number
  \<open>vss_mapping\<close> identifies the mapped segment an image points into. The model is of the
  build without \<^verbatim>\<open>BRM_DEBUG\<close>.
\<close>

section \<open>Data\<close>

record VSSEntry =
  vss_lbid :: LBID_t
  vss_verID :: VER_t
  vss_vbFlag :: bool
  vss_locked :: bool
  vss_next :: int

definition newVSSEntry :: VSSEntry where
  "newVSSEntry = \<lparr>vss_lbid = -1, vss_verID = 0, vss_vbFlag = False, vss_locked = False, vss_next = -1\<rparr>"

record VSSShmsegHeader =
  capacity :: int
  currentSize :: int
  LWM :: int
  numHashBuckets :: int
  lockedEntryCount :: int

record vss_segment =
  vss_header :: VSSShmsegHeader
  vss_buckets :: "int list"
  vss_storage :: "VSSEntry list"

datatype vss_image =
    VssHeaderImage VSSShmsegHeader
  | VssSizeImage int
  | VssEntryImage nat VSSEntry
  | VssBucketImage nat int

record VSS =
  vss_shm :: vss_segment
  vss_tableShmkey :: int
  vss_allocdSize :: int
  vss_attached :: bool
  vss_mapping :: nat
  vss_undoRecords :: "(nat \<times> vss_image) list"

text \<open>The size macros of \<^verbatim>\<open>vss.h\<close>. On LP64 a \<^verbatim>\<open>VSSEntry\<close> takes 24 bytes and
  the header 20.\<close>

definition sizeof_VSSEntry :: int where
  "sizeof_VSSEntry = 24"

definition sizeof_VSSShmsegHeader :: int where
  "sizeof_VSSShmsegHeader = 20"

definition VSSSTORAGE_INITIAL_COUNT :: int where
  "VSSSTORAGE_INITIAL_COUNT = 200000"

definition VSSSTORAGE_INCREMENT_COUNT :: int where
  "VSSSTORAGE_INCREMENT_COUNT = 20000"

definition VSSTABLE_INITIAL_COUNT :: int where
  "VSSTABLE_INITIAL_COUNT = 50000"

definition VSSTABLE_INCREMENT_COUNT :: int where
  "VSSTABLE_INCREMENT_COUNT = 5000"

definition VSS_INITIAL_SIZE :: int where
  "VSS_INITIAL_SIZE = sizeof_VSSShmsegHeader + VSSSTORAGE_INITIAL_COUNT * sizeof_VSSEntry +
    VSSTABLE_INITIAL_COUNT * 4"

definition VSS_INCREMENT :: int where
  "VSS_INCREMENT = VSSTABLE_INCREMENT_COUNT * 4 + VSSSTORAGE_INCREMENT_COUNT * sizeof_VSSEntry"

definition VSS_SIZE :: "int \<Rightarrow> int" where
  "VSS_SIZE entries = entries * sizeof_VSSEntry + entries div 4 * 4 + sizeof_VSSShmsegHeader"

abbreviation vss_capacity :: "vss_segment \<Rightarrow> int" where
  "vss_capacity g \<equiv> capacity (vss_header g)"

abbreviation vss_currentSize :: "vss_segment \<Rightarrow> int" where
  "vss_currentSize g \<equiv> currentSize (vss_header g)"

abbreviation vss_LWM :: "vss_segment \<Rightarrow> int" where
  "vss_LWM g \<equiv> LWM (vss_header g)"

abbreviation vss_lockedCount :: "vss_segment \<Rightarrow> int" where
  "vss_lockedCount g \<equiv> lockedEntryCount (vss_header g)"

definition vss_used :: "VSSEntry \<Rightarrow> bool" where
  "vss_used e \<longleftrightarrow> vss_lbid e \<noteq> -1"

text \<open>\<^verbatim>\<open>hasher((char *) &lbid, sizeof(lbid)) % numHashBuckets\<close>.\<close>

definition vss_hash :: "LBID_t \<Rightarrow> int \<Rightarrow> nat" where
  "vss_hash l n = nat (uint (hasher (bytes64 l)) mod n)"

definition vss_bkt :: "nat \<Rightarrow> VSSEntry \<Rightarrow> nat" where
  "vss_bkt n e = vss_hash (vss_lbid e) (int n)"

definition vss_head :: "vss_segment \<Rightarrow> LBID_t \<Rightarrow> int option" where
  "vss_head g l =
    (let b = vss_hash l (numHashBuckets (vss_header g))
     in if b < length (vss_buckets g) then Some (vss_buckets g ! b) else None)"

section \<open>Undo records\<close>

primrec vss_restore_image :: "vss_image \<Rightarrow> vss_segment \<Rightarrow> vss_segment" where
  "vss_restore_image (VssHeaderImage h) g = g\<lparr>vss_header := h\<rparr>"
| "vss_restore_image (VssSizeImage n) g = g\<lparr>vss_header := vss_header g\<lparr>currentSize := n\<rparr>\<rparr>"
| "vss_restore_image (VssEntryImage i e) g = g\<lparr>vss_storage := (vss_storage g)[i := e]\<rparr>"
| "vss_restore_image (VssBucketImage b n) g = g\<lparr>vss_buckets := (vss_buckets g)[b := n]\<rparr>"

text \<open>The bytes a record of each kind takes.\<close>

primrec vss_image_size :: "vss_image \<Rightarrow> int" where
  "vss_image_size (VssHeaderImage h) = sizeof_VSSShmsegHeader"
| "vss_image_size (VssSizeImage n) = 4"
| "vss_image_size (VssEntryImage i e) = sizeof_VSSEntry"
| "vss_image_size (VssBucketImage b n) = 4"

text \<open>\<^verbatim>\<open>memcpy\<close> back through the recorded address: \<open>None\<close> when the segment it
  points into has been replaced since.\<close>

definition vss_restore :: "nat \<times> vss_image \<Rightarrow> VSS \<Rightarrow> VSS option" where
  "vss_restore r s =
    (if fst r = vss_mapping s then Some (s\<lparr>vss_shm := vss_restore_image (snd r) (vss_shm s)\<rparr>)
     else None)"

definition vss_set_undo :: "(nat \<times> vss_image) list \<Rightarrow> VSS \<Rightarrow> VSS" where
  "vss_set_undo l s = s\<lparr>vss_undoRecords := l\<rparr>"

definition vss_undoChanges :: "VSS \<Rightarrow> VSS option" where
  "vss_undoChanges = undoChanges vss_restore vss_undoRecords vss_set_undo"

definition vss_confirmChanges :: "VSS \<Rightarrow> VSS" where
  "vss_confirmChanges = confirmChanges vss_set_undo"

definition vss_on ::
  "(vss_segment \<Rightarrow> (vss_segment \<times> vss_image list) option) \<Rightarrow> VSS \<Rightarrow> VSS option" where
  "vss_on f s = do {
     (g, imgs) \<leftarrow> f (vss_shm s);
     Some (s\<lparr>vss_shm := g,
             vss_undoRecords := vss_undoRecords s @ map (Pair (vss_mapping s)) imgs\<rparr>)
   }"

section \<open>Insertion and growth\<close>

definition vss_set_next :: "int \<Rightarrow> VSSEntry \<Rightarrow> VSSEntry" where
  "vss_set_next n e = e\<lparr>vss_next := n\<rparr>"

definition vss_kill :: "VSSEntry \<Rightarrow> VSSEntry" where
  "vss_kill e = e\<lparr>vss_lbid := -1\<rparr>"

text \<open>A segment in fresh, zero-filled memory after the loops that set every bucket head and
  every \<^verbatim>\<open>lbid\<close> to \<open>-1\<close>.\<close>

definition vss_fresh_segment :: "int \<Rightarrow> int \<Rightarrow> vss_segment" where
  "vss_fresh_segment cap nb = \<lparr>
     vss_header = \<lparr>capacity = cap, currentSize = 0, LWM = 0, numHashBuckets = nb, lockedEntryCount = 0\<rparr>,
     vss_buckets = replicate (nat nb) (-1),
     vss_storage = replicate (nat cap)
       \<lparr>vss_lbid = -1, vss_verID = 0, vss_vbFlag = False, vss_locked = False, vss_next = 0\<rparr>\<rparr>"

definition vss_initShmseg :: vss_segment where
  "vss_initShmseg = vss_fresh_segment VSSSTORAGE_INITIAL_COUNT VSSTABLE_INITIAL_COUNT"

text \<open>\<^verbatim>\<open>VSS::_insert\<close>.\<close>

definition vss_insert0 ::
  "VSSEntry \<Rightarrow> bool \<Rightarrow> vss_segment \<Rightarrow> (vss_segment \<times> vss_image list) option" where
  "vss_insert0 e loading g = do {
     let hashIndex = vss_hash (vss_lbid e) (numHashBuckets (vss_header g));
     insertIndex \<leftarrow> free_from vss_used (vss_storage g) (nat (vss_LWM g));
     if hashIndex < length (vss_buckets g) then
       Some (g\<lparr>vss_header := vss_header g\<lparr>LWM := int insertIndex + 1\<rparr>,
               vss_storage := (vss_storage g)
                 [insertIndex := vss_set_next (vss_buckets g ! hashIndex) e],
               vss_buckets := (vss_buckets g)[hashIndex := int insertIndex]\<rparr>,
             if loading then []
             else [VssHeaderImage (vss_header g),
                   VssEntryImage insertIndex (vss_storage g ! insertIndex),
                   VssBucketImage hashIndex (vss_buckets g ! hashIndex)])
     else None
   }"

text \<open>The rest of \<^verbatim>\<open>VSS::insert\<close>, after the check for a resize.\<close>

definition vss_insert_seg ::
  "VSSEntry \<Rightarrow> bool \<Rightarrow> vss_segment \<Rightarrow> (vss_segment \<times> vss_image list) option" where
  "vss_insert_seg e loading g = do {
     (g1, imgs) \<leftarrow> vss_insert0 e loading g;
     let h = vss_header g1;
     Some (g1\<lparr>vss_header := h\<lparr>currentSize := currentSize h + 1,
              lockedEntryCount := (if vss_locked e then lockedEntryCount h + 1 else lockedEntryCount h)\<rparr>\<rparr>,
           if loading then imgs else imgs @ [VssSizeImage (currentSize h)])
   }"

text \<open>\<^verbatim>\<open>VSS::copyVSS\<close>: the first \<^verbatim>\<open>currentSize\<close> slots are walked.\<close>

primrec vss_rehash :: "VSSEntry list \<Rightarrow> vss_segment \<Rightarrow> vss_segment option" where
  "vss_rehash [] d = Some d"
| "vss_rehash (e # es) d =
    (if vss_used e then do { (d', _) \<leftarrow> vss_insert0 e True d; vss_rehash es d' }
     else vss_rehash es d)"

definition vss_copyVSS :: "vss_segment \<Rightarrow> int \<Rightarrow> int \<Rightarrow> vss_segment option" where
  "vss_copyVSS g cap nb =
    (let d = vss_fresh_segment cap nb
     in vss_rehash (take (nat (vss_currentSize g)) (vss_storage g))
          (d\<lparr>vss_header := vss_header d\<lparr>currentSize := vss_currentSize g,
                                         lockedEntryCount := vss_lockedCount g\<rparr>\<rparr>))"

definition vss_growVSS :: "VSS \<Rightarrow> VSS option" where
  "vss_growVSS s = do {
     let g = vss_shm s;
     let allocSize = (if vss_allocdSize s = 0 then VSS_INITIAL_SIZE
                      else vss_allocdSize s + VSS_INCREMENT);
     let newshmkey = chooseShmkey KEYRANGE_VSS_BASE (vss_tableShmkey s);
     g1 \<leftarrow> (if vss_attached s then
               vss_copyVSS g (vss_capacity g + VSSSTORAGE_INCREMENT_COUNT)
                 (numHashBuckets (vss_header g) + VSSTABLE_INCREMENT_COUNT)
             else if allocSize = VSS_INITIAL_SIZE then Some vss_initShmseg
             else None);
     Some (s\<lparr>vss_shm := (if allocSize = VSS_INITIAL_SIZE then vss_initShmseg else g1),
             vss_attached := True,
             vss_mapping := vss_mapping s + 1,
             vss_tableShmkey := newshmkey,
             vss_allocdSize := allocSize\<rparr>)
   }"

definition vss_insert :: "LBID_t \<Rightarrow> VER_t \<Rightarrow> bool \<Rightarrow> bool \<Rightarrow> bool \<Rightarrow> VSS \<Rightarrow> VSS option" where
  "vss_insert l v vb lk loading s = do {
     let entry = \<lparr>vss_lbid = l, vss_verID = v, vss_vbFlag = vb, vss_locked = lk, vss_next = -1\<rparr>;
     s1 \<leftarrow> (if vss_currentSize (vss_shm s) = vss_capacity (vss_shm s) then vss_growVSS s else Some s);
     vss_on (vss_insert_seg entry loading) s1
   }"

definition vss_growForLoad :: "int \<Rightarrow> VSS \<Rightarrow> VSS" where
  "vss_growForLoad elementCount0 s =
    (let n0 = (if elementCount0 < VSSSTORAGE_INITIAL_COUNT then VSSSTORAGE_INITIAL_COUNT
               else elementCount0);
         elementCount = (if n0 mod VSSSTORAGE_INCREMENT_COUNT \<noteq> 0
                         then (n0 div VSSSTORAGE_INCREMENT_COUNT + 1) * VSSSTORAGE_INCREMENT_COUNT
                         else n0)
     in s\<lparr>vss_shm := vss_fresh_segment elementCount (elementCount div 4),
          vss_attached := True,
          vss_mapping := vss_mapping s + 1,
          vss_undoRecords := [],
          vss_tableShmkey := chooseShmkey KEYRANGE_VSS_BASE (vss_tableShmkey s),
          vss_allocdSize := VSS_SIZE elementCount\<rparr>)"

definition vss_clear :: "VSS \<Rightarrow> VSS option" where
  "vss_clear s =
    (let newshmkey = chooseShmkey KEYRANGE_VSS_BASE (vss_tableShmkey s)
     in if vss_attached s \<and> vss_tableShmkey s \<noteq> newshmkey then
          Some (s\<lparr>vss_shm := vss_initShmseg,
                  vss_mapping := vss_mapping s + 1,
                  vss_tableShmkey := newshmkey,
                  vss_allocdSize := VSS_INITIAL_SIZE\<rparr>)
        else None)"

section \<open>Queries\<close>

record QueryContext_vss =
  currentScn :: VER_t
  txns :: "VER_t set"

definition mkQueryContext_vss :: "VER_t \<Rightarrow> VER_t list \<Rightarrow> QueryContext_vss" where
  "mkQueryContext_vss scn currentTxns = \<lparr>currentScn = scn, txns = set currentTxns\<rparr>"

definition ERR_SNAPSHOT_TOO_OLD :: int where
  "ERR_SNAPSHOT_TOO_OLD = 15"

text \<open>The loop body of \<^verbatim>\<open>VSS::lookup\<close>; the loop variables are \<^verbatim>\<open>maxVersion\<close>,
  \<^verbatim>\<open>minVersion\<close> and \<^verbatim>\<open>maxEntry\<close>. A result is the return code with
  \<^verbatim>\<open>*outVer\<close> and \<^verbatim>\<open>*vbFlag\<close>.\<close>

definition vss_lookup_body ::
  "LBID_t \<Rightarrow> QueryContext_vss \<Rightarrow> VER_t \<Rightarrow> bool \<Rightarrow> int \<times> int \<times> VSSEntry option \<Rightarrow> nat \<Rightarrow> VSSEntry
    \<Rightarrow> (int \<times> int \<times> VSSEntry option, int \<times> VER_t \<times> bool) control" where
  "vss_lookup_body l verInfo txnID vbOnly a k e =
    (case a of (maxVersion, minVersion, maxEntry) \<Rightarrow>
      if vss_lbid e \<noteq> l then Continue a
      else if vbOnly \<and> \<not> vss_vbFlag e then Continue a
      else if txnID \<noteq> vss_verID e \<and> vss_verID e \<in> txns verInfo then Continue a
      else if currentScn verInfo = vss_verID e then Return (0, vss_verID e, vss_vbFlag e)
      else
        let minVersion' = (if minVersion > vss_verID e \<or> minVersion = -1 then vss_verID e
                           else minVersion)
        in if currentScn verInfo > vss_verID e \<and> maxVersion < vss_verID e
           then Continue (vss_verID e, minVersion', Some e)
           else Continue (maxVersion, minVersion', maxEntry))"

definition vss_lookup ::
  "LBID_t \<Rightarrow> QueryContext_vss \<Rightarrow> VER_t \<Rightarrow> bool \<Rightarrow> vss_segment \<Rightarrow> (int \<times> VER_t \<times> bool) option" where
  "vss_lookup l verInfo txnID vbOnly g = do {
     i \<leftarrow> vss_head g l;
     r \<leftarrow> scan vss_next (vss_storage g) (vss_lookup_body l verInfo txnID vbOnly) (-1, -1, None) i;
     Some (case r of
        Return out \<Rightarrow> out
      | Continue (maxVersion, minVersion, Some e) \<Rightarrow> (0, maxVersion, vss_vbFlag e)
      | Continue (maxVersion, minVersion, None) \<Rightarrow>
          if minVersion > currentScn verInfo then (ERR_SNAPSHOT_TOO_OLD, 0, False) else (-1, 0, False))
   }"

text \<open>The version outside the version buffer and its \<^verbatim>\<open>locked\<close> flag.\<close>

definition vss_getCurrentVersion :: "LBID_t \<Rightarrow> vss_segment \<Rightarrow> (VER_t \<times> bool) option" where
  "vss_getCurrentVersion l g = do {
     i \<leftarrow> vss_head g l;
     r \<leftarrow> scan vss_next (vss_storage g)
       (\<lambda>_ k e. if vss_lbid e = l \<and> \<not> vss_vbFlag e then Return (vss_verID e, vss_locked e)
                else Continue ()) () i;
     Some (case r of Return out \<Rightarrow> out | Continue _ \<Rightarrow> (0, False))
   }"

definition vss_getHighestVerInVB :: "LBID_t \<Rightarrow> VER_t \<Rightarrow> vss_segment \<Rightarrow> VER_t option" where
  "vss_getHighestVerInVB l mx g = do {
     i \<leftarrow> vss_head g l;
     r \<leftarrow> scan vss_next (vss_storage g)
       (\<lambda>ret k e. if (vss_lbid e = l \<and> vss_vbFlag e) \<and> (vss_verID e \<le> mx \<and> vss_verID e > ret)
                  then Continue (vss_verID e) else Continue ret) (-1) i;
     Some (case r of Return (_ :: unit) \<Rightarrow> -1 | Continue ret \<Rightarrow> ret)
   }"

definition vss_isVersioned :: "LBID_t \<Rightarrow> VER_t \<Rightarrow> vss_segment \<Rightarrow> bool option" where
  "vss_isVersioned l v g = do {
     i \<leftarrow> vss_head g l;
     r \<leftarrow> scan vss_next (vss_storage g)
       (\<lambda>_ k e. if vss_lbid e = l \<and> vss_verID e = v then Return (vss_vbFlag e) else Continue ()) () i;
     Some (case r of Return b \<Rightarrow> b | Continue _ \<Rightarrow> False)
   }"

primrec vss_isLocked_blocks :: "LBID_t list \<Rightarrow> VER_t \<Rightarrow> vss_segment \<Rightarrow> bool option" where
  "vss_isLocked_blocks [] transID g = Some False"
| "vss_isLocked_blocks (l # ls) transID g = do {
     i \<leftarrow> vss_head g l;
     r \<leftarrow> scan vss_next (vss_storage g)
       (\<lambda>_ k e. if vss_lbid e = l \<and> vss_locked e then Return (vss_verID e \<noteq> transID)
                else Continue ()) () i;
     (case r of Return b \<Rightarrow> Some b | Continue _ \<Rightarrow> vss_isLocked_blocks ls transID g)
   }"

definition vss_isLocked :: "LBIDRange \<Rightarrow> VER_t \<Rightarrow> vss_segment \<Rightarrow> bool option" where
  "vss_isLocked r transID g = vss_isLocked_blocks (range_lbids r) transID g"

definition vss_isTooOld :: "LBID_t \<Rightarrow> VER_t \<Rightarrow> vss_segment \<Rightarrow> bool option" where
  "vss_isTooOld l v g = do {
     i \<leftarrow> vss_head g l;
     r \<leftarrow> scan vss_next (vss_storage g)
       (\<lambda>minVer k e. if vss_lbid e = l \<and> minVer > vss_verID e then Continue (vss_verID e)
                     else Continue minVer) 0 i;
     Some (case r of Return (_ :: unit) \<Rightarrow> False | Continue minVer \<Rightarrow> minVer > v)
   }"

definition vss_isEntryLocked :: "LBID_t \<Rightarrow> VER_t \<Rightarrow> vss_segment \<Rightarrow> bool option" where
  "vss_isEntryLocked l v g =
    (if l = -1 then Some False
     else do {
       i \<leftarrow> vss_head g l;
       r \<leftarrow> scan vss_next (vss_storage g)
         (\<lambda>(hasALockedEntry, rollbackVersion) k e.
            if vss_lbid e = l then
              (if vss_locked e then Continue (True, rollbackVersion)
               else if rollbackVersion < vss_verID e then Continue (hasALockedEntry, vss_verID e)
               else Continue (hasALockedEntry, rollbackVersion))
            else Continue (hasALockedEntry, rollbackVersion)) (False, 0) i;
       Some (case r of Return (_ :: unit) \<Rightarrow> False
             | Continue (hasALockedEntry, rollbackVersion) \<Rightarrow> hasALockedEntry \<and> v = rollbackVersion)
     })"

text \<open>\<^verbatim>\<open>VSS::getIndex\<close> with its out-parameters \<^verbatim>\<open>prev\<close> and \<^verbatim>\<open>bucket\<close>.\<close>

definition vss_getIndex :: "LBID_t \<Rightarrow> VER_t \<Rightarrow> vss_segment \<Rightarrow> (int \<times> int \<times> nat) option" where
  "vss_getIndex l v g = do {
     let bucket = vss_hash l (numHashBuckets (vss_header g));
     i \<leftarrow> vss_head g l;
     r \<leftarrow> scan vss_next (vss_storage g)
       (\<lambda>prev k e. if vss_lbid e = l \<and> vss_verID e = v then Return (int k, prev)
                   else Continue (int k)) (-1) i;
     Some (case r of Return (k, prev) \<Rightarrow> (k, prev, bucket) | Continue prev \<Rightarrow> (-1, prev, bucket))
   }"

section \<open>Updates\<close>

text \<open>The block that takes entry \<open>k\<close> out of its chain, which the source repeats in
  \<^verbatim>\<open>removeEntry\<close> (lines 618 to 633 and 645 to 661) and in
  \<^verbatim>\<open>removeEntriesFromDB\<close> (lines 909 to 923).\<close>

definition vss_unlink :: "nat \<Rightarrow> int \<Rightarrow> nat \<Rightarrow> vss_segment \<Rightarrow> vss_segment \<times> vss_image list" where
  "vss_unlink bucket prev k g =
    (let st = vss_storage g; hb = vss_buckets g; h = vss_header g;
         (st', hb') = unlinked vss_set_next vss_kill vss_next bucket prev k st hb
     in (g\<lparr>vss_storage := st', vss_buckets := hb',
           vss_header := h\<lparr>
             currentSize := currentSize h - 1,
             lockedEntryCount := (if vss_locked (st ! k) \<and> lockedEntryCount h > 0
                                  then lockedEntryCount h - 1 else lockedEntryCount h),
             LWM := (if int k < LWM h then int k else LWM h)\<rparr>\<rparr>,
         [VssEntryImage k (st ! k),
          if prev \<noteq> -1 then VssEntryImage (nat prev) (st[k := vss_kill (st ! k)] ! nat prev)
          else VssBucketImage bucket (hb ! bucket)]))"

text \<open>The loop that removes every entry of an LBID from its bucket. It returns the images
  recorded and the entries removed, as they were.\<close>

partial_function (option) vss_unlink_loop ::
  "LBID_t \<Rightarrow> nat \<Rightarrow> int \<Rightarrow> int \<Rightarrow> vss_segment \<Rightarrow> (vss_segment \<times> vss_image list \<times> VSSEntry list) option"
where
  [code]: "vss_unlink_loop l bucket prev index g =
    (if index = -1 then Some (g, [], [])
     else if 0 \<le> index \<and> index < int (length (vss_storage g)) then
       let k = nat index; e = vss_storage g ! k
       in if vss_lbid e = l then
            let (g1, imgs) = vss_unlink bucket prev k g
            in do {
              (g2, imgs2, rm) \<leftarrow> vss_unlink_loop l bucket prev (vss_next (vss_storage g1 ! k)) g1;
              Some (g2, imgs @ imgs2, e # rm)
            }
          else vss_unlink_loop l bucket index (vss_next e) g
     else None)"

text \<open>\<^verbatim>\<open>VSS::removeEntry\<close>; the last component is what it appends to \<^verbatim>\<open>flushList\<close>.\<close>

definition vss_removeEntry ::
  "LBID_t \<Rightarrow> VER_t \<Rightarrow> vss_segment \<Rightarrow> (vss_segment \<times> vss_image list \<times> LBID_t list) option" where
  "vss_removeEntry l v g = do {
     (index, prev, bucket) \<leftarrow> vss_getIndex l v g;
     if index = -1 then Some (g, [], [])
     else let (g1, imgs0) = vss_unlink bucket prev (nat index) g;
              imgs = imgs0 @ [VssHeaderImage (vss_header g)]
          in do {
            r \<leftarrow> scan vss_next (vss_storage g1)
              (\<lambda>_ k e. if vss_lbid e = l \<and> (vss_vbFlag e \<or> vss_locked e) then Return () else Continue ())
              () (vss_buckets g1 ! bucket);
            (case r of
               Return _ \<Rightarrow> Some (g1, imgs, [])
             | Continue _ \<Rightarrow> do {
                 (g2, imgs2, _) \<leftarrow> vss_unlink_loop l bucket (-1) (vss_buckets g1 ! bucket) g1;
                 Some (g2, imgs @ imgs2, [l])
               })
          }
   }"

definition vss_setVBFlag ::
  "LBID_t \<Rightarrow> VER_t \<Rightarrow> bool \<Rightarrow> vss_segment \<Rightarrow> (vss_segment \<times> vss_image list) res option" where
  "vss_setVBFlag l v vb g = do {
     (index, prev, bucket) \<leftarrow> vss_getIndex l v g;
     if index = -1 then Some (Inl (Logic_error ''VSS::setVBFlag(): that entry doesn't exist''))
     else let k = nat index; e = vss_storage g ! k
          in Some (Inr (g\<lparr>vss_storage := (vss_storage g)[k := e\<lparr>vss_vbFlag := vb\<rparr>]\<rparr>,
                        [VssEntryImage k e]))
   }"

definition vss_commit_entry ::
  "VER_t \<Rightarrow> nat \<Rightarrow> vss_segment \<Rightarrow> (vss_segment \<times> vss_image list) option" where
  "vss_commit_entry txnID i g =
    (let e = vss_storage g ! i; h = vss_header g
     in if vss_lbid e \<noteq> -1 \<and> vss_verID e = txnID then
          Some (g\<lparr>vss_storage := (vss_storage g)[i := e\<lparr>vss_locked := False\<rparr>],
                  vss_header := h\<lparr>lockedEntryCount :=
                    (if lockedEntryCount h > 0 then lockedEntryCount h - 1 else lockedEntryCount h)\<rparr>\<rparr>,
                [VssEntryImage i e])
        else Some (g, []))"

definition vss_commit :: "VER_t \<Rightarrow> vss_segment \<Rightarrow> (vss_segment \<times> vss_image list) option" where
  "vss_commit txnID g = for_each (vss_commit_entry txnID) [0..<nat (vss_capacity g)] g"

text \<open>\<^verbatim>\<open>VSS::removeEntriesFromDB\<close>. The entries returned last are those removed while
  their \<^verbatim>\<open>vbFlag\<close> was set, in the order in which the source calls
  \<^verbatim>\<open>vbbm.removeEntry\<close> for them.\<close>

definition vss_remove_block ::
  "LBID_t \<Rightarrow> vss_segment \<times> (LBID_t \<times> VER_t) list
    \<Rightarrow> ((vss_segment \<times> (LBID_t \<times> VER_t) list) \<times> vss_image list) option" where
  "vss_remove_block l gr = do {
     let (g, rm) = gr;
     i \<leftarrow> vss_head g l;
     (g', imgs, es) \<leftarrow> vss_unlink_loop l (vss_hash l (numHashBuckets (vss_header g))) (-1) i g;
     Some ((g', rm @ map (\<lambda>e. (vss_lbid e, vss_verID e)) (filter vss_vbFlag es)), imgs)
   }"

definition vss_removeEntriesFromDB ::
  "LBIDRange \<Rightarrow> vss_segment \<Rightarrow> (vss_segment \<times> vss_image list \<times> (LBID_t \<times> VER_t) list) option" where
  "vss_removeEntriesFromDB r g = do {
     ((g', rm), imgs) \<leftarrow> for_each vss_remove_block (range_lbids r) (g, []);
     Some (g', VssHeaderImage (vss_header g) # imgs, rm)
   }"

section \<open>Enumerations and whole-table checks\<close>

definition vss_slots :: "vss_segment \<Rightarrow> VSSEntry list" where
  "vss_slots g = map ((!) (vss_storage g)) [0..<nat (vss_capacity g)]"

definition vss_getUncommittedLBIDs :: "VER_t \<Rightarrow> vss_segment \<Rightarrow> LBID_t list" where
  "vss_getUncommittedLBIDs txnID g =
    map vss_lbid (filter (\<lambda>e. vss_lbid e \<noteq> -1 \<and> vss_verID e = txnID) (vss_slots g))"

definition vss_getUnlockedLBIDs :: "vss_segment \<Rightarrow> (LBID_t \<times> VER_t) list" where
  "vss_getUnlockedLBIDs g =
    map (\<lambda>e. (vss_lbid e, vss_verID e)) (filter (\<lambda>e. vss_lbid e \<noteq> -1 \<and> \<not> vss_locked e) (vss_slots g))"

definition vss_getLockedLBIDs :: "vss_segment \<Rightarrow> (LBID_t \<times> VER_t) list" where
  "vss_getLockedLBIDs g =
    map (\<lambda>e. (vss_lbid e, vss_verID e)) (filter (\<lambda>e. vss_lbid e \<noteq> -1 \<and> vss_locked e) (vss_slots g))"

definition vss_getCurrentTxnIDs :: "VER_t set \<Rightarrow> vss_segment \<Rightarrow> VER_t set" where
  "vss_getCurrentTxnIDs acc g =
    acc \<union> vss_verID ` set (filter (\<lambda>e. vss_lbid e \<noteq> -1 \<and> vss_locked e) (vss_slots g))"

definition vss_size :: "vss_segment \<Rightarrow> int res" where
  "vss_size g =
    (let ret = int (length (filter (\<lambda>e. vss_lbid e \<noteq> -1) (vss_slots g)))
     in if ret \<noteq> vss_currentSize g
        then Inl (Logic_error ''VSS: actual size & recorded size disagree.'')
        else Inr ret)"

definition vss_hashEmpty :: "vss_segment \<Rightarrow> bool" where
  "vss_hashEmpty g = list_all (\<lambda>n. n = -1) (vss_buckets g)"

definition vss_isEmpty :: "vss_segment \<Rightarrow> bool" where
  "vss_isEmpty g \<longleftrightarrow> vss_currentSize g = 0"

text \<open>\<^verbatim>\<open>VSS::checkConsistency\<close>. The first argument is \<^verbatim>\<open>vbbm.lookup\<close>.\<close>

definition vss_check_vbbm ::
  "(LBID_t \<Rightarrow> VER_t \<Rightarrow> int res option) \<Rightarrow> VSSEntry \<Rightarrow> unit res option" where
  "vss_check_vbbm vbbm_lookup e =
    (if vss_lbid e \<noteq> -1 \<and> vss_vbFlag e then do {
       r \<leftarrow> vbbm_lookup (vss_lbid e) (vss_verID e);
       Some (case r of
          Inl err \<Rightarrow> Inl err
        | Inr err \<Rightarrow>
            if err \<noteq> 0 then Inl (Logic_error
              ''VSS::checkConsistency(): a VSS entry with vbflag set is not in the VBBM'')
            else Inr ())
     } else Some (Inr ()))"

definition vss_check_chain :: "vss_segment \<Rightarrow> int \<Rightarrow> unit res option" where
  "vss_check_chain g head =
    reject_if (Logic_error
        ''VSS::checkConsistency(): an empty storage entry is reachable from the hash table'')
      (scan_unused (\<lambda>e. vss_lbid e \<noteq> -1) vss_next (vss_storage g) head)"

definition vss_check_LWM :: "vss_segment \<Rightarrow> nat \<Rightarrow> unit res option" where
  "vss_check_LWM g i =
    Some (if vss_lbid (vss_storage g ! i) = -1
          then Inl (Logic_error ''VSS::checkConsistency(): LWM accounting error'') else Inr ())"

definition vss_check_unique :: "vss_segment \<Rightarrow> int \<Rightarrow> unit res option" where
  "vss_check_unique g head =
    reject_if (Logic_error ''VSS::checkConsistency(): Duplicate entry found'')
      (scan_duplicate (\<lambda>e. (vss_lbid e, vss_verID e)) vss_next (vss_storage g) head)"

definition vss_checkConsistency ::
  "(LBID_t \<Rightarrow> VER_t \<Rightarrow> int res option) \<Rightarrow> vss_segment \<Rightarrow> unit res option" where
  "vss_checkConsistency vbbm_lookup g =
    check_all id
      [check_all (vss_check_vbbm vbbm_lookup) (vss_slots g),
       Some (map_sum id (\<lambda>_. ()) (vss_size g)),
       check_all (vss_check_chain g) (vss_buckets g),
       check_all (vss_check_LWM g) [0..<nat (vss_LWM g)],
       check_all (vss_check_unique g) (vss_buckets g)]"

section \<open>The saved image\<close>

text \<open>The file \<^verbatim>\<open>VSS::save\<close> writes: the header words and one record per used entry.
  Only reads that come up short are modelled as I/O failures.\<close>

record vss_file =
  vss_magic :: int
  vss_entries :: int
  vss_records :: "VSSEntry list"

definition VSS_MAGIC_V1 :: int where
  "VSS_MAGIC_V1 = 0x7218db12"

definition vss_save :: "vss_segment \<Rightarrow> vss_file" where
  "vss_save g = \<lparr>
     vss_magic = VSS_MAGIC_V1,
     vss_entries = vss_currentSize g,
     vss_records = filter (\<lambda>e. vss_lbid e \<noteq> -1) (vss_slots g)\<rparr>"

fun vss_load_entries :: "nat \<Rightarrow> VSSEntry list \<Rightarrow> VSS \<Rightarrow> VSS res option" where
  "vss_load_entries 0 es s = Some (Inr s)"
| "vss_load_entries (Suc n) [] s = Some (Inl (Runtime_error ''VSS::load(): Failed to read entry''))"
| "vss_load_entries (Suc n) (e # es) s = do {
     s1 \<leftarrow> vss_insert (vss_lbid e) (vss_verID e) (vss_vbFlag e) (vss_locked e) True s;
     vss_load_entries n es s1
   }"

definition vss_load :: "vss_file \<Rightarrow> VSS \<Rightarrow> VSS res option" where
  "vss_load f s =
    (if vss_magic f \<noteq> VSS_MAGIC_V1 then
       Some (Inl (Runtime_error ''VSS::load(): Bad magic.  Not a VSS file?''))
     else if vss_entries f < 0 then
       Some (Inl (Runtime_error ''VSS::load(): Bad size.  Not a VSS file?''))
     else vss_load_entries (nat (vss_entries f)) (vss_records f) (vss_growForLoad (vss_entries f) s))"

end
