(* ===== verification/Vss_Invariant.thy ===== *)
theory Vss_Invariant
  imports Vss
begin

text \<open>
  The invariant of the VSS segment and what every update keeps of it. \<open>vss_struct\<close> is the
  shape of the table (array extents, hash chains, low-water mark), \<open>vss_wf\<close> adds that the
  recorded size is the number of used entries, \<open>vss_locks\<close> that the recorded lock count
  is the number of locked entries. \<open>vss_abs\<close> is the abstract table, the multiset of the
  versions it holds; each update is shown to be the corresponding operation on it.
\<close>

section \<open>The invariant and the abstract table\<close>

type_synonym vss_version = "LBID_t \<times> VER_t \<times> bool \<times> bool"

abbreviation vv_lbid :: "vss_version \<Rightarrow> LBID_t" where
  "vv_lbid x \<equiv> fst x"

abbreviation vv_ver :: "vss_version \<Rightarrow> VER_t" where
  "vv_ver x \<equiv> fst (snd x)"

abbreviation vv_vb :: "vss_version \<Rightarrow> bool" where
  "vv_vb x \<equiv> fst (snd (snd x))"

abbreviation vv_locked :: "vss_version \<Rightarrow> bool" where
  "vv_locked x \<equiv> snd (snd (snd x))"

definition vss_payload :: "VSSEntry \<Rightarrow> vss_version" where
  "vss_payload e = (vss_lbid e, vss_verID e, vss_vbFlag e, vss_locked e)"

definition vss_abs :: "vss_segment \<Rightarrow> vss_version multiset" where
  "vss_abs g = mset (map vss_payload (filter vss_used (vss_storage g)))"

definition vss_struct :: "vss_segment \<Rightarrow> bool" where
  "vss_struct g \<longleftrightarrow>
    vss_capacity g = int (length (vss_storage g)) \<and>
    numHashBuckets (vss_header g) = int (length (vss_buckets g)) \<and> vss_buckets g \<noteq> [] \<and>
    hash_wf vss_used vss_next vss_bkt (vss_storage g) (vss_buckets g) \<and>
    0 \<le> vss_LWM g \<and> vss_LWM g \<le> vss_capacity g \<and>
    (\<forall>i < nat (vss_LWM g). vss_used (vss_storage g ! i))"

definition vss_wf :: "vss_segment \<Rightarrow> bool" where
  "vss_wf g \<longleftrightarrow> vss_struct g \<and> vss_currentSize g = int (size (vss_abs g))"

definition vss_locks :: "vss_segment \<Rightarrow> bool" where
  "vss_locks g \<longleftrightarrow>
    vss_lockedCount g = int (size (filter_mset (\<lambda>x. vv_locked x) (vss_abs g)))"

interpretation vss_entry: chained_entry vss_used vss_next vss_bkt vss_set_next vss_kill
  by unfold_locales (simp_all add: vss_used_def vss_set_next_def vss_kill_def vss_bkt_def)

interpretation vss_log: undoable vss_restore vss_undoRecords vss_set_undo
  by unfold_locales (auto simp: vss_restore_def vss_set_undo_def)

lemma vss_payload_set_next [simp]: "vss_payload (vss_set_next n e) = vss_payload e"
  by (simp add: vss_payload_def vss_set_next_def)

lemma vss_set_next_simps [simp]:
  "vss_lbid (vss_set_next n e) = vss_lbid e" "vss_verID (vss_set_next n e) = vss_verID e"
  "vss_vbFlag (vss_set_next n e) = vss_vbFlag e" "vss_locked (vss_set_next n e) = vss_locked e"
  by (simp_all add: vss_set_next_def)

lemma vss_kill_simps [simp]:
  "vss_lbid (vss_kill e) = -1" "vss_verID (vss_kill e) = vss_verID e"
  "vss_vbFlag (vss_kill e) = vss_vbFlag e" "vss_locked (vss_kill e) = vss_locked e"
  by (simp_all add: vss_kill_def)

lemma vss_used_iff: "vss_used e \<longleftrightarrow> vss_lbid e \<noteq> -1"
  by (simp add: vss_used_def)

lemma size_vss_abs: "size (vss_abs g) = length (filter vss_used (vss_storage g))"
  unfolding vss_abs_def size_mset length_map ..

lemma in_vss_abs:
  "(l, v, vb, lk) \<in># vss_abs g \<longleftrightarrow>
    (\<exists>k < length (vss_storage g). vss_used (vss_storage g ! k) \<and>
      vss_payload (vss_storage g ! k) = (l, v, vb, lk))"
  by (auto simp: vss_abs_def in_set_conv_nth intro: rev_image_eqI)

lemma vss_hash_less: "n > 0 \<Longrightarrow> vss_hash l (int n) < n"
  by (simp add: vss_hash_def nat_less_iff)

lemma vss_struct_hash:
  "vss_struct g \<Longrightarrow> vss_hash l (numHashBuckets (vss_header g)) < length (vss_buckets g)"
  by (simp add: vss_struct_def vss_hash_less)

lemma vss_abs_simps [simp]:
  "vss_abs (g\<lparr>vss_header := h\<rparr>) = vss_abs g" "vss_abs (g\<lparr>vss_buckets := hb\<rparr>) = vss_abs g"
  by (simp_all add: vss_abs_def)

lemma vss_abs_update:
  assumes "k < length (vss_storage g)"
  shows "vss_abs (g\<lparr>vss_storage := (vss_storage g)[k := e]\<rparr>) +
      (if vss_used (vss_storage g ! k) then {#vss_payload (vss_storage g ! k)#} else {#}) =
    vss_abs g + (if vss_used e then {#vss_payload e#} else {#})"
  using mset_filter_update [OF assms, of vss_payload vss_used e] by (simp add: vss_abs_def)

section \<open>Insertion\<close>

lemma vss_free_slot:
  assumes "vss_struct g" "size (vss_abs g) < length (vss_storage g)"
  obtains k where "free_from vss_used (vss_storage g) (nat (vss_LWM g)) = Some k"
    "k < length (vss_storage g)" "\<not> vss_used (vss_storage g ! k)"
    "\<And>i. i < k \<Longrightarrow> vss_used (vss_storage g ! i)"
proof (rule free_slot [of "nat (vss_LWM g)" vss_used "vss_storage g"])
  show "vss_used (vss_storage g ! i)" if "i < nat (vss_LWM g)" for i
    using assms(1) that by (simp add: vss_struct_def)
  show "length (filter vss_used (vss_storage g)) < length (vss_storage g)"
    using assms(2) by (simp add: size_vss_abs)
qed (rule that)

lemma vss_insert0_correct:
  assumes g: "vss_struct g" "size (vss_abs g) < length (vss_storage g)" and e: "vss_used e"
  shows "\<exists>g' imgs. vss_insert0 e loading g = Some (g', imgs) \<and> vss_struct g' \<and>
    vss_abs g' = add_mset (vss_payload e) (vss_abs g) \<and>
    vss_header g' = vss_header g\<lparr>LWM := vss_LWM g'\<rparr> \<and>
    length (vss_storage g') = length (vss_storage g) \<and>
    length (vss_buckets g') = length (vss_buckets g)"
proof -
  obtain k where k: "free_from vss_used (vss_storage g) (nat (vss_LWM g)) = Some k"
      "k < length (vss_storage g)" "\<not> vss_used (vss_storage g ! k)"
      "\<And>i. i < k \<Longrightarrow> vss_used (vss_storage g ! i)"
    using vss_free_slot [OF g] by metis
  define b where "b = vss_hash (vss_lbid e) (numHashBuckets (vss_header g))"
  have b: "b < length (vss_buckets g)" using g(1) by (simp add: b_def vss_struct_hash)
  let ?st = "(vss_storage g)[k := vss_set_next (vss_buckets g ! b) e]"
  let ?hb = "(vss_buckets g)[b := int k]"
  let ?g' = "g\<lparr>vss_header := vss_header g\<lparr>LWM := int k + 1\<rparr>, vss_storage := ?st, vss_buckets := ?hb\<rparr>"
  have "hash_wf vss_used vss_next vss_bkt ?st ?hb"
    using g(1) e k b
    by (intro vss_entry.hash_wf_link) (auto simp: vss_struct_def vss_bkt_def b_def)
  moreover have "vss_used (?st ! i)" if "i < Suc k" for i
    using that k(2,4) e by (auto simp: nth_update_if less_Suc_eq)
  ultimately have "vss_struct ?g'"
    using g(1) k(2) by (auto simp: vss_struct_def nat_add_distrib)
  moreover have "vss_abs ?g' = add_mset (vss_payload e) (vss_abs g)"
    using vss_abs_update [OF k(2), of "vss_set_next (vss_buckets g ! b) e"] e k(3)
    by (simp add: vss_abs_def)
  ultimately show ?thesis
    using k(1) b by (simp add: vss_insert0_def b_def [symmetric] Let_def)
qed

lemma vss_insert_seg_correct:
  assumes g: "vss_wf g" "vss_currentSize g < vss_capacity g" and e: "vss_used e"
  shows "\<exists>g' imgs. vss_insert_seg e loading g = Some (g', imgs) \<and> vss_wf g' \<and>
    vss_abs g' = add_mset (vss_payload e) (vss_abs g) \<and>
    (vss_locks g \<longrightarrow> vss_locks g') \<and>
    vss_capacity g' = vss_capacity g \<and> vss_currentSize g' = vss_currentSize g + 1"
proof -
  have "vss_struct g" "size (vss_abs g) < length (vss_storage g)"
    using g by (auto simp: vss_wf_def vss_struct_def)
  from vss_insert0_correct [OF this e, of loading] obtain g1 imgs where
    g1: "vss_insert0 e loading g = Some (g1, imgs)" "vss_struct g1"
      "vss_abs g1 = add_mset (vss_payload e) (vss_abs g)"
      "vss_header g1 = vss_header g\<lparr>LWM := vss_LWM g1\<rparr>"
    by blast
  let ?h = "vss_header g1\<lparr>currentSize := vss_currentSize g1 + 1,
      lockedEntryCount := (if vss_locked e then vss_lockedCount g1 + 1 else vss_lockedCount g1)\<rparr>"
  let ?g' = "g1\<lparr>vss_header := ?h\<rparr>"
  have hdr: "vss_currentSize g1 = vss_currentSize g" "vss_lockedCount g1 = vss_lockedCount g"
      "vss_capacity g1 = vss_capacity g"
    by (subst g1(4), simp)+
  have "vss_struct ?g'" using g1(2) by (simp add: vss_struct_def)
  then have "vss_wf ?g'" using g(1) g1(3) hdr by (simp add: vss_wf_def)
  moreover have "vss_locks g \<longrightarrow> vss_locks ?g'"
    using g1(3) hdr by (auto simp: vss_locks_def vss_payload_def)
  ultimately show ?thesis
    using g1 hdr by (auto simp: vss_insert_seg_def Let_def)
qed

section \<open>Growth\<close>

lemma vss_fresh_segment_struct:
  assumes "0 \<le> cap" "0 < nb"
  shows "vss_struct (vss_fresh_segment cap nb)" "vss_abs (vss_fresh_segment cap nb) = {#}"
proof -
  have "hash_wf vss_used vss_next vss_bkt (vss_storage (vss_fresh_segment cap nb))
      (vss_buckets (vss_fresh_segment cap nb))"
    by (rule hash_wf_empty) (simp_all add: vss_fresh_segment_def vss_used_def)
  with assms show "vss_struct (vss_fresh_segment cap nb)"
    by (auto simp: vss_struct_def vss_fresh_segment_def)
  have "filter vss_used (vss_storage (vss_fresh_segment cap nb)) = []"
    by (simp add: vss_fresh_segment_def vss_used_def)
  then show "vss_abs (vss_fresh_segment cap nb) = {#}"
    by (simp only: vss_abs_def list.map mset.simps)
qed

lemma vss_rehash_correct:
  assumes "vss_struct d" "size (vss_abs d) + length (filter vss_used es) \<le> length (vss_storage d)"
  shows "\<exists>d'. vss_rehash es d = Some d' \<and> vss_struct d' \<and>
    vss_abs d' = vss_abs d + mset (map vss_payload (filter vss_used es)) \<and>
    vss_header d' = vss_header d\<lparr>LWM := vss_LWM d'\<rparr> \<and>
    length (vss_storage d') = length (vss_storage d) \<and>
    length (vss_buckets d') = length (vss_buckets d)"
  using assms
proof (induction es arbitrary: d)
  case (Cons e es)
  show ?case
  proof (cases "vss_used e")
    case True
    with Cons.prems have "size (vss_abs d) < length (vss_storage d)" by simp
    from vss_insert0_correct [OF Cons.prems(1) this True, of True] obtain d1 imgs where
      d1: "vss_insert0 e True d = Some (d1, imgs)" "vss_struct d1"
        "vss_abs d1 = add_mset (vss_payload e) (vss_abs d)"
        "vss_header d1 = vss_header d\<lparr>LWM := vss_LWM d1\<rparr>"
        "length (vss_storage d1) = length (vss_storage d)"
        "length (vss_buckets d1) = length (vss_buckets d)"
      by blast
    from d1 True Cons.prems(2) obtain d' where
      d': "vss_rehash es d1 = Some d'" "vss_struct d'"
        "vss_abs d' = vss_abs d1 + mset (map vss_payload (filter vss_used es))"
        "vss_header d' = vss_header d1\<lparr>LWM := vss_LWM d'\<rparr>"
        "length (vss_storage d') = length (vss_storage d1)"
        "length (vss_buckets d') = length (vss_buckets d1)"
      using Cons.IH [of d1] by auto
    have "vss_header d' = vss_header d\<lparr>LWM := vss_LWM d'\<rparr>"
      using d'(4) d1(4) by (metis VSSShmsegHeader.update_convs(3) VSSShmsegHeader.surjective)
    with d1 d' True show ?thesis by simp
  next
    case False
    with Cons show ?thesis by simp
  qed
qed simp

text \<open>The object around the segment: mapped, and as large as the initial segment.\<close>

definition vss_obj_wf :: "VSS \<Rightarrow> bool" where
  "vss_obj_wf s \<longleftrightarrow> vss_attached s \<and> VSS_INITIAL_SIZE \<le> vss_allocdSize s \<and> vss_wf (vss_shm s)"

lemma vss_copyVSS_correct:
  assumes g: "vss_wf g" "vss_currentSize g = vss_capacity g"
    and cap: "vss_capacity g \<le> cap" "0 < nb"
  shows "\<exists>d. vss_copyVSS g cap nb = Some d \<and> vss_wf d \<and> vss_abs d = vss_abs g \<and>
    vss_lockedCount d = vss_lockedCount g \<and> vss_capacity d = cap \<and>
    numHashBuckets (vss_header d) = nb"
proof -
  let ?f = "vss_fresh_segment cap nb"
  let ?d = "?f\<lparr>vss_header := vss_header ?f\<lparr>currentSize := vss_currentSize g,
                                               lockedEntryCount := vss_lockedCount g\<rparr>\<rparr>"
  have full: "length (filter vss_used (vss_storage g)) = length (vss_storage g)"
    using g by (simp add: vss_wf_def vss_struct_def size_vss_abs)
  have take: "take (nat (vss_currentSize g)) (vss_storage g) = vss_storage g"
    using g by (simp add: vss_wf_def vss_struct_def)
  have "0 \<le> cap" using g cap by (simp add: vss_wf_def vss_struct_def)
  note f = vss_fresh_segment_struct [OF this cap(2)]
  have fresh: "vss_struct ?d" "vss_abs ?d = {#}" "length (vss_storage ?d) = nat cap"
    using f by (simp_all add: vss_struct_def) (simp add: vss_fresh_segment_def)
  moreover have "size (vss_abs ?d) + length (filter vss_used (vss_storage g)) \<le> length (vss_storage ?d)"
    using fresh full cap g by (auto simp: vss_wf_def vss_struct_def)
  ultimately obtain d where d: "vss_rehash (vss_storage g) ?d = Some d" "vss_struct d"
      "vss_abs d = vss_abs g" "vss_header d = vss_header ?d\<lparr>LWM := vss_LWM d\<rparr>"
    using vss_rehash_correct [of ?d "vss_storage g"] by (auto simp: vss_abs_def)
  have hdr: "vss_currentSize d = vss_currentSize g" "vss_lockedCount d = vss_lockedCount g"
      "vss_capacity d = cap" "numHashBuckets (vss_header d) = nb"
    by (subst d(4), simp add: vss_fresh_segment_def)+
  with d g(1) have "vss_wf d" by (simp add: vss_wf_def)
  with d hdr show ?thesis by (simp add: vss_copyVSS_def take Let_def)
qed

lemma vss_growVSS_correct:
  assumes s: "vss_obj_wf s" "vss_currentSize (vss_shm s) = vss_capacity (vss_shm s)"
  shows "\<exists>s'. vss_growVSS s = Some s' \<and> vss_obj_wf s' \<and> vss_abs (vss_shm s') = vss_abs (vss_shm s) \<and>
    (vss_locks (vss_shm s) \<longrightarrow> vss_locks (vss_shm s')) \<and>
    vss_capacity (vss_shm s') = vss_capacity (vss_shm s) + VSSSTORAGE_INCREMENT_COUNT \<and>
    vss_currentSize (vss_shm s') = vss_currentSize (vss_shm s) \<and>
    vss_mapping s' = vss_mapping s + 1 \<and> vss_undoRecords s' = vss_undoRecords s"
proof -
  let ?g = "vss_shm s"
  have "0 < numHashBuckets (vss_header ?g) + VSSTABLE_INCREMENT_COUNT"
    using s by (simp add: vss_obj_wf_def vss_wf_def vss_struct_def VSSTABLE_INCREMENT_COUNT_def)
  then obtain d where d: "vss_copyVSS ?g (vss_capacity ?g + VSSSTORAGE_INCREMENT_COUNT)
        (numHashBuckets (vss_header ?g) + VSSTABLE_INCREMENT_COUNT) = Some d"
      "vss_wf d" "vss_abs d = vss_abs ?g" "vss_lockedCount d = vss_lockedCount ?g"
      "vss_capacity d = vss_capacity ?g + VSSSTORAGE_INCREMENT_COUNT"
    using vss_copyVSS_correct [of ?g "vss_capacity ?g + VSSSTORAGE_INCREMENT_COUNT"
        "numHashBuckets (vss_header ?g) + VSSTABLE_INCREMENT_COUNT"] s
    by (auto simp: vss_obj_wf_def VSSSTORAGE_INCREMENT_COUNT_def)
  have sz: "vss_allocdSize s \<noteq> 0" "vss_allocdSize s + VSS_INCREMENT \<noteq> VSS_INITIAL_SIZE"
      "VSS_INITIAL_SIZE \<le> vss_allocdSize s + VSS_INCREMENT"
    using s(1) by (simp_all add: vss_obj_wf_def VSS_INITIAL_SIZE_def VSS_INCREMENT_def
        sizeof_VSSShmsegHeader_def sizeof_VSSEntry_def VSSSTORAGE_INITIAL_COUNT_def
        VSSTABLE_INITIAL_COUNT_def VSSTABLE_INCREMENT_COUNT_def VSSSTORAGE_INCREMENT_COUNT_def)
  show ?thesis
    using s d sz by (auto simp: vss_growVSS_def vss_obj_wf_def vss_locks_def vss_wf_def Let_def)
qed

lemma vss_on_Some:
  assumes "f (vss_shm s) = Some (g, imgs)"
  shows "vss_on f s = Some (s\<lparr>vss_shm := g,
    vss_undoRecords := vss_undoRecords s @ map (Pair (vss_mapping s)) imgs\<rparr>)"
  using assms by (simp add: vss_on_def)

lemma vss_insert_correct:
  assumes s: "vss_obj_wf s" and l: "l \<noteq> -1"
  shows "\<exists>s'. vss_insert l v vb lk loading s = Some s' \<and> vss_obj_wf s' \<and>
    vss_abs (vss_shm s') = add_mset (l, v, vb, lk) (vss_abs (vss_shm s)) \<and>
    (vss_locks (vss_shm s) \<longrightarrow> vss_locks (vss_shm s'))"
proof -
  let ?e = "\<lparr>vss_lbid = l, vss_verID = v, vss_vbFlag = vb, vss_locked = lk, vss_next = -1\<rparr>"
  let ?full = "vss_currentSize (vss_shm s) = vss_capacity (vss_shm s)"
  obtain t where t: "(if ?full then vss_growVSS s else Some s) = Some t" "vss_obj_wf t"
      "vss_abs (vss_shm t) = vss_abs (vss_shm s)"
      "vss_locks (vss_shm s) \<longrightarrow> vss_locks (vss_shm t)"
      "vss_currentSize (vss_shm t) < vss_capacity (vss_shm t)"
  proof (cases ?full)
    case True
    with vss_growVSS_correct [OF s] that show thesis
      by (auto simp: VSSSTORAGE_INCREMENT_COUNT_def)
  next
    case False
    have "vss_currentSize (vss_shm s) \<le> vss_capacity (vss_shm s)"
      using s by (auto simp: vss_obj_wf_def vss_wf_def vss_struct_def size_vss_abs)
    with False s that [of s] show thesis by simp
  qed
  have "vss_used ?e" using l by (simp add: vss_used_def)
  with vss_insert_seg_correct [of "vss_shm t" ?e loading] t obtain g imgs where
    g: "vss_insert_seg ?e loading (vss_shm t) = Some (g, imgs)" "vss_wf g"
      "vss_abs g = add_mset (l, v, vb, lk) (vss_abs (vss_shm t))"
      "vss_locks (vss_shm t) \<longrightarrow> vss_locks g"
    by (auto simp: vss_obj_wf_def vss_payload_def)
  with t show ?thesis
    by (auto simp: vss_insert_def Let_def vss_on_Some vss_obj_wf_def)
qed

section \<open>Searching a bucket\<close>

definition vss_bucket :: "vss_segment \<Rightarrow> LBID_t \<Rightarrow> nat \<Rightarrow> nat list \<Rightarrow> bool" where
  "vss_bucket g l b ks \<longleftrightarrow>
    vss_hash l (numHashBuckets (vss_header g)) = b \<and> b < length (vss_buckets g) \<and>
    vss_head g l = Some (vss_buckets g ! b) \<and>
    is_chain vss_next (vss_storage g) (vss_buckets g ! b) ks \<and> distinct ks \<and>
    (\<forall>k < length (vss_storage g). vss_lbid (vss_storage g ! k) = l \<longrightarrow> k \<in> set ks) \<and>
    (\<forall>k \<in> set ks. k < length (vss_storage g) \<and> vss_used (vss_storage g ! k))"

lemma vss_bucket_exists:
  assumes "vss_struct g" "l \<noteq> -1"
  obtains b ks where "vss_bucket g l b ks"
proof -
  let ?b = "vss_hash l (numHashBuckets (vss_header g))"
  have b: "?b < length (vss_buckets g)" using vss_struct_hash [OF assms(1)] .
  obtain ks where ks: "is_chain vss_next (vss_storage g) (vss_buckets g ! ?b) ks" "distinct ks"
      "set ks = bucket_set vss_used vss_bkt (vss_storage g) (vss_buckets g) ?b"
    using assms(1) b by (auto simp: vss_struct_def elim: hash_wfE)
  moreover have "k \<in> set ks" if "k < length (vss_storage g)" "vss_lbid (vss_storage g ! k) = l" for k
    using that assms ks(3)
    by (auto simp: bucket_set_def vss_used_def vss_bkt_def vss_struct_def)
  ultimately have "vss_bucket g l ?b ks"
    using b by (auto simp: vss_bucket_def vss_head_def bucket_set_def)
  then show thesis by (rule that)
qed

text \<open>Every query is the loop over the bucket's chain.\<close>

lemma vss_bucket_scan:
  "vss_bucket g l b ks \<Longrightarrow>
    scan vss_next (vss_storage g) body a (vss_buckets g ! b) = Some (scan_list (vss_storage g) body a ks)"
  by (simp add: vss_bucket_def scan_chain)

lemma vss_bucket_head: "vss_bucket g l b ks \<Longrightarrow> vss_head g l = Some (vss_buckets g ! b)"
  by (simp add: vss_bucket_def)

lemma vss_getIndex_cases:
  assumes "vss_struct g" "l \<noteq> -1"
  obtains (absent) prev where
      "vss_getIndex l v g = Some (-1, prev, vss_hash l (numHashBuckets (vss_header g)))"
      "\<And>vb lk. (l, v, vb, lk) \<notin># vss_abs g"
    | (present) b xs k ys where
      "vss_getIndex l v g = Some (int k, prev_of xs, b)"
      "b = vss_hash l (numHashBuckets (vss_header g))" "b < length (vss_buckets g)"
      "is_chain vss_next (vss_storage g) (vss_buckets g ! b) (xs @ k # ys)"
      "k < length (vss_storage g)" "vss_lbid (vss_storage g ! k) = l" "vss_verID (vss_storage g ! k) = v"
proof -
  let ?st = "vss_storage g"
  let ?M = "\<lambda>e. vss_lbid e = l \<and> vss_verID e = v"
  obtain b ks where ch: "vss_bucket g l b ks"
    using assms by (rule vss_bucket_exists)
  note b = ch [unfolded vss_bucket_def]
  note sc = vss_bucket_scan [OF ch]
  from scan_list_prev [of ks ?M ?st "[]"] show thesis
  proof (elim disjE exE conjE)
    assume none: "\<forall>k \<in> set ks. \<not> ?M (?st ! k)"
      and s: "scan_list ?st (\<lambda>prev k e. if ?M e then Return (int k, prev) else Continue (int k))
        (prev_of []) ks = Continue (prev_of ([] @ ks))"
    have "(l, v, vb, lk) \<notin># vss_abs g" for vb lk
      using none b by (auto simp: in_vss_abs vss_payload_def)
    with s b show thesis
      by (intro absent [of "prev_of ks"]) (simp_all add: vss_getIndex_def sc Let_def)
  next
    fix xs k ys
    assume "ks = xs @ k # ys" "vss_lbid (?st ! k) = l" "vss_verID (?st ! k) = v"
      "scan_list ?st (\<lambda>prev k e. if ?M e then Return (int k, prev) else Continue (int k))
        (prev_of []) ks = Return (int k, prev_of ([] @ xs))"
    with b show thesis
      by (intro present [of k xs b ys]) (simp_all add: vss_getIndex_def sc Let_def)
  qed
qed

end
