(* ===== verification/Vss_Undo.thy ===== *)
theory Vss_Undo
  imports Vss_Update
begin

text \<open>
  The undo records of the VSS operations. An operation on the segment is shown to be reverted
  by the images it records; \<open>vss_on\<close> lifts that to the object and its log, and the locale
  \<open>undoable\<close> to sequences of operations. These facts need no invariant: the records
  revert the operation on any segment.
\<close>

section \<open>Images\<close>

definition vss_undo_images :: "vss_image list \<Rightarrow> vss_segment \<Rightarrow> vss_segment" where
  "vss_undo_images imgs g = foldr vss_restore_image imgs g"

lemma vss_undo_images_simps [simp]:
  "vss_undo_images [] g = g"
  "vss_undo_images (m # ms) g = vss_restore_image m (vss_undo_images ms g)"
  "vss_undo_images (ms @ ms') g = vss_undo_images ms (vss_undo_images ms' g)"
  by (simp_all add: vss_undo_images_def)

lemma vss_image_size_ok: "vss_image_size m \<le> ID_MAXSIZE"
  by (cases m) (simp_all add: ID_MAXSIZE_def sizeof_VSSEntry_def sizeof_VSSShmsegHeader_def)

text \<open>Images of array cells, as opposed to header images.\<close>

primrec vss_cell_image :: "vss_image \<Rightarrow> bool" where
  "vss_cell_image (VssHeaderImage h) = False"
| "vss_cell_image (VssSizeImage n) = False"
| "vss_cell_image (VssEntryImage i e) = True"
| "vss_cell_image (VssBucketImage b n) = True"

lemma vss_restore_cell_header:
  "vss_cell_image m \<Longrightarrow> vss_restore_image m (g\<lparr>vss_header := h\<rparr>) = (vss_restore_image m g)\<lparr>vss_header := h\<rparr>"
  by (cases m) simp_all

lemma vss_undo_cells_header:
  "list_all vss_cell_image ms \<Longrightarrow>
    vss_undo_images ms (g\<lparr>vss_header := h\<rparr>) = (vss_undo_images ms g)\<lparr>vss_header := h\<rparr>"
  by (induction ms) (auto simp: vss_restore_cell_header)

section \<open>Each operation is reverted by its images\<close>

lemma vss_insert_seg_undo:
  "vss_insert_seg e False g = Some (g', imgs) \<Longrightarrow> vss_undo_images imgs g' = g"
  by (auto simp: vss_insert_seg_def vss_insert0_def Let_def Option.bind_eq_Some_conv
      split: if_splits)

lemma vss_unlink_undo:
  assumes "vss_unlink b p k g = (g', imgs)"
  shows "vss_undo_images imgs g' = g\<lparr>vss_header := vss_header g'\<rparr>" "list_all vss_cell_image imgs"
  using assms by (auto simp: vss_unlink_def unlinked_def Let_def split: if_splits)

lemma vss_unlink_loop_undo:
  assumes "vss_unlink_loop l b p i g = Some r"
  shows "vss_undo_images (fst (snd r)) (fst r) = g\<lparr>vss_header := vss_header (fst r)\<rparr> \<and>
    list_all vss_cell_image (fst (snd r))"
proof (rule vss_unlink_loop.raw_induct [OF _ assms, where P = "\<lambda>l b p i g r.
    vss_undo_images (fst (snd r)) (fst r) = g\<lparr>vss_header := vss_header (fst r)\<rparr> \<and>
    list_all vss_cell_image (fst (snd r))"], goal_cases)
  case (1 loop l b p i g r)
  let ?k = "nat i"
  show ?case
  proof (cases "i = -1")
    case True
    with 1(2) show ?thesis by auto
  next
    case False
    with 1(2) have range: "0 \<le> i \<and> i < int (length (vss_storage g))" by (auto split: if_splits)
    obtain g1 imgs1 where un: "vss_unlink b p ?k g = (g1, imgs1)" by fastforce
    show ?thesis
    proof (cases "vss_lbid (vss_storage g ! ?k) = l")
      case True
      then obtain r2 where r2: "loop l b p (vss_next (vss_storage g1 ! ?k)) g1 = Some r2"
          "fst r = fst r2" "fst (snd r) = imgs1 @ fst (snd r2)"
        using 1(2) False range un by (auto simp: Let_def Option.bind_eq_Some_conv)
      from vss_unlink_undo [OF un] 1(1) [OF r2(1)] r2(2,3) show ?thesis
        by (simp add: vss_undo_cells_header)
    next
      case neq: False
      then have "loop l b i (vss_next (vss_storage g ! ?k)) g = Some r"
        using 1(2) False range by (simp add: Let_def)
      then show ?thesis by (rule 1(1))
    qed
  qed
qed

lemma vss_removeEntry_undo:
  assumes r: "vss_removeEntry l v g = Some (g', imgs, fl)"
  shows "vss_undo_images imgs g' = g"
proof -
  obtain i p b where gi: "vss_getIndex l v g = Some (i, p, b)"
    using r by (auto simp: vss_removeEntry_def Option.bind_eq_Some_conv)
  show ?thesis
  proof (cases "i = -1")
    case True
    with r gi show ?thesis by (simp add: vss_removeEntry_def)
  next
    case False
    obtain g1 imgs1 where un: "vss_unlink b p (nat i) g = (g1, imgs1)" by fastforce
    note un_undo = vss_unlink_undo [OF un]
    obtain c where c: "scan vss_next (vss_storage g1)
        (\<lambda>_ k e. if vss_lbid e = l \<and> (vss_vbFlag e \<or> vss_locked e) then Return () else Continue ())
        () (vss_buckets g1 ! b) = Some c"
      using r gi False un by (auto simp: vss_removeEntry_def Option.bind_eq_Some_conv)
    show ?thesis
    proof (cases c)
      case (Return u)
      with r gi False un c un_undo show ?thesis
        by (auto simp: vss_removeEntry_def vss_undo_cells_header)
    next
      case (Continue u)
      then obtain imgs2 rm where
        loop: "vss_unlink_loop l b (-1) (vss_buckets g1 ! b) g1 = Some (g', imgs2, rm)"
        and imgs: "imgs = imgs1 @ [VssHeaderImage (vss_header g)] @ imgs2"
        using r gi False un c by (auto simp: vss_removeEntry_def Option.bind_eq_Some_conv)
      from vss_unlink_loop_undo [OF loop] un_undo show ?thesis
        by (simp add: imgs vss_undo_cells_header)
    qed
  qed
qed

lemma vss_setVBFlag_undo:
  assumes "vss_setVBFlag l v vb g = Some (Inr (g', imgs))"
  shows "vss_undo_images imgs g' = g"
  using assms by (auto simp: vss_setVBFlag_def Let_def Option.bind_eq_Some_conv split: if_splits)

text \<open>Commit decrements \<^verbatim>\<open>lockedEntryCount\<close> without recording the header: the entries are
  reverted, the counter is not.\<close>

lemma vss_commit_undo:
  assumes "vss_commit txnID g = Some (g', imgs)"
  shows "vss_undo_images imgs g' = g\<lparr>vss_header := vss_header g'\<rparr>"
proof -
  have "vss_undo_images imgs g' = g\<lparr>vss_header := vss_header g'\<rparr> \<and> list_all vss_cell_image imgs"
    if "for_each (vss_commit_entry txnID) is g = Some (g', imgs)" for "is" g g' imgs
    using that
  proof (induction "is" arbitrary: g imgs)
    case (Cons i "is")
    then obtain g1 imgs1 imgs2 where
      1: "vss_commit_entry txnID i g = Some (g1, imgs1)" and
      2: "for_each (vss_commit_entry txnID) is g1 = Some (g', imgs2)" and imgs: "imgs = imgs1 @ imgs2"
      by (auto simp: Option.bind_eq_Some_conv)
    have "vss_undo_images imgs1 g1 = g\<lparr>vss_header := vss_header g1\<rparr>" "list_all vss_cell_image imgs1"
      using 1 by (auto simp: vss_commit_entry_def Let_def split: if_splits)
    with Cons.IH [OF 2] imgs show ?case by (simp add: vss_undo_cells_header)
  qed simp
  from this [OF assms [unfolded vss_commit_def]] show ?thesis ..
qed

lemma vss_remove_block_undo:
  assumes "vss_remove_block l (g, rm) = Some ((g', rm'), imgs)"
  shows "vss_undo_images imgs g' = g\<lparr>vss_header := vss_header g'\<rparr>" "list_all vss_cell_image imgs"
proof -
  obtain b i es where "vss_unlink_loop l b (-1) i g = Some (g', imgs, es)"
    using assms by (auto simp: vss_remove_block_def Option.bind_eq_Some_conv)
  from vss_unlink_loop_undo [OF this]
  show "vss_undo_images imgs g' = g\<lparr>vss_header := vss_header g'\<rparr>" "list_all vss_cell_image imgs"
    by simp_all
qed

lemma vss_removeEntriesFromDB_undo:
  assumes "vss_removeEntriesFromDB r g = Some (g', imgs, rm)"
  shows "vss_undo_images imgs g' = g"
proof -
  have "vss_undo_images imgs g' = g\<lparr>vss_header := vss_header g'\<rparr> \<and> list_all vss_cell_image imgs"
    if "for_each vss_remove_block ls (g, rm) = Some ((g', rm'), imgs)" for ls g rm g' rm' imgs
    using that
  proof (induction ls arbitrary: g rm imgs)
    case (Cons l ls)
    then obtain g1 rm1 imgs1 imgs2 where
      1: "vss_remove_block l (g, rm) = Some ((g1, rm1), imgs1)" and
      2: "for_each vss_remove_block ls (g1, rm1) = Some ((g', rm'), imgs2)" and
      imgs: "imgs = imgs1 @ imgs2"
      by (auto simp: Option.bind_eq_Some_conv)
    from vss_remove_block_undo [OF 1] Cons.IH [OF 2] imgs show ?case
      by (simp add: vss_undo_cells_header)
  qed simp
  note undo = this
  obtain imgs2 where "for_each vss_remove_block (range_lbids r) (g, []) = Some ((g', rm), imgs2)"
      and imgs: "imgs = VssHeaderImage (vss_header g) # imgs2"
    using assms by (auto simp: vss_removeEntriesFromDB_def Option.bind_eq_Some_conv)
  from undo [OF this(1)] show ?thesis unfolding imgs by simp
qed

section \<open>The object and its log\<close>

lemma vss_undo_all_images:
  "undo_all vss_restore (map (Pair (vss_mapping s)) imgs) s =
    Some (s\<lparr>vss_shm := vss_undo_images imgs (vss_shm s)\<rparr>)"
  by (induction imgs) (simp_all add: vss_restore_def)

lemma vss_on_journalled:
  assumes "vss_on f s = Some s'"
    and "\<And>g imgs. f (vss_shm s) = Some (g, imgs) \<Longrightarrow> vss_undo_images imgs g = vss_shm s"
  shows "journalled vss_restore vss_undoRecords vss_set_undo s s'"
proof -
  obtain g imgs where f: "f (vss_shm s) = Some (g, imgs)"
    and s': "s' = s\<lparr>vss_shm := g,
      vss_undoRecords := vss_undoRecords s @ map (Pair (vss_mapping s)) imgs\<rparr>"
    using assms(1) by (auto simp: vss_on_def Option.bind_eq_Some_conv)
  have "undo_all vss_restore (map (Pair (vss_mapping s)) imgs) (vss_set_undo [] s') = Some (vss_set_undo [] s)"
    using vss_undo_all_images [of "vss_set_undo [] s'" imgs] assms(2) [OF f]
    by (simp add: s' vss_set_undo_def)
  then show ?thesis unfolding journalled_def by (intro exI conjI) (simp_all add: s')
qed

text \<open>The updates of the object, as its callers use them.\<close>

definition vss_removeEntry_obj :: "LBID_t \<Rightarrow> VER_t \<Rightarrow> VSS \<Rightarrow> VSS option" where
  "vss_removeEntry_obj l v = vss_on (\<lambda>g. do { (g', imgs, _) \<leftarrow> vss_removeEntry l v g; Some (g', imgs) })"

definition vss_setVBFlag_obj :: "LBID_t \<Rightarrow> VER_t \<Rightarrow> bool \<Rightarrow> VSS \<Rightarrow> VSS res option" where
  "vss_setVBFlag_obj l v vb s = do {
     r \<leftarrow> vss_setVBFlag l v vb (vss_shm s);
     (case r of Inl err \<Rightarrow> Some (Inl err)
      | Inr gi \<Rightarrow> map_option Inr (vss_on (\<lambda>_. Some gi) s))
   }"

definition vss_removeEntriesFromDB_obj :: "LBIDRange \<Rightarrow> VSS \<Rightarrow> VSS option" where
  "vss_removeEntriesFromDB_obj r =
    vss_on (\<lambda>g. do { (g', imgs, _) \<leftarrow> vss_removeEntriesFromDB r g; Some (g', imgs) })"

definition vss_commit_obj :: "VER_t \<Rightarrow> VSS \<Rightarrow> VSS option" where
  "vss_commit_obj txnID = vss_on (vss_commit txnID)"

text \<open>One update within a transaction: any of them but commit, with room in the segment.\<close>

inductive vss_step :: "VSS \<Rightarrow> VSS \<Rightarrow> bool" where
  insert: "vss_currentSize (vss_shm s) \<noteq> vss_capacity (vss_shm s) \<Longrightarrow>
    vss_insert l v vb lk False s = Some s' \<Longrightarrow> vss_step s s'"
| remove: "vss_removeEntry_obj l v s = Some s' \<Longrightarrow> vss_step s s'"
| setVBFlag: "vss_setVBFlag_obj l v vb s = Some (Inr s') \<Longrightarrow> vss_step s s'"
| removeRange: "vss_removeEntriesFromDB_obj r s = Some s' \<Longrightarrow> vss_step s s'"

lemma vss_step_journalled:
  "vss_step s s' \<Longrightarrow> journalled vss_restore vss_undoRecords vss_set_undo s s'"
proof (induction rule: vss_step.induct)
  case (insert s l v vb lk s')
  then show ?case
    by (auto simp: vss_insert_def intro!: vss_on_journalled vss_insert_seg_undo)
next
  case (remove l v s s')
  then show ?case unfolding vss_removeEntry_obj_def
    by (rule vss_on_journalled) (auto simp: Option.bind_eq_Some_conv vss_removeEntry_undo)
next
  case (setVBFlag l v vb s s')
  then obtain g imgs where r: "vss_setVBFlag l v vb (vss_shm s) = Some (Inr (g, imgs))"
      "vss_on (\<lambda>_. Some (g, imgs)) s = Some s'"
    by (cases "vss_setVBFlag l v vb (vss_shm s)")
      (auto simp: vss_setVBFlag_obj_def split: sum.split_asm)
  from r(2) show ?case
    by (rule vss_on_journalled) (use vss_setVBFlag_undo [OF r(1)] in simp)
next
  case (removeRange r s s')
  then show ?case unfolding vss_removeEntriesFromDB_obj_def
    by (rule vss_on_journalled) (auto simp: Option.bind_eq_Some_conv vss_removeEntriesFromDB_undo)
qed

lemma vss_steps_undo:
  assumes "vss_step\<^sup>*\<^sup>* s s'"
  shows "vss_undoChanges s' = vss_undoChanges s"
  unfolding vss_undoChanges_def
  using vss_log.journalled_rtranclp [OF assms vss_step_journalled] by (rule vss_log.journalled_undo)

text \<open>A record made before the segment was replaced points into memory that is gone.\<close>

lemma vss_restore_stale: "fst r \<noteq> vss_mapping s \<Longrightarrow> vss_restore r s = None"
  by (simp add: vss_restore_def)

lemma vss_undo_all_stale:
  assumes "\<exists>r \<in> set rs. fst r \<noteq> vss_mapping s"
  shows "undo_all vss_restore rs s = None"
proof -
  have same: "vss_mapping t = vss_mapping s" if "undo_all vss_restore rs s = Some t" for rs t
    using that by (induction rs arbitrary: t) (auto simp: vss_restore_def Option.bind_eq_Some_conv split: if_splits)
  from assms show ?thesis
  proof (induction rs)
    case (Cons r rs)
    show ?case
    proof (cases "undo_all vss_restore rs s")
      case (Some t)
      with Cons same [OF Some] show ?thesis by (auto simp: vss_restore_stale)
    qed simp
  qed simp
qed

end
