(* ===== verification/Vss_Query.thy ===== *)
theory Vss_Query
  imports Vss_Update
begin

text \<open>
  What the queries of the VSS return, in terms of the abstract table. Every query walks the
  chain of one bucket; on a well-formed segment the walk ends and has seen exactly the
  versions of the block. \<open>vss_visible\<close> is the set of versions a query may use: those of
  the block that belong to no other active transaction (and are in the version buffer when
  only such versions are asked for).
\<close>

section \<open>Lookup\<close>

definition vss_visible ::
  "LBID_t \<Rightarrow> QueryContext_vss \<Rightarrow> VER_t \<Rightarrow> bool \<Rightarrow> vss_version multiset \<Rightarrow> vss_version set" where
  "vss_visible l q txnID vbOnly M =
    {x \<in> set_mset M. vv_lbid x = l \<and> (vbOnly \<longrightarrow> vv_vb x) \<and> (txnID = vv_ver x \<or> vv_ver x \<notin> txns q)}"

text \<open>The documented result: the highest visible version not above the query's SCN.\<close>

definition vss_lookup_spec :: "QueryContext_vss \<Rightarrow> vss_version set \<Rightarrow> int \<times> VER_t \<times> bool \<Rightarrow> bool" where
  "vss_lookup_spec q V out \<longleftrightarrow>
    (if \<exists>x \<in> V. vv_ver x \<le> currentScn q then
       \<exists>x \<in> V. out = (0, vv_ver x, vv_vb x) \<and> vv_ver x \<le> currentScn q \<and>
         (\<forall>y \<in> V. vv_ver y \<le> currentScn q \<longrightarrow> vv_ver y \<le> vv_ver x)
     else out = (if V = {} then -1 else ERR_SNAPSHOT_TOO_OLD, 0, False))"

definition vss_lookup_inv ::
  "QueryContext_vss \<Rightarrow> vss_version set \<Rightarrow> int \<times> int \<times> VSSEntry option \<Rightarrow> bool" where
  "vss_lookup_inv q V a \<longleftrightarrow>
    (case a of (mx, mn, me) \<Rightarrow>
      (\<forall>x \<in> V. vv_ver x \<noteq> currentScn q) \<and>
      (case me of
         None \<Rightarrow> mx = -1 \<and> (\<forall>x \<in> V. currentScn q < vv_ver x)
       | Some e \<Rightarrow> vss_payload e \<in> V \<and> mx = vss_verID e \<and> vss_verID e < currentScn q \<and>
           (\<forall>x \<in> V. vv_ver x < currentScn q \<longrightarrow> vv_ver x \<le> mx)) \<and>
      (if V = {} then mn = -1 else (\<exists>x \<in> V. mn = vv_ver x) \<and> (\<forall>x \<in> V. mn \<le> vv_ver x)))"

lemma vss_lookup_step:
  assumes inv: "vss_lookup_inv q V a" and ver: "0 \<le> vss_verID e" "\<forall>x \<in> V. 0 \<le> vv_ver x"
    and V': "V' = (if vss_lbid e = l \<and> (vbOnly \<longrightarrow> vss_vbFlag e) \<and>
        (txnID = vss_verID e \<or> vss_verID e \<notin> txns q) then insert (vss_payload e) V else V)"
  shows "case vss_lookup_body l q txnID vbOnly a k e of
      Continue a' \<Rightarrow> vss_lookup_inv q V' a'
    | Return out \<Rightarrow> vss_payload e \<in> V' \<and> out = (0, vss_verID e, vss_vbFlag e) \<and> vss_verID e = currentScn q"
proof -
  obtain mx mn me where a: "a = (mx, mn, me)" by (cases a)
  let ?vis = "vss_lbid e = l \<and> (vbOnly \<longrightarrow> vss_vbFlag e) \<and> (txnID = vss_verID e \<or> vss_verID e \<notin> txns q)"
  have pay: "vv_ver (vss_payload e) = vss_verID e" by (simp add: vss_payload_def)
  consider "\<not> ?vis" | "?vis" "vss_verID e = currentScn q" | "?vis" "vss_verID e \<noteq> currentScn q" by blast
  then show ?thesis
  proof cases
    case 1
    then have "vss_lookup_body l q txnID vbOnly a k e = Continue a" "V' = V"
      by (auto simp: vss_lookup_body_def a V')
    with inv show ?thesis by simp
  next
    case 2
    then have "vss_lookup_body l q txnID vbOnly a k e = Return (0, vss_verID e, vss_vbFlag e)"
        "vss_payload e \<in> V'"
      by (auto simp: vss_lookup_body_def a V')
    with 2 show ?thesis by simp
  next
    case 3
    then have V'_eq: "V' = insert (vss_payload e) V" by (simp add: V')
    define mn' where "mn' = (if mn > vss_verID e \<or> mn = -1 then vss_verID e else mn)"
    have body: "vss_lookup_body l q txnID vbOnly a k e = Continue
        (if currentScn q > vss_verID e \<and> mx < vss_verID e then (vss_verID e, mn', Some e) else (mx, mn', me))"
      using 3 by (auto simp: vss_lookup_body_def a mn'_def Let_def)
    have mn: "(\<exists>x \<in> V'. mn' = vv_ver x) \<and> (\<forall>x \<in> V'. mn' \<le> vv_ver x)"
    proof (cases "V = {}")
      case True
      with inv show ?thesis by (simp add: V'_eq vss_lookup_inv_def a mn'_def pay)
    next
      case False
      with inv ver(2) have "\<exists>x \<in> V. mn = vv_ver x" "\<forall>x \<in> V. mn \<le> vv_ver x" "0 \<le> mn"
        by (auto simp: vss_lookup_inv_def a)
      then show ?thesis by (auto simp: V'_eq mn'_def pay)
    qed
    have ne: "\<forall>x \<in> V'. vv_ver x \<noteq> currentScn q"
      using inv 3(2) by (auto simp: vss_lookup_inv_def a V'_eq pay)
    show ?thesis
    proof (cases "currentScn q > vss_verID e \<and> mx < vss_verID e")
      case True
      have "\<forall>x \<in> V. vv_ver x < currentScn q \<longrightarrow> vv_ver x \<le> mx"
        using inv by (auto simp: vss_lookup_inv_def a split: option.splits)
      with True mn ne show ?thesis
        by (auto simp: body vss_lookup_inv_def V'_eq pay)
    next
      case False
      have "case me of
          None \<Rightarrow> mx = -1 \<and> (\<forall>x \<in> V'. currentScn q < vv_ver x)
        | Some e \<Rightarrow> vss_payload e \<in> V' \<and> mx = vss_verID e \<and> vss_verID e < currentScn q \<and>
            (\<forall>x \<in> V'. vv_ver x < currentScn q \<longrightarrow> vv_ver x \<le> mx)"
        using inv False 3(2) ver(1) by (auto simp: vss_lookup_inv_def a V'_eq pay split: option.splits)
      moreover have "V' \<noteq> {}" by (simp add: V'_eq)
      moreover have "vss_lookup_body l q txnID vbOnly a k e = Continue (mx, mn', me)"
        using body False by simp
      ultimately show ?thesis
        using mn ne by (simp add: vss_lookup_inv_def)
    qed
  qed
qed

lemma vss_lookup_finish:
  assumes inv: "vss_lookup_inv q V (mx, mn, me)" and scn: "0 \<le> currentScn q"
  shows "vss_lookup_spec q V (case me of
      Some e \<Rightarrow> (0, mx, vss_vbFlag e)
    | None \<Rightarrow> if mn > currentScn q then (ERR_SNAPSHOT_TOO_OLD, 0, False) else (-1, 0, False))"
proof (cases me)
  case None
  with inv have above: "\<forall>x \<in> V. currentScn q < vv_ver x"
    and mn: "if V = {} then mn = -1 else \<exists>x \<in> V. mn = vv_ver x"
    by (auto simp: vss_lookup_inv_def split: if_splits)
  have no: "\<not> (\<exists>x \<in> V. vv_ver x \<le> currentScn q)" using above by auto
  have "mn > currentScn q \<longleftrightarrow> V \<noteq> {}" using above mn scn by (auto split: if_splits)
  with no None show ?thesis by (simp add: vss_lookup_spec_def)
next
  case (Some e)
  let ?x = "vss_payload e"
  from inv Some have x: "?x \<in> V" "mx = vv_ver ?x" "vv_ver ?x < currentScn q"
      "\<forall>y \<in> V. vv_ver y < currentScn q \<longrightarrow> vv_ver y \<le> mx" "\<forall>y \<in> V. vv_ver y \<noteq> currentScn q"
    by (auto simp: vss_lookup_inv_def vss_payload_def)
  have "\<forall>y \<in> V. vv_ver y \<le> currentScn q \<longrightarrow> vv_ver y \<le> vv_ver ?x"
    using x(2,4,5) by (auto simp: le_less)
  moreover have "vss_vbFlag e = vv_vb ?x" by (simp add: vss_payload_def)
  ultimately show ?thesis
    using x(1-3) Some unfolding vss_lookup_spec_def by (auto intro!: bexI [of _ ?x])
qed

lemma vss_lookup_exact:
  assumes "x \<in> V" "vv_ver x = currentScn q"
  shows "vss_lookup_spec q V (0, vv_ver x, vv_vb x)"
  using assms unfolding vss_lookup_spec_def by (auto intro!: bexI [of _ x])

definition vss_may_use :: "LBID_t \<Rightarrow> QueryContext_vss \<Rightarrow> VER_t \<Rightarrow> bool \<Rightarrow> VSSEntry \<Rightarrow> bool" where
  "vss_may_use l q txnID vbOnly e \<longleftrightarrow>
    vss_lbid e = l \<and> (vbOnly \<longrightarrow> vss_vbFlag e) \<and> (txnID = vss_verID e \<or> vss_verID e \<notin> txns q)"

lemma vss_bucket_visible:
  assumes "vss_bucket g l b ks"
  shows "vss_visible l q txnID vbOnly (vss_abs g) =
    vss_payload ` {e \<in> (!) (vss_storage g) ` set ks. vss_may_use l q txnID vbOnly e}" (is "?R = ?L")
proof
  note b = assms [unfolded vss_bucket_def]
  show "?L \<subseteq> ?R"
    using b by (auto simp: vss_visible_def vss_payload_def vss_abs_def vss_may_use_def)
  show "?R \<subseteq> ?L"
  proof
    fix x assume x: "x \<in> ?R"
    then have "x \<in># vss_abs g" by (simp add: vss_visible_def)
    then obtain k where k: "k < length (vss_storage g)" "vss_payload (vss_storage g ! k) = x"
      by (cases x) (auto simp: in_vss_abs)
    with x have u: "vss_may_use l q txnID vbOnly (vss_storage g ! k)"
      by (auto simp: vss_visible_def vss_payload_def vss_may_use_def)
    with k b have "k \<in> set ks" by (auto simp: vss_may_use_def)
    with u k show "x \<in> ?L" by blast
  qed
qed

lemma vss_lookup_scan:
  assumes pos: "\<forall>k \<in> set ks. 0 \<le> vss_verID (st ! k)"
    and V: "V = vss_payload ` {e \<in> (!) st ` set ks. vss_may_use l q txnID vbOnly e}"
  shows "case scan_list st (vss_lookup_body l q txnID vbOnly) (-1, -1, None) ks of
      Continue a' \<Rightarrow> vss_lookup_inv q V a'
    | Return out \<Rightarrow> vss_lookup_spec q V out"
proof -
  define W where "W S = vss_payload ` {e \<in> (!) st ` S. vss_may_use l q txnID vbOnly e}" for S
  have W_insert: "W (insert k S) = (if vss_may_use l q txnID vbOnly (st ! k)
      then insert (vss_payload (st ! k)) (W S) else W S)" for k S
    by (auto simp: W_def)
  have W_mono: "S \<subseteq> S' \<Longrightarrow> W S \<subseteq> W S'" for S S' by (auto simp: W_def)
  have "case scan_list st (vss_lookup_body l q txnID vbOnly) (-1, -1, None) ks of
      Continue a' \<Rightarrow> {} \<union> set ks \<subseteq> set ks \<and> vss_lookup_inv q (W ({} \<union> set ks)) a'
    | Return out \<Rightarrow> vss_lookup_spec q (W (set ks)) out"
  proof (rule scan_list_rule)
    show "{} \<subseteq> set ks \<and> vss_lookup_inv q (W {}) (-1, -1, None)"
      by (simp add: vss_lookup_inv_def W_def)
    fix S k a
    assume k: "k \<in> set ks" and S: "S \<subseteq> set ks \<and> vss_lookup_inv q (W S) a"
    have posW: "\<forall>x \<in> W S. 0 \<le> vv_ver x" using S pos by (auto simp: W_def vss_payload_def)
    note step = vss_lookup_step [OF conjunct2 [OF S] pos [rule_format, OF k] posW
        W_insert [unfolded vss_may_use_def], of k]
    show "case vss_lookup_body l q txnID vbOnly a k (st ! k) of
        Continue a' \<Rightarrow> insert k S \<subseteq> set ks \<and> vss_lookup_inv q (W (insert k S)) a'
      | Return out \<Rightarrow> vss_lookup_spec q (W (set ks)) out"
    proof (cases "vss_lookup_body l q txnID vbOnly a k (st ! k)")
      case (Return out)
      have "insert k S \<subseteq> set ks" using k S by simp
      from W_mono [OF this] Return step have "vss_payload (st ! k) \<in> W (set ks)" by auto
      from vss_lookup_exact [OF this, of q] Return step show ?thesis by (simp add: vss_payload_def)
    next
      case (Continue a')
      with k S step show ?thesis by simp
    qed
  qed
  then show ?thesis
    by (cases "scan_list st (vss_lookup_body l q txnID vbOnly) (-1, -1, None) ks") (simp_all add: W_def V)
qed

lemma vss_lookup_correct:
  assumes wf: "vss_wf g" and l: "l \<noteq> -1" and scn: "0 \<le> currentScn q"
    and ver: "\<forall>x \<in> set_mset (vss_abs g). 0 \<le> vv_ver x"
  shows "\<exists>out. vss_lookup l q txnID vbOnly g = Some out \<and>
    vss_lookup_spec q (vss_visible l q txnID vbOnly (vss_abs g)) out"
proof -
  obtain b ks where ch: "vss_bucket g l b ks"
    using wf l by (auto simp: vss_wf_def elim: vss_bucket_exists)
  have "\<forall>k \<in> set ks. 0 \<le> vss_verID (vss_storage g ! k)"
    using ch ver by (auto simp: vss_bucket_def vss_abs_def vss_payload_def)
  note sc = vss_lookup_scan [OF this vss_bucket_visible [OF ch, of q txnID vbOnly]]
  show ?thesis
  proof (cases "scan_list (vss_storage g) (vss_lookup_body l q txnID vbOnly) (-1, -1, None) ks")
    case (Return out)
    with sc show ?thesis
      by (simp add: vss_lookup_def vss_bucket_scan [OF ch] vss_bucket_head [OF ch])
  next
    case (Continue a)
    obtain mx mn me where a: "a = (mx, mn, me)" by (cases a)
    have "vss_lookup_inv q (vss_visible l q txnID vbOnly (vss_abs g)) (mx, mn, me)"
      using sc Continue a by simp
    from vss_lookup_finish [OF this scn] show ?thesis
      unfolding vss_lookup_def vss_bucket_head [OF ch]
      by (simp add: vss_bucket_scan [OF ch] Continue a split: option.splits)
  qed
qed

section \<open>The other queries\<close>

lemma vss_bucket_versions:
  assumes "vss_bucket g l b ks"
  shows "{x \<in> set_mset (vss_abs g). vv_lbid x = l} =
    vss_payload ` {e \<in> (!) (vss_storage g) ` set ks. vss_lbid e = l}"
proof -
  have "{x \<in> set_mset (vss_abs g). vv_lbid x = l} = vss_visible l \<lparr>currentScn = 0, txns = {}\<rparr> 0 False (vss_abs g)"
    by (simp add: vss_visible_def)
  then show ?thesis
    unfolding vss_bucket_visible [OF assms] by (simp add: vss_may_use_def)
qed

lemma vss_isVersioned_correct:
  assumes wf: "vss_wf g" and l: "l \<noteq> -1"
  shows "\<exists>r. vss_isVersioned l v g = Some r \<and>
    (if \<exists>vb lk. (l, v, vb, lk) \<in># vss_abs g then \<exists>lk. (l, v, r, lk) \<in># vss_abs g else \<not> r)"
proof -
  obtain b ks where ch: "vss_bucket g l b ks"
    using wf l by (auto simp: vss_wf_def elim: vss_bucket_exists)
  let ?M = "\<lambda>k. vss_lbid (vss_storage g ! k) = l \<and> vss_verID (vss_storage g ! k) = v"
  have sc: "scan_list (vss_storage g)
      (\<lambda>_ k e. if vss_lbid e = l \<and> vss_verID e = v then Return (vss_vbFlag e) else Continue ()) () ks =
    (case find ?M ks of Some k \<Rightarrow> Return (vss_vbFlag (vss_storage g ! k)) | None \<Rightarrow> Continue ())"
    by (induction ks) auto
  have mem: "(l, v, vb, lk) \<in># vss_abs g \<longleftrightarrow>
      (\<exists>k \<in> set ks. ?M k \<and> vss_vbFlag (vss_storage g ! k) = vb \<and> vss_locked (vss_storage g ! k) = lk)" for vb lk
    using ch by (fastforce simp: vss_bucket_def in_vss_abs vss_payload_def)
  show ?thesis
  proof (cases "find ?M ks")
    case None
    with mem have "\<not> (\<exists>vb lk. (l, v, vb, lk) \<in># vss_abs g)" by (auto simp: find_None_iff)
    moreover have "vss_isVersioned l v g = Some False"
      unfolding vss_isVersioned_def vss_bucket_head [OF ch]
      by (simp add: vss_bucket_scan [OF ch] sc None)
    ultimately show ?thesis by (intro exI [of _ False]) simp
  next
    case (Some k)
    then have "k \<in> set ks" "?M k" by (auto simp: find_Some_iff)
    with mem have "\<exists>lk. (l, v, vss_vbFlag (vss_storage g ! k), lk) \<in># vss_abs g" by blast
    moreover have "vss_isVersioned l v g = Some (vss_vbFlag (vss_storage g ! k))"
      unfolding vss_isVersioned_def vss_bucket_head [OF ch]
      by (simp add: vss_bucket_scan [OF ch] sc Some)
    ultimately show ?thesis by auto
  qed
qed

lemma vss_getCurrentVersion_correct:
  assumes wf: "vss_wf g" and l: "l \<noteq> -1"
  shows "\<exists>v lk. vss_getCurrentVersion l g = Some (v, lk) \<and>
    ((l, v, False, lk) \<in># vss_abs g \<or> v = 0 \<and> (\<forall>v' lk'. (l, v', False, lk') \<notin># vss_abs g))"
proof -
  obtain b ks where ch: "vss_bucket g l b ks"
    using wf l by (auto simp: vss_wf_def elim: vss_bucket_exists)
  let ?M = "\<lambda>k. vss_lbid (vss_storage g ! k) = l \<and> \<not> vss_vbFlag (vss_storage g ! k)"
  have sc: "scan_list (vss_storage g)
      (\<lambda>_ k e. if vss_lbid e = l \<and> \<not> vss_vbFlag e then Return (vss_verID e, vss_locked e) else Continue ()) () ks =
    (case find ?M ks of Some k \<Rightarrow> Return (vss_verID (vss_storage g ! k), vss_locked (vss_storage g ! k)) | None \<Rightarrow> Continue ())"
    by (induction ks) auto
  have mem: "(l, v, False, lk) \<in># vss_abs g \<longleftrightarrow>
      (\<exists>k \<in> set ks. ?M k \<and> vss_verID (vss_storage g ! k) = v \<and> vss_locked (vss_storage g ! k) = lk)" for v lk
    using ch by (fastforce simp: vss_bucket_def in_vss_abs vss_payload_def)
  show ?thesis
  proof (cases "find ?M ks")
    case None
    with mem have "\<forall>v' lk'. (l, v', False, lk') \<notin># vss_abs g" by (auto simp: find_None_iff)
    moreover have "vss_getCurrentVersion l g = Some (0, False)"
      unfolding vss_getCurrentVersion_def vss_bucket_head [OF ch]
      by (simp add: vss_bucket_scan [OF ch] sc None)
    ultimately show ?thesis by (intro exI [of _ 0] exI [of _ False]) simp
  next
    case (Some k)
    then have "k \<in> set ks" "?M k" by (auto simp: find_Some_iff)
    with mem have "(l, vss_verID (vss_storage g ! k), False, vss_locked (vss_storage g ! k)) \<in># vss_abs g" by blast
    moreover have "vss_getCurrentVersion l g = Some (vss_verID (vss_storage g ! k), vss_locked (vss_storage g ! k))"
      unfolding vss_getCurrentVersion_def vss_bucket_head [OF ch]
      by (simp add: vss_bucket_scan [OF ch] sc Some)
    ultimately show ?thesis by simp
  qed
qed

lemma vss_getHighestVerInVB_correct:
  assumes wf: "vss_wf g" and l: "l \<noteq> -1"
  shows "\<exists>r. vss_getHighestVerInVB l mx g = Some r \<and>
    (r = -1 \<or> r \<le> mx \<and> (\<exists>lk. (l, r, True, lk) \<in># vss_abs g)) \<and>
    (\<forall>v lk. (l, v, True, lk) \<in># vss_abs g \<longrightarrow> v \<le> mx \<longrightarrow> v \<le> r)"
proof -
  let ?st = "vss_storage g"
  obtain b ks where ch: "vss_bucket g l b ks"
    using wf l by (auto simp: vss_wf_def elim: vss_bucket_exists)
  let ?M = "\<lambda>k. vss_lbid (?st ! k) = l \<and> vss_vbFlag (?st ! k)"
  let ?body = "\<lambda>ret k e. if vss_lbid e = l \<and> vss_vbFlag e \<and> vss_verID e \<le> mx \<and> ret < vss_verID e
      then Continue (vss_verID e) else Continue ret"
  let ?P = "\<lambda>S r. (r = -1 \<or> r \<le> mx \<and> (\<exists>k \<in> S. ?M k \<and> vss_verID (?st ! k) = r)) \<and>
      (\<forall>k \<in> S. ?M k \<longrightarrow> vss_verID (?st ! k) \<le> mx \<longrightarrow> vss_verID (?st ! k) \<le> r)"
  have "case scan_list ?st ?body (-1) ks of Continue r \<Rightarrow> ?P ({} \<union> set ks) r | Return (_ :: unit) \<Rightarrow> False"
    by (rule scan_list_rule) auto
  then obtain r where r: "scan_list ?st ?body (-1) ks = (Continue r :: (_, unit) control)" "?P (set ks) r"
    by (auto split: control.splits)
  have mem: "(l, v, True, lk) \<in># vss_abs g \<longleftrightarrow>
      (\<exists>k \<in> set ks. ?M k \<and> vss_verID (?st ! k) = v \<and> vss_locked (?st ! k) = lk)" for v lk
    using ch by (fastforce simp: vss_bucket_def in_vss_abs vss_payload_def)
  have "vss_getHighestVerInVB l mx g = Some r"
    unfolding vss_getHighestVerInVB_def vss_bucket_head [OF ch] by (simp add: vss_bucket_scan [OF ch] r(1))
  moreover have "r = -1 \<or> r \<le> mx \<and> (\<exists>lk. (l, r, True, lk) \<in># vss_abs g)" using r(2) by (simp add: mem) blast
  moreover have "\<forall>v lk. (l, v, True, lk) \<in># vss_abs g \<longrightarrow> v \<le> mx \<longrightarrow> v \<le> r" using r(2) by (simp add: mem) blast
  ultimately show ?thesis by blast
qed

lemma vss_isTooOld_never:
  assumes wf: "vss_wf g" and l: "l \<noteq> -1" and ver: "\<forall>x \<in> set_mset (vss_abs g). 0 \<le> vv_ver x"
    and v: "0 \<le> v"
  shows "vss_isTooOld l v g = Some False"
proof -
  obtain b ks where ch: "vss_bucket g l b ks"
    using wf l by (auto simp: vss_wf_def elim: vss_bucket_exists)
  have pos: "\<forall>k \<in> set ks. 0 \<le> vss_verID (vss_storage g ! k)"
    using ch ver by (auto simp: vss_bucket_def vss_abs_def vss_payload_def)
  have "scan_list (vss_storage g) (\<lambda>minVer k e. if vss_lbid e = l \<and> minVer > vss_verID e
      then Continue (vss_verID e) else Continue minVer) 0 ks = (Continue 0 :: (int, unit) control)"
    using pos by (induction ks) auto
  with v show ?thesis
    by (simp add: vss_isTooOld_def vss_bucket_scan [OF ch] vss_bucket_head [OF ch])
qed

text \<open>A version has to be kept for a rollback when some version of the block is locked and it is
  the highest unlocked one.\<close>

lemma vss_isEntryLocked_correct:
  assumes wf: "vss_wf g" and l: "l \<noteq> -1"
  shows "vss_isEntryLocked l v g = Some
    ((\<exists>x \<in> set_mset (vss_abs g). vv_lbid x = l \<and> vv_locked x) \<and>
     v = Max (insert 0 (vv_ver ` {x \<in> set_mset (vss_abs g). vv_lbid x = l \<and> \<not> vv_locked x})))"
proof -
  let ?st = "vss_storage g"
  define U where "U S = vss_verID ` {e \<in> (!) ?st ` S. vss_lbid e = l \<and> \<not> vss_locked e}" for S
  define H where "H S \<longleftrightarrow> (\<exists>k \<in> S. vss_lbid (?st ! k) = l \<and> vss_locked (?st ! k))" for S
  define m where "m S = Max (insert 0 (U S))" for S
  let ?body = "\<lambda>(hasALockedEntry, rollbackVersion) k e.
      if vss_lbid e = l then
        (if vss_locked e then Continue (True, rollbackVersion)
         else if rollbackVersion < vss_verID e then Continue (hasALockedEntry, vss_verID e)
         else Continue (hasALockedEntry, rollbackVersion))
      else Continue (hasALockedEntry, rollbackVersion)"
  obtain b ks where ch: "vss_bucket g l b ks"
    using wf l by (auto simp: vss_wf_def elim: vss_bucket_exists)
  have H_insert: "H (insert k S) \<longleftrightarrow> (vss_lbid (?st ! k) = l \<and> vss_locked (?st ! k)) \<or> H S" for k S
    by (auto simp: H_def)
  have m_insert: "m (insert k S) = (if vss_lbid (?st ! k) = l \<and> \<not> vss_locked (?st ! k)
      then max (vss_verID (?st ! k)) (m S) else m S)" if "finite S" for k S
  proof -
    have "U (insert k S) = (if vss_lbid (?st ! k) = l \<and> \<not> vss_locked (?st ! k)
        then insert (vss_verID (?st ! k)) (U S) else U S)" "finite (U S)"
      using that by (auto simp: U_def)
    then show ?thesis by (simp add: m_def insert_commute [of 0])
  qed
  have "case scan_list ?st ?body (False, 0) ks of
      Continue a \<Rightarrow> finite ({} \<union> set ks) \<and> a = (H ({} \<union> set ks), m ({} \<union> set ks))
    | Return (_ :: unit) \<Rightarrow> False"
  proof (rule scan_list_rule)
    show "finite {} \<and> (False, 0) = (H {}, m {})" by (simp add: H_def m_def U_def)
    fix S k a
    assume "finite S \<and> a = (H S, m S)"
    then show "case ?body a k (?st ! k) of
        Continue a' \<Rightarrow> finite (insert k S) \<and> a' = (H (insert k S), m (insert k S))
      | Return (r :: unit) \<Rightarrow> False"
      by (auto simp: H_insert m_insert max_def)
  qed
  then have r: "scan_list ?st ?body (False, 0) ks = (Continue (H (set ks), m (set ks)) :: (_, unit) control)"
    by (auto split: control.splits)
  note vers = vss_bucket_versions [OF ch]
  have "H (set ks) \<longleftrightarrow> (\<exists>x \<in> {x \<in> set_mset (vss_abs g). vv_lbid x = l}. vv_locked x)"
    unfolding vers H_def by (auto simp: vss_payload_def)
  then have H_eq: "(\<exists>x \<in> set_mset (vss_abs g). vv_lbid x = l \<and> vv_locked x) \<longleftrightarrow> H (set ks)"
    by blast
  have "{x \<in> set_mset (vss_abs g). vv_lbid x = l \<and> \<not> vv_locked x} =
      {x \<in> {x \<in> set_mset (vss_abs g). vv_lbid x = l}. \<not> vv_locked x}" by auto
  also have "\<dots> = vss_payload ` {e \<in> (!) ?st ` set ks. vss_lbid e = l \<and> \<not> vss_locked e}"
    unfolding vers by (auto simp: vss_payload_def)
  finally have U_eq: "vv_ver ` {x \<in> set_mset (vss_abs g). vv_lbid x = l \<and> \<not> vv_locked x} = U (set ks)"
    by (simp add: image_image vss_payload_def U_def)
  show ?thesis
    unfolding vss_isEntryLocked_def vss_bucket_head [OF ch] U_eq H_eq
    using l r by (simp add: vss_bucket_scan [OF ch] m_def)
qed

end
