(* ===== verification/Vss_Image.thy ===== *)
theory Vss_Image
  imports Vss_Query
begin

text \<open>
  The saved image of the VSS and its consistency check. Loading what was saved gives back the
  same versions in a fresh, well-formed segment; a file with the wrong magic number, a negative
  count or too few records is rejected. \<^verbatim>\<open>checkConsistency\<close> on a well-formed segment whose
  version-buffer entries are all in the VBBM passes exactly when no block has two entries for
  the same version.
\<close>

section \<open>Save and load\<close>

lemma vss_slots_storage: "vss_struct g \<Longrightarrow> vss_slots g = vss_storage g"
  by (simp add: vss_slots_def vss_struct_def map_nth)

lemma vss_used_eta: "(\<lambda>e. vss_lbid e \<noteq> -1) = vss_used"
  by (simp add: fun_eq_iff vss_used_def)

lemma vss_growForLoad_correct:
  "vss_obj_wf (vss_growForLoad n s) \<and> vss_abs (vss_shm (vss_growForLoad n s)) = {#} \<and>
   vss_locks (vss_shm (vss_growForLoad n s))"
proof -
  define c where "c = (let n0 = (if n < VSSSTORAGE_INITIAL_COUNT then VSSSTORAGE_INITIAL_COUNT else n)
    in if n0 mod VSSSTORAGE_INCREMENT_COUNT \<noteq> 0
       then (n0 div VSSSTORAGE_INCREMENT_COUNT + 1) * VSSSTORAGE_INCREMENT_COUNT else n0)"
  have s': "vss_shm (vss_growForLoad n s) = vss_fresh_segment c (c div 4)"
      "vss_attached (vss_growForLoad n s)" "vss_allocdSize (vss_growForLoad n s) = VSS_SIZE c"
    by (simp_all add: vss_growForLoad_def c_def Let_def)
  have c: "200000 \<le> c"
  proof -
    define n0 where "n0 = (if n < 200000 then 200000 else n)"
    have c_eq: "c = (if n0 mod 20000 \<noteq> 0 then (n0 div 20000 + 1) * 20000 else n0)"
      unfolding c_def n0_def VSSSTORAGE_INITIAL_COUNT_def VSSSTORAGE_INCREMENT_COUNT_def Let_def ..
    have "n0 \<le> (n0 div 20000 + 1) * 20000"
      using div_mult_mod_eq [of n0 20000] pos_mod_bound [of 20000 n0] by (simp add: algebra_simps)
    moreover have "200000 \<le> n0" by (simp add: n0_def)
    ultimately show ?thesis unfolding c_eq by (cases "n0 mod 20000 = 0") (simp_all only: if_False if_True refl not_True_eq_False not_False_eq_True)
  qed
  have c4: "50000 \<le> c div 4" using zdiv_mono1 [OF c, of 4] by simp
  have "VSS_INITIAL_SIZE \<le> VSS_SIZE c"
    unfolding VSS_INITIAL_SIZE_def VSS_SIZE_def sizeof_VSSEntry_def VSSSTORAGE_INITIAL_COUNT_def
      VSSTABLE_INITIAL_COUNT_def using c c4 by linarith
  moreover have "0 \<le> c" "0 < c div 4" using c c4 by linarith+
  note f = vss_fresh_segment_struct [OF this]
  moreover have "vss_currentSize (vss_fresh_segment c (c div 4)) = 0"
      "vss_lockedCount (vss_fresh_segment c (c div 4)) = 0"
    by (simp_all add: vss_fresh_segment_def)
  ultimately show ?thesis
    by (simp add: vss_obj_wf_def vss_wf_def vss_locks_def s')
qed

lemma vss_load_entries_correct:
  assumes "vss_obj_wf s" "vss_locks (vss_shm s)" "\<forall>e \<in> set es. vss_used e"
  shows "\<exists>s'. vss_load_entries (length es) es s = Some (Inr s') \<and> vss_obj_wf s' \<and>
    vss_locks (vss_shm s') \<and> vss_abs (vss_shm s') = vss_abs (vss_shm s) + mset (map vss_payload es)"
  using assms
proof (induction es arbitrary: s)
  case (Cons e es)
  then have "vss_lbid e \<noteq> -1" by (simp add: vss_used_def)
  from vss_insert_correct [OF Cons.prems(1) this, of "vss_verID e" "vss_vbFlag e" "vss_locked e" True]
  obtain t where t: "vss_insert (vss_lbid e) (vss_verID e) (vss_vbFlag e) (vss_locked e) True s = Some t"
      "vss_obj_wf t" "vss_abs (vss_shm t) = add_mset (vss_payload e) (vss_abs (vss_shm s))"
      "vss_locks (vss_shm t)"
    using Cons.prems(2) by (auto simp: vss_payload_def)
  with Cons.IH [OF t(2,4)] Cons.prems(3) show ?case by auto
qed simp

lemma vss_load_entries_short:
  assumes "vss_obj_wf s" "\<forall>e \<in> set es. vss_used e" "length es < n"
  shows "vss_load_entries n es s = Some (Inl (Runtime_error ''VSS::load(): Failed to read entry''))"
  using assms
proof (induction n es s rule: vss_load_entries.induct)
  case (3 n e es s)
  then have "vss_lbid e \<noteq> -1" by (simp add: vss_used_def)
  from vss_insert_correct [OF 3(2) this, of "vss_verID e" "vss_vbFlag e" "vss_locked e" True]
  obtain t where "vss_insert (vss_lbid e) (vss_verID e) (vss_vbFlag e) (vss_locked e) True s = Some t"
      "vss_obj_wf t"
    by blast
  with 3 show ?case by simp
qed simp_all

lemma vss_load_save_correct:
  assumes "vss_wf g"
  shows "\<exists>s'. vss_load (vss_save g) s = Some (Inr s') \<and> vss_obj_wf s' \<and> vss_locks (vss_shm s') \<and>
    vss_abs (vss_shm s') = vss_abs g"
proof -
  define es where "es = filter vss_used (vss_storage g)"
  define t where "t = vss_growForLoad (int (length es)) s"
  have recs: "vss_records (vss_save g) = es" "vss_entries (vss_save g) = int (length es)"
      "vss_magic (vss_save g) = VSS_MAGIC_V1"
    using assms
    by (simp_all add: vss_save_def vss_wf_def vss_slots_storage size_vss_abs vss_used_eta es_def)
  have "vss_obj_wf t" "vss_locks (vss_shm t)" and t: "vss_abs (vss_shm t) = {#}"
    using vss_growForLoad_correct by (auto simp: t_def)
  moreover have "\<forall>e \<in> set es. vss_used e" by (simp add: es_def)
  ultimately obtain s' where s': "vss_load_entries (length es) es t = Some (Inr s')"
      "vss_obj_wf s'" "vss_locks (vss_shm s')"
      "vss_abs (vss_shm s') = vss_abs (vss_shm t) + mset (map vss_payload es)"
    using vss_load_entries_correct by blast
  have "vss_load (vss_save g) s = Some (Inr s')"
    using s'(1) by (simp add: vss_load_def recs t_def)
  moreover have "vss_abs (vss_shm s') = vss_abs g"
    unfolding s'(4) t vss_abs_def [of g] es_def by simp
  ultimately show ?thesis using s'(2,3) by blast
qed

section \<open>The consistency check\<close>

text \<open>No two used slots hold the same version of the same block.\<close>

definition vss_unique :: "vss_segment \<Rightarrow> bool" where
  "vss_unique g = keys_unique vss_used (\<lambda>e. (vss_lbid e, vss_verID e)) (vss_storage g)"

lemma vss_checkConsistency_correct:
  assumes wf: "vss_wf g"
    and vb: "\<forall>x \<in> set_mset (vss_abs g). vv_vb x \<longrightarrow> vbbm_lookup (vv_lbid x) (vv_ver x) = Some (Inr 0)"
  shows "vss_checkConsistency vbbm_lookup g = Some (if vss_unique g then Inr ()
    else Inl (Logic_error ''VSS::checkConsistency(): Duplicate entry found''))"
proof -
  note hwf = wf [unfolded vss_wf_def vss_struct_def]
  have hash: "hash_wf vss_used vss_next vss_bkt (vss_storage g) (vss_buckets g)" using hwf by blast
  have slots: "vss_slots g = vss_storage g" using wf by (simp add: vss_wf_def vss_slots_storage)
  have 1: "check_all (vss_check_vbbm vbbm_lookup) (vss_slots g) = Some (Inr ())"
  proof (rule check_all_pass)
    fix e assume "e \<in> set (vss_slots g)"
    then have "vss_used e \<Longrightarrow> vss_payload e \<in># vss_abs g" by (simp add: slots vss_abs_def)
    with vb have "vss_used e \<Longrightarrow> vss_vbFlag e \<Longrightarrow> vbbm_lookup (vss_lbid e) (vss_verID e) = Some (Inr 0)"
      by (force simp: vss_payload_def)
    then show "vss_check_vbbm vbbm_lookup e = Some (Inr ())"
      by (auto simp: vss_check_vbbm_def vss_used_def)
  qed
  have 2: "vss_size g = Inr (vss_currentSize g)"
    using wf by (simp add: vss_size_def slots vss_used_eta vss_wf_def size_vss_abs)
  have 3: "check_all (vss_check_chain g) (vss_buckets g) = Some (Inr ())"
    unfolding vss_check_chain_def vss_used_eta using hash by (rule check_unused_pass)
  have 4: "check_all (vss_check_LWM g) [0..<nat (vss_LWM g)] = Some (Inr ())"
    using hwf by (intro check_all_pass) (auto simp: vss_check_LWM_def vss_used_def)
  have 5: "check_all (vss_check_unique g) (vss_buckets g) = Some (if vss_unique g then Inr ()
      else Inl (Logic_error ''VSS::checkConsistency(): Duplicate entry found''))"
    unfolding vss_check_unique_def vss_unique_def using hash
    by (rule check_duplicate_decides) (simp add: vss_bkt_def)
  show ?thesis using 1 2 3 4 5 by (simp add: vss_checkConsistency_def)
qed

end
