(* ===== verification/Vss_Properties.thy ===== *)
theory Vss_Properties
  imports Vss_Undo Vss_Image
begin

text \<open>
  The properties of the VSS, each with a witness on a small segment of four slots and three
  buckets.
\<close>

section \<open>A concrete segment\<close>

text \<open>Block 7 has version 3 in the version buffer and version 5 locked by transaction 5; block 9
  has version 4.\<close>

definition vss_ex :: vss_segment where
  "vss_ex = \<lparr>
     vss_header = \<lparr>capacity = 4, currentSize = 3, LWM = 3, numHashBuckets = 3, lockedEntryCount = 1\<rparr>,
     vss_buckets = [1, -1, 2],
     vss_storage =
      [\<lparr>vss_lbid = 7, vss_verID = 3, vss_vbFlag = True, vss_locked = False, vss_next = -1\<rparr>,
       \<lparr>vss_lbid = 9, vss_verID = 4, vss_vbFlag = False, vss_locked = False, vss_next = -1\<rparr>,
       \<lparr>vss_lbid = 7, vss_verID = 5, vss_vbFlag = False, vss_locked = True, vss_next = 0\<rparr>,
       \<lparr>vss_lbid = -1, vss_verID = 0, vss_vbFlag = False, vss_locked = False, vss_next = 0\<rparr>]\<rparr>"

definition vss_ex_obj :: VSS where
  "vss_ex_obj = \<lparr>vss_shm = vss_ex, vss_tableShmkey = KEYRANGE_VSS_BASE + 1,
    vss_allocdSize = VSS_INITIAL_SIZE, vss_attached = True, vss_mapping = 0, vss_undoRecords = []\<rparr>"

definition vss_wf_check :: "vss_segment \<Rightarrow> bool" where
  "vss_wf_check g \<longleftrightarrow>
    vss_capacity g = int (length (vss_storage g)) \<and>
    numHashBuckets (vss_header g) = int (length (vss_buckets g)) \<and> vss_buckets g \<noteq> [] \<and>
    hash_wf_check vss_used vss_next vss_bkt (vss_storage g) (vss_buckets g) \<and>
    0 \<le> vss_LWM g \<and> vss_LWM g \<le> vss_capacity g \<and>
    list_all (\<lambda>i. vss_used (vss_storage g ! i)) [0..<nat (vss_LWM g)] \<and>
    vss_currentSize g = int (length (filter vss_used (vss_storage g)))"

lemma vss_wf_checkI: "vss_wf_check g \<Longrightarrow> vss_wf g"
  by (auto simp: vss_wf_check_def vss_wf_def vss_struct_def size_vss_abs list_all_iff
      intro: hash_wf_checkI)

lemma vss_ex_wf: "vss_wf vss_ex"
  by (rule vss_wf_checkI) code_simp

lemma vss_ex_abs: "vss_abs vss_ex = {#(7, 3, True, False), (9, 4, False, False), (7, 5, False, True)#}"
  by (simp add: vss_abs_def vss_ex_def vss_used_def vss_payload_def)

lemma vss_ex_obj_wf: "vss_obj_wf vss_ex_obj"
  by (simp add: vss_obj_wf_def vss_ex_obj_def vss_ex_wf)

section \<open>Queries\<close>

text \<open>C4: On a well-formed segment \<^verbatim>\<open>VSS::lookup\<close> returns. Its result is the highest version
  of the block that is not above the query's SCN among those the query may use, that is, versions
  not written by another active transaction (and in the version buffer when only those are asked
  for); if every usable version is newer it reports ERR_SNAPSHOT_TOO_OLD, and -1 if there is
  none.\<close>

theorem vss_lookup_snapshot:
  assumes "vss_wf g" "l \<noteq> -1" "0 \<le> currentScn q" "\<forall>x \<in> set_mset (vss_abs g). 0 \<le> vv_ver x"
  shows "\<exists>out. vss_lookup l q txnID vbOnly g = Some out \<and>
    vss_lookup_spec q (vss_visible l q txnID vbOnly (vss_abs g)) out"
  using assms by (rule vss_lookup_correct)

theorem vss_lookup_snapshot_witness:
  "vss_lookup 7 (mkQueryContext_vss 4 [5]) 0 False vss_ex = Some (0, 3, True) \<and>
   (\<exists>out. vss_lookup 7 (mkQueryContext_vss 4 [5]) 0 False vss_ex = Some out \<and>
     vss_lookup_spec (mkQueryContext_vss 4 [5])
       (vss_visible 7 (mkQueryContext_vss 4 [5]) 0 False (vss_abs vss_ex)) out)"
proof
  show "vss_lookup 7 (mkQueryContext_vss 4 [5]) 0 False vss_ex = Some (0, 3, True)" by code_simp
  show "\<exists>out. vss_lookup 7 (mkQueryContext_vss 4 [5]) 0 False vss_ex = Some out \<and>
     vss_lookup_spec (mkQueryContext_vss 4 [5])
       (vss_visible 7 (mkQueryContext_vss 4 [5]) 0 False (vss_abs vss_ex)) out"
    by (rule vss_lookup_snapshot) (simp_all add: vss_ex_wf vss_ex_abs mkQueryContext_vss_def)
qed

text \<open>\<^verbatim>\<open>VSS::isEntryLocked\<close> holds of a version exactly when some version of the block is
  locked and the given version is the highest unlocked one, the one a rollback needs.\<close>

lemma vss_isEntryLocked_rollback_version:
  assumes "vss_wf g" "l \<noteq> -1"
  shows "vss_isEntryLocked l v g = Some
    ((\<exists>x \<in> set_mset (vss_abs g). vv_lbid x = l \<and> vv_locked x) \<and>
     v = Max (insert 0 (vv_ver ` {x \<in> set_mset (vss_abs g). vv_lbid x = l \<and> \<not> vv_locked x})))"
  using assms by (rule vss_isEntryLocked_correct)

lemma vss_isEntryLocked_rollback_version_witness:
  "vss_isEntryLocked 7 3 vss_ex = Some True \<and> vss_wf vss_ex \<and>
   vss_isEntryLocked 7 3 vss_ex = Some
    ((\<exists>x \<in> set_mset (vss_abs vss_ex). vv_lbid x = 7 \<and> vv_locked x) \<and>
     3 = Max (insert 0 (vv_ver ` {x \<in> set_mset (vss_abs vss_ex). vv_lbid x = 7 \<and> \<not> vv_locked x})))"
proof (intro conjI)
  show "vss_isEntryLocked 7 3 vss_ex = Some True" by code_simp
  show "vss_isEntryLocked 7 3 vss_ex = Some
    ((\<exists>x \<in> set_mset (vss_abs vss_ex). vv_lbid x = 7 \<and> vv_locked x) \<and>
     3 = Max (insert 0 (vv_ver ` {x \<in> set_mset (vss_abs vss_ex). vv_lbid x = 7 \<and> \<not> vv_locked x})))"
    by (rule vss_isEntryLocked_rollback_version) (simp_all add: vss_ex_wf)
qed (rule vss_ex_wf)

section \<open>Updates\<close>

text \<open>C14: \<^verbatim>\<open>VSS::insert\<close> always returns, growing the segment when it is full. The segment stays
  well-formed, the lock counter stays exact, and the abstract table gains exactly the new
  version.\<close>

theorem vss_insert_refines:
  assumes "vss_obj_wf s" "l \<noteq> -1"
  shows "\<exists>s'. vss_insert l v vb lk loading s = Some s' \<and> vss_obj_wf s' \<and>
    vss_abs (vss_shm s') = add_mset (l, v, vb, lk) (vss_abs (vss_shm s)) \<and>
    (vss_locks (vss_shm s) \<longrightarrow> vss_locks (vss_shm s'))"
  using assms by (rule vss_insert_correct)

theorem vss_insert_refines_witness:
  "\<exists>s'. vss_insert 9 6 False True False vss_ex_obj = Some s' \<and> vss_obj_wf s' \<and>
    vss_abs (vss_shm s') = add_mset (9, 6, False, True) (vss_abs (vss_shm vss_ex_obj)) \<and>
    (vss_locks (vss_shm vss_ex_obj) \<longrightarrow> vss_locks (vss_shm s'))"
  by (rule vss_insert_refines) (simp_all add: vss_ex_obj_wf)

text \<open>C26: \<^verbatim>\<open>VSS::removeEntry\<close> does nothing when the version is absent. Otherwise it removes that
  version; if what is left of the block is neither in the version buffer nor locked, it removes
  the rest as well and reports the block for flushing. The invariants are kept.\<close>

theorem vss_removeEntry_refines:
  assumes "vss_wf g" "l \<noteq> -1"
  shows "\<exists>g' imgs fl. vss_removeEntry l v g = Some (g', imgs, fl) \<and> vss_wf g' \<and>
    (vss_locks g \<longrightarrow> vss_locks g') \<and>
    ((\<forall>vb lk. (l, v, vb, lk) \<notin># vss_abs g) \<and> g' = g \<and> imgs = [] \<and> fl = [] \<or>
     (\<exists>vb lk R. vss_abs g = add_mset (l, v, vb, lk) R \<and>
       (if vss_needed l R then vss_abs g' = R \<and> fl = []
        else vss_abs g' = vss_without l R \<and> fl = [l])))"
  using assms by (rule vss_removeEntry_correct)

theorem vss_removeEntry_refines_witness:
  "map_option (\<lambda>(g, imgs, fl). (vss_buckets g, fl)) (vss_removeEntry 9 4 vss_ex) = Some ([-1, -1, 2], [9]) \<and>
   (\<exists>g' imgs fl. vss_removeEntry 9 4 vss_ex = Some (g', imgs, fl) \<and> vss_wf g' \<and>
    (vss_locks vss_ex \<longrightarrow> vss_locks g') \<and>
    ((\<forall>vb lk. (9, 4, vb, lk) \<notin># vss_abs vss_ex) \<and> g' = vss_ex \<and> imgs = [] \<and> fl = [] \<or>
     (\<exists>vb lk R. vss_abs vss_ex = add_mset (9, 4, vb, lk) R \<and>
       (if vss_needed 9 R then vss_abs g' = R \<and> fl = []
        else vss_abs g' = vss_without 9 R \<and> fl = [9]))))"
proof
  show "map_option (\<lambda>(g, imgs, fl). (vss_buckets g, fl)) (vss_removeEntry 9 4 vss_ex) = Some ([-1, -1, 2], [9])"
    by code_simp
qed (rule vss_removeEntry_refines, simp_all add: vss_ex_wf)

text \<open>\<^verbatim>\<open>VSS::removeEntriesFromDB\<close> removes every version of every block of the range and
  nothing else, and asks the VBBM to remove exactly those of them that were in the version
  buffer.\<close>

lemma vss_removeRange_refines:
  assumes "vss_wf g" "0 \<le> range_start r"
  shows "\<exists>g' imgs rm. vss_removeEntriesFromDB r g = Some (g', imgs, rm) \<and> vss_wf g' \<and>
    (vss_locks g \<longrightarrow> vss_locks g') \<and>
    vss_abs g' = filter_mset (\<lambda>x. vv_lbid x \<notin> set (range_lbids r)) (vss_abs g) \<and>
    mset rm = image_mset (\<lambda>x. (vv_lbid x, vv_ver x))
      (filter_mset (\<lambda>x. vv_lbid x \<in> set (range_lbids r) \<and> vv_vb x) (vss_abs g))"
  using assms by (rule vss_removeEntriesFromDB_correct)

lemma vss_removeRange_refines_witness:
  "\<exists>g' imgs rm. vss_removeEntriesFromDB \<lparr>range_start = 6, range_size = 2\<rparr> vss_ex = Some (g', imgs, rm) \<and>
    vss_wf g' \<and> (vss_locks vss_ex \<longrightarrow> vss_locks g') \<and>
    vss_abs g' = filter_mset (\<lambda>x. vv_lbid x \<notin> set (range_lbids \<lparr>range_start = 6, range_size = 2\<rparr>)) (vss_abs vss_ex) \<and>
    mset rm = image_mset (\<lambda>x. (vv_lbid x, vv_ver x))
      (filter_mset (\<lambda>x. vv_lbid x \<in> set (range_lbids \<lparr>range_start = 6, range_size = 2\<rparr>) \<and> vv_vb x) (vss_abs vss_ex))"
  by (rule vss_removeRange_refines) (simp_all add: vss_ex_wf)

text \<open>\<^verbatim>\<open>VSS::setVBFlag\<close> throws when the version is absent; otherwise it changes the flag of
  that version and nothing else.\<close>

lemma vss_setVBFlag_refines:
  assumes "vss_wf g" "l \<noteq> -1"
  shows "(\<forall>vb' lk. (l, v, vb', lk) \<notin># vss_abs g) \<and>
      vss_setVBFlag l v vb g = Some (Inl (Logic_error ''VSS::setVBFlag(): that entry doesn't exist'')) \<or>
    (\<exists>g' imgs vb' lk R. vss_setVBFlag l v vb g = Some (Inr (g', imgs)) \<and>
      vss_wf g' \<and> (vss_locks g \<longrightarrow> vss_locks g') \<and>
      vss_abs g = add_mset (l, v, vb', lk) R \<and> vss_abs g' = add_mset (l, v, vb, lk) R)"
  using assms by (rule vss_setVBFlag_correct)

lemma vss_setVBFlag_refines_witness:
  "(\<forall>vb' lk. (9, 4, vb', lk) \<notin># vss_abs vss_ex) \<and>
      vss_setVBFlag 9 4 True vss_ex = Some (Inl (Logic_error ''VSS::setVBFlag(): that entry doesn't exist'')) \<or>
    (\<exists>g' imgs vb' lk R. vss_setVBFlag 9 4 True vss_ex = Some (Inr (g', imgs)) \<and>
      vss_wf g' \<and> (vss_locks vss_ex \<longrightarrow> vss_locks g') \<and>
      vss_abs vss_ex = add_mset (9, 4, vb', lk) R \<and> vss_abs g' = add_mset (9, 4, True, lk) R)"
  by (rule vss_setVBFlag_refines) (simp_all add: vss_ex_wf)

text \<open>C25: \<^verbatim>\<open>VSS::commit\<close> clears the lock of exactly the versions the transaction wrote. When all
  of them were locked, the lock counter still counts the locked versions.\<close>

theorem vss_commit_refines:
  assumes "vss_wf g" "vss_locks g" "\<forall>x \<in> set_mset (vss_abs g). vv_ver x = txnID \<longrightarrow> vv_locked x"
  shows "\<exists>g' imgs. vss_commit txnID g = Some (g', imgs) \<and> vss_wf g' \<and> vss_locks g' \<and>
    vss_abs g' = image_mset (vv_commit txnID) (vss_abs g)"
proof -
  have "0 \<le> vss_lockedCount g" using assms(2) by (simp add: vss_locks_def)
  from vss_commit_correct [OF assms(1) this, of txnID] obtain g' imgs where
    r: "vss_commit txnID g = Some (g', imgs)" "vss_wf g'" "vss_abs g' = image_mset (vv_commit txnID) (vss_abs g)"
    by blast
  with vss_commit_locks [OF assms r(1)] show ?thesis by blast
qed

theorem vss_commit_refines_witness:
  "\<exists>g' imgs. vss_commit 5 vss_ex = Some (g', imgs) \<and> vss_wf g' \<and> vss_locks g' \<and>
    vss_abs g' = image_mset (vv_commit 5) (vss_abs vss_ex)"
proof (rule vss_commit_refines)
  show "vss_locks vss_ex" by (simp add: vss_locks_def vss_ex_abs) (simp add: vss_ex_def)
qed (simp_all add: vss_ex_wf vss_ex_abs)

section \<open>Undo\<close>

text \<open>C13: After any sequence of insertions (while the segment has room), removals, flag changes
  and range removals starting with an empty log, \<^verbatim>\<open>undoChanges\<close> restores the object
  exactly.\<close>

theorem vss_undo_restores:
  assumes "vss_step\<^sup>*\<^sup>* s s'" "vss_undoRecords s = []"
  shows "vss_undoChanges s' = Some s"
proof -
  have "vss_undoChanges s = Some s"
    unfolding vss_undoChanges_def using assms(2) by (rule vss_log.undo_confirmed)
  with vss_steps_undo [OF assms(1)] show ?thesis by simp
qed

theorem vss_undo_restores_witness:
  "\<exists>s'. vss_step\<^sup>*\<^sup>* vss_ex_obj s' \<and> s' \<noteq> vss_ex_obj \<and> vss_undoChanges s' = Some vss_ex_obj"
proof -
  have "vss_currentSize (vss_shm vss_ex_obj) \<noteq> vss_capacity (vss_shm vss_ex_obj)"
    by (simp add: vss_ex_obj_def vss_ex_def)
  moreover obtain s' where s': "vss_insert 9 6 False True False vss_ex_obj = Some s'"
      "vss_abs (vss_shm s') = add_mset (9, 6, False, True) (vss_abs (vss_shm vss_ex_obj))"
    using vss_insert_correct [OF vss_ex_obj_wf, of 9 6 False True False] by auto
  ultimately have step: "vss_step\<^sup>*\<^sup>* vss_ex_obj s'"
    by (intro r_into_rtranclp vss_step.insert)
  moreover have "vss_undoRecords vss_ex_obj = []" by (simp add: vss_ex_obj_def)
  ultimately have "vss_undoChanges s' = Some vss_ex_obj" by (rule vss_undo_restores)
  moreover have "s' \<noteq> vss_ex_obj" using s'(2) by auto
  ultimately show ?thesis using step by blast
qed

text \<open>C35: Commit does not record the header it changes. Undoing a commit restores the entries and
  the bucket heads but leaves the decremented lock counter in the header.\<close>

theorem vss_commit_undo_incomplete:
  assumes "vss_commit_obj txnID s = Some s'" "vss_undoRecords s = []"
  shows "vss_undoChanges s' =
    Some (s\<lparr>vss_shm := (vss_shm s)\<lparr>vss_header := vss_header (vss_shm s')\<rparr>\<rparr>)"
proof -
  obtain g imgs where c: "vss_commit txnID (vss_shm s) = Some (g, imgs)"
      and s': "s' = s\<lparr>vss_shm := g, vss_undoRecords := map (Pair (vss_mapping s)) imgs\<rparr>"
    using assms by (auto simp: vss_commit_obj_def vss_on_def Option.bind_eq_Some_conv)
  have "undo_all vss_restore (vss_undoRecords s') s' =
      Some (s'\<lparr>vss_shm := (vss_shm s)\<lparr>vss_header := vss_header g\<rparr>\<rparr>)"
    using vss_undo_all_images [of s' imgs] vss_commit_undo [OF c] by (simp add: s')
  with assms(2) show ?thesis
    by (simp add: vss_undoChanges_def undoChanges_def vss_set_undo_def s')
qed

theorem vss_commit_undo_incomplete_witness:
  "vss_lockedCount vss_ex = 1 \<and>
   (\<exists>s'. vss_commit_obj 5 vss_ex_obj = Some s' \<and> vss_lockedCount (vss_shm s') = 0 \<and>
     vss_undoChanges s' =
       Some (vss_ex_obj\<lparr>vss_shm := (vss_shm vss_ex_obj)\<lparr>vss_header := vss_header (vss_shm s')\<rparr>\<rparr>))"
proof
  show "vss_lockedCount vss_ex = 1" by (simp add: vss_ex_def)
  have "map_option (\<lambda>s. vss_lockedCount (vss_shm s)) (vss_commit_obj 5 vss_ex_obj) = Some 0"
    by code_simp
  then obtain s' where s': "vss_commit_obj 5 vss_ex_obj = Some s'" "vss_lockedCount (vss_shm s') = 0" by auto
  have "vss_undoRecords vss_ex_obj = []" by (simp add: vss_ex_obj_def)
  from vss_commit_undo_incomplete [OF s'(1) this] s'
  show "\<exists>s'. vss_commit_obj 5 vss_ex_obj = Some s' \<and> vss_lockedCount (vss_shm s') = 0 \<and>
     vss_undoChanges s' =
       Some (vss_ex_obj\<lparr>vss_shm := (vss_shm vss_ex_obj)\<lparr>vss_header := vss_header (vss_shm s')\<rparr>\<rparr>)"
    by blast
qed

text \<open>C36: An insertion that has to grow the segment replaces it but keeps the undo records made
  before, whose addresses lie in the old segment: with such records pending, \<^verbatim>\<open>undoChanges\<close>
  afterwards writes through dangling pointers.\<close>

theorem vss_growth_invalidates_undo:
  assumes "vss_obj_wf s" "vss_currentSize (vss_shm s) = vss_capacity (vss_shm s)" "l \<noteq> -1"
    and "r \<in> set (vss_undoRecords s)" "fst r \<le> vss_mapping s"
  shows "\<exists>s'. vss_insert l v vb lk False s = Some s' \<and> vss_undoChanges s' = None"
proof -
  obtain t where t: "vss_growVSS s = Some t" "vss_mapping t = vss_mapping s + 1"
      "vss_undoRecords t = vss_undoRecords s"
    using vss_growVSS_correct [OF assms(1,2)] by blast
  obtain s' where s': "vss_insert l v vb lk False s = Some s'"
    using vss_insert_correct [OF assms(1,3)] by blast
  then have "vss_mapping s' = vss_mapping t" "r \<in> set (vss_undoRecords s')"
    using t assms(2,4) by (auto simp: vss_insert_def vss_on_def Let_def Option.bind_eq_Some_conv)
  with t(2) assms(5) have "undo_all vss_restore (vss_undoRecords s') s' = None"
    by (intro vss_undo_all_stale bexI [of _ r]) simp_all
  with s' show ?thesis by (simp add: vss_undoChanges_def undoChanges_def)
qed

text \<open>A full segment of one slot whose entry was written in the running transaction.\<close>

definition vss_ex_full :: VSS where
  "vss_ex_full = \<lparr>vss_shm = \<lparr>
     vss_header = \<lparr>capacity = 1, currentSize = 1, LWM = 1, numHashBuckets = 1, lockedEntryCount = 1\<rparr>,
     vss_buckets = [0],
     vss_storage = [\<lparr>vss_lbid = 7, vss_verID = 5, vss_vbFlag = False, vss_locked = True, vss_next = -1\<rparr>]\<rparr>,
    vss_tableShmkey = KEYRANGE_VSS_BASE + 1, vss_allocdSize = VSS_INITIAL_SIZE, vss_attached = True,
    vss_mapping = 0, vss_undoRecords = [(0, VssBucketImage 0 (-1))]\<rparr>"

theorem vss_growth_invalidates_undo_witness:
  "\<exists>s'. vss_insert 9 5 False True False vss_ex_full = Some s' \<and> vss_undoChanges s' = None"
proof (rule vss_growth_invalidates_undo [where r = "(0, VssBucketImage 0 (-1))"])
  have "vss_wf_check (vss_shm vss_ex_full)" by code_simp
  then show "vss_obj_wf vss_ex_full"
    by (simp add: vss_obj_wf_def vss_wf_checkI) (simp add: vss_ex_full_def)
qed (simp_all add: vss_ex_full_def)

section \<open>The saved image and the checks\<close>

text \<open>C23: Loading a saved VSS succeeds, whatever the object held before, and yields a well-formed
  table with the saved versions and an exact lock counter.\<close>

theorem vss_load_save:
  assumes "vss_wf g"
  shows "\<exists>s'. vss_load (vss_save g) s = Some (Inr s') \<and> vss_obj_wf s' \<and> vss_locks (vss_shm s') \<and>
    vss_abs (vss_shm s') = vss_abs g"
  using assms by (rule vss_load_save_correct)

theorem vss_load_save_witness:
  "\<exists>s'. vss_load (vss_save vss_ex) vss_ex_full = Some (Inr s') \<and> vss_obj_wf s' \<and> vss_locks (vss_shm s') \<and>
    vss_abs (vss_shm s') = vss_abs vss_ex"
  by (rule vss_load_save) (rule vss_ex_wf)

text \<open>On a well-formed segment whose version-buffer entries the VBBM knows,
  \<^verbatim>\<open>VSS::checkConsistency\<close> returns normally exactly when no version of a block is held
  twice, and throws otherwise.\<close>

lemma vss_checkConsistency_decides:
  assumes "vss_wf g"
    and "\<forall>x \<in> set_mset (vss_abs g). vv_vb x \<longrightarrow> vbbm_lookup (vv_lbid x) (vv_ver x) = Some (Inr 0)"
  shows "vss_checkConsistency vbbm_lookup g = Some (if vss_unique g then Inr ()
    else Inl (Logic_error ''VSS::checkConsistency(): Duplicate entry found''))"
  using assms by (rule vss_checkConsistency_correct)

lemma vss_checkConsistency_decides_witness:
  "vss_unique vss_ex \<and>
   vss_checkConsistency (\<lambda>l v. Some (Inr (if l = 7 \<and> v = 3 then 0 else -1))) vss_ex =
     Some (if vss_unique vss_ex then Inr ()
       else Inl (Logic_error ''VSS::checkConsistency(): Duplicate entry found''))"
proof
  show "vss_unique vss_ex"
    by (simp add: vss_unique_def keys_unique_def vss_ex_def vss_used_def All_less_Suc)
qed (rule vss_checkConsistency_decides, simp_all add: vss_ex_wf vss_ex_abs)

text \<open>\<^verbatim>\<open>VSS::isTooOld\<close> starts its minimum at 0, so on a table of non-negative versions it
  is false for every non-negative version, also when every version of the block is newer.\<close>

lemma vss_isTooOld_constant:
  assumes "vss_wf g" "l \<noteq> -1" "\<forall>x \<in> set_mset (vss_abs g). 0 \<le> vv_ver x" "0 \<le> v"
  shows "vss_isTooOld l v g = Some False"
  using assms by (rule vss_isTooOld_never)

lemma vss_isTooOld_constant_witness:
  "filter_mset (\<lambda>x. vv_lbid x = 9) (vss_abs vss_ex) = {#(9, 4, False, False)#} \<and>
   vss_isTooOld 9 1 vss_ex = Some False"
  using vss_isTooOld_constant [OF vss_ex_wf, of 9 1] by (simp add: vss_ex_abs)

end
