(* ===== verification/Logical_Partition.thy ===== *)
theory Logical_Partition
  imports Brm_Prelude
begin

text \<open>
  The replica descriptors of \<^verbatim>\<open>logicalpartition.h\<close> and \<^verbatim>\<open>logicalpartition.cpp\<close>:
  \<^verbatim>\<open>DBROOTS_struct\<close>, up to four 16-bit DBRoot numbers with the used ones in front and zeros
  behind, \<^verbatim>\<open>FBO_struct\<close>, the file block offset on each replica, and
  \<^verbatim>\<open>LogicalPartition\<close> with its ordering. The arrays are lists of length four;
  \<open>dbr_list\<close> is the abstract list of replicas.
\<close>

unbundle bit_operations_syntax

type_synonym uint16 = "16 word"
type_synonym uint64 = "64 word"

definition MAX_DATA_REPLICATESIZE :: nat where
  "MAX_DATA_REPLICATESIZE = 4"

section \<open>DBROOTS_struct\<close>

type_synonym DBROOTS_struct = "uint16 list"

definition dbr_zero :: DBROOTS_struct where
  "dbr_zero = [0, 0, 0, 0]"

definition dbr_of_uint64 :: "uint64 \<Rightarrow> DBROOTS_struct" where
  "dbr_of_uint64 r =
    [ucast (r AND 0xFFFF), ucast (drop_bit 16 r AND 0xFFFF),
     ucast (drop_bit 32 r AND 0xFFFF), ucast (drop_bit 48 r AND 0xFFFF)]"

text \<open>A 64-bit left shift: undefined for a count of 64 or more.\<close>

definition shl64 :: "uint64 \<Rightarrow> uint64 \<Rightarrow> uint64 option" where
  "shl64 x n = (if n < 64 then Some (push_bit (unat n) x) else None)"

text \<open>\<^verbatim>\<open>getUintVal\<close> as the compiler groups it: in
  \<^verbatim>\<open>a << 48 + b << 32 + c << 16 + d\<close> the additions bind tighter than the shifts.\<close>

definition dbr_getUintVal :: "DBROOTS_struct \<Rightarrow> uint64 option" where
  "dbr_getUintVal d = do {
     x \<leftarrow> shl64 (ucast (d ! 3)) (48 + ucast (d ! 2));
     y \<leftarrow> shl64 x (32 + ucast (d ! 1));
     shl64 y (16 + ucast (d ! 0))
   }"

fun dbr_size_from :: "nat \<Rightarrow> DBROOTS_struct \<Rightarrow> nat" where
  "dbr_size_from n (x # xs) = (if n < MAX_DATA_REPLICATESIZE \<and> x \<noteq> 0 then dbr_size_from (Suc n) xs else n)"
| "dbr_size_from n [] = n"

definition dbr_size :: "DBROOTS_struct \<Rightarrow> nat" where
  "dbr_size d = dbr_size_from 0 d"

fun dbr_index_from :: "nat \<Rightarrow> uint16 \<Rightarrow> DBROOTS_struct \<Rightarrow> int" where
  "dbr_index_from n r (x # xs) =
    (if n < MAX_DATA_REPLICATESIZE \<and> x \<noteq> 0 then
       (if r = x then int n else dbr_index_from (Suc n) r xs) else -1)"
| "dbr_index_from n r [] = -1"

definition dbr_getDbrIndex :: "uint16 \<Rightarrow> DBROOTS_struct \<Rightarrow> int" where
  "dbr_getDbrIndex r d = (if r \<noteq> 0 then dbr_index_from 0 r d else -1)"

text \<open>The inner loop of \<^verbatim>\<open>remove\<close> on the array from the found index on: move the following
  entries down while they are not zero, then clear the last one moved.\<close>

fun shift_down :: "'a::zero list \<Rightarrow> 'a list" where
  "shift_down (x # y # zs) = (if y = 0 then 0 # y # zs else y # shift_down (y # zs))"
| "shift_down [x] = [0]"
| "shift_down [] = []"

fun dbr_remove_from :: "nat \<Rightarrow> uint16 \<Rightarrow> DBROOTS_struct \<Rightarrow> int \<times> DBROOTS_struct" where
  "dbr_remove_from n r (x # xs) =
    (if x = 0 then (-1, x # xs)
     else if x = r then (int n, shift_down (x # xs))
     else let (i, xs') = dbr_remove_from (Suc n) r xs in (i, x # xs'))"
| "dbr_remove_from n r [] = (-1, [])"

definition dbr_remove :: "uint16 \<Rightarrow> DBROOTS_struct \<Rightarrow> int \<times> DBROOTS_struct" where
  "dbr_remove r d = dbr_remove_from 0 r d"

definition dbr_eq :: "DBROOTS_struct \<Rightarrow> DBROOTS_struct \<Rightarrow> bool" where
  "dbr_eq a b = list_all (\<lambda>n. a ! n = b ! n) [0..<MAX_DATA_REPLICATESIZE]"

definition dbr_less :: "DBROOTS_struct \<Rightarrow> DBROOTS_struct \<Rightarrow> bool" where
  "dbr_less a b \<longleftrightarrow> a ! 0 < b ! 0"

section \<open>FBO_struct\<close>

type_synonym FBO_struct = "32 word list"

definition fbo_zero :: FBO_struct where
  "fbo_zero = [0, 0, 0, 0]"

definition fbo_of :: "32 word \<Rightarrow> FBO_struct" where
  "fbo_of fbo = [fbo, fbo, fbo, fbo]"

definition fbo_remove :: "nat \<Rightarrow> FBO_struct \<Rightarrow> 32 word \<times> FBO_struct" where
  "fbo_remove i f = (f ! i, take i f @ shift_down (drop i f))"

section \<open>LogicalPartition\<close>

record LogicalPartition =
  lp_dbRoot :: DBROOTS_struct
  lp_pp :: "32 word"
  lp_seg :: uint16

definition lp_less :: "LogicalPartition \<Rightarrow> LogicalPartition \<Rightarrow> bool" where
  "lp_less m n \<longleftrightarrow>
    lp_pp m < lp_pp n \<or>
    lp_pp m = lp_pp n \<and> lp_seg m < lp_seg n \<or>
    lp_pp m = lp_pp n \<and> lp_seg m = lp_seg n \<and> dbr_less (lp_dbRoot m) (lp_dbRoot n)"

section \<open>Lemmas\<close>

definition dbr_wf :: "DBROOTS_struct \<Rightarrow> bool" where
  "dbr_wf d \<longleftrightarrow> length d = MAX_DATA_REPLICATESIZE \<and>
    (\<exists>n. d = takeWhile (\<lambda>x. x \<noteq> 0) d @ replicate n 0)"

definition dbr_list :: "DBROOTS_struct \<Rightarrow> uint16 list" where
  "dbr_list d = takeWhile (\<lambda>x. x \<noteq> 0) d"

lemma shift_down_zeros: "shift_down (x # replicate n 0) = replicate (Suc n) (0 :: 'a::zero)"
  by (cases n) simp_all

lemma shift_down_list:
  "0 \<notin> set xs \<Longrightarrow> shift_down (x # xs @ replicate n 0) = xs @ replicate (Suc n) (0 :: 'a::zero)"
proof (induction xs arbitrary: x)
  case Nil
  then show ?case using shift_down_zeros [of x n] by simp
next
  case (Cons y ys)
  then show ?case by auto
qed

lemma dbr_remove_from_list:
  "0 \<notin> set xs \<Longrightarrow> dbr_remove_from k r (xs @ replicate n 0) =
    (if r \<in> set xs then (int (k + length (takeWhile (\<lambda>x. x \<noteq> r) xs)), remove1 r xs @ replicate (Suc n) 0)
     else (-1, xs @ replicate n 0))"
proof (induction xs arbitrary: k)
  case Nil
  then show ?case by (cases n) simp_all
next
  case (Cons x xs)
  then show ?case by (auto simp: shift_down_list)
qed

lemma takeWhile_zeros: "0 \<notin> set xs \<Longrightarrow> takeWhile (\<lambda>x. x \<noteq> 0) (xs @ replicate n (0::'a::zero)) = xs"
  by (induction xs) (auto simp: takeWhile_eq_Nil_iff hd_replicate)

lemma dbr_wfE:
  assumes "dbr_wf d"
  obtains xs n where "d = xs @ replicate n 0" "dbr_list d = xs" "0 \<notin> set xs"
    "length xs + n = MAX_DATA_REPLICATESIZE"
proof -
  obtain n where n: "d = takeWhile (\<lambda>x. x \<noteq> 0) d @ replicate n 0"
    using assms by (auto simp: dbr_wf_def)
  have "0 \<notin> set (dbr_list d)" by (auto simp: dbr_list_def dest: set_takeWhileD)
  moreover have "length (dbr_list d) + n = MAX_DATA_REPLICATESIZE"
    using assms arg_cong [OF n, of length] by (simp add: dbr_wf_def dbr_list_def)
  ultimately show thesis using n by (intro that [of "dbr_list d" n]) (simp_all add: dbr_list_def)
qed

lemma dbr_wfI:
  assumes "0 \<notin> set xs" "length xs + n = MAX_DATA_REPLICATESIZE"
  shows "dbr_wf (xs @ replicate n 0)" "dbr_list (xs @ replicate n 0) = xs"
  using assms by (auto simp: dbr_wf_def dbr_list_def takeWhile_zeros)

lemma dbr_remove_correct:
  assumes "dbr_wf d"
  shows "dbr_wf (snd (dbr_remove r d))" "dbr_list (snd (dbr_remove r d)) = remove1 r (dbr_list d)"
    and "fst (dbr_remove r d) = (if r \<in> set (dbr_list d)
      then int (length (takeWhile (\<lambda>x. x \<noteq> r) (dbr_list d))) else -1)"
proof -
  obtain xs n where d: "d = xs @ replicate n 0" "dbr_list d = xs" "0 \<notin> set xs"
      "length xs + n = MAX_DATA_REPLICATESIZE"
    using assms by (rule dbr_wfE)
  have r1: "0 \<notin> set (remove1 r xs)" using d(3) notin_set_remove1 by metis
  have len: "length (remove1 r xs) + (if r \<in> set xs then Suc n else n) = MAX_DATA_REPLICATESIZE"
  proof (cases "r \<in> set xs")
    case True
    then have "0 < length xs" by (rule length_pos_if_in_set)
    with True d(4) show ?thesis by (simp only: length_remove1 if_True)
  qed (simp add: remove1_idem d(4))
  note wf = dbr_wfI [OF r1 len]
  have rm: "dbr_remove r d = (if r \<in> set xs
      then (int (length (takeWhile (\<lambda>x. x \<noteq> r) xs)), remove1 r xs @ replicate (Suc n) 0)
      else (-1, xs @ replicate n 0))"
    unfolding dbr_remove_def d(1) dbr_remove_from_list [OF d(3)] by simp
  show "dbr_wf (snd (dbr_remove r d))" "dbr_list (snd (dbr_remove r d)) = remove1 r (dbr_list d)"
    "fst (dbr_remove r d) = (if r \<in> set (dbr_list d)
      then int (length (takeWhile (\<lambda>x. x \<noteq> r) (dbr_list d))) else -1)"
    using wf by (simp_all add: rm d(2) remove1_idem split: if_splits)
qed

text \<open>The three nested shifts of \<^verbatim>\<open>getUintVal\<close> move every bit out of the word.\<close>

lemma push_bit_out: "64 \<le> n \<Longrightarrow> push_bit n (x :: uint64) = 0"
  by (rule bit_word_eqI) (simp add: bit_push_bit_iff)

lemma unat_add_ucast16:
  assumes "n < 2 ^ 16"
  shows "unat (word_of_nat n + ucast (w :: uint16) :: uint64) = n + unat w"
proof -
  have "unat w < 2 ^ 16" using unsigned_less [of w] by simp
  with assms show ?thesis
    by (simp add: unat_word_ariths unsigned_ucast_eq unsigned_of_nat take_bit_nat_eq_self)
qed

lemma dbr_getUintVal_zero:
  assumes "dbr_getUintVal d = Some v"
  shows "v = 0"
proof -
  define a b c where "a = (48 + ucast (d ! 2) :: uint64)" and "b = (32 + ucast (d ! 1) :: uint64)"
    and "c = (16 + ucast (d ! 0) :: uint64)"
  have lt: "a < 64" "b < 64" "c < 64"
    and v: "v = push_bit (unat c) (push_bit (unat b) (push_bit (unat a) (ucast (d ! 3))))"
    using assms
    by (auto simp: dbr_getUintVal_def shl64_def a_def b_def c_def Option.bind_eq_Some_conv split: if_splits)
  have "48 \<le> unat a" "32 \<le> unat b"
    using unat_add_ucast16 [of 48 "d ! 2"] unat_add_ucast16 [of 32 "d ! 1"] by (simp_all add: a_def b_def)
  then have "64 \<le> unat c + (unat b + unat a)" by linarith
  with v show ?thesis by (simp add: push_bit_push_bit push_bit_out)
qed

end
