(* ===== verification/Byte_Stream.thy ===== *)
theory Byte_Stream
  imports Brm_Hasher Brm_Prelude
begin

text \<open>
  Fixed-width integers and their little-endian bytes, as the save files of the Block Resolution
  Manager hold them, and the reads and writes at an offset of a file.
\<close>

section \<open>32-bit conversions\<close>

definition s32 :: "int \<Rightarrow> int" where
  "s32 n = signed_take_bit 31 n"

definition u32 :: "int \<Rightarrow> int" where
  "u32 n = take_bit 32 n"

lemma u32_bounds [simp]: "0 \<le> u32 n" "u32 n < 2 ^ 32" "u32 n < 4294967296"
  using take_bit_int_less_exp [of 32 n] by (simp_all add: u32_def)

lemma s32_id: "-(2 ^ 31) \<le> n \<Longrightarrow> n < 2 ^ 31 \<Longrightarrow> s32 n = n"
  by (simp add: s32_def signed_take_bit_int_eq_self)

lemma u32_id: "0 \<le> n \<Longrightarrow> n < 2 ^ 32 \<Longrightarrow> u32 n = n"
  by (simp add: u32_def take_bit_int_eq_self)

lemma s32_take_bit: "s32 (take_bit 32 n) = s32 n"
  by (simp add: s32_def signed_take_bit_take_bit)

lemma take_bit_s32: "take_bit 32 (s32 n) = take_bit 32 n"
  by (simp add: s32_def take_bit_signed_take_bit)

section \<open>Little-endian bytes\<close>

primrec le_bytes :: "nat \<Rightarrow> int \<Rightarrow> byte list" where
  "le_bytes 0 x = []"
| "le_bytes (Suc n) x = word_of_int x # le_bytes n (drop_bit 8 x)"

primrec int_of_bytes :: "byte list \<Rightarrow> int" where
  "int_of_bytes [] = 0"
| "int_of_bytes (b # bs) = uint b + 256 * int_of_bytes bs"

lemma length_le_bytes [simp]: "length (le_bytes n x) = n"
  by (induction n arbitrary: x) simp_all

lemma int_of_le_bytes: "int_of_bytes (le_bytes n x) = take_bit (8 * n) x"
proof (induction n arbitrary: x)
  case (Suc n)
  have "x mod (2 ^ 8 * 2 ^ (8 * n)) = 2 ^ 8 * (x div 2 ^ 8 mod 2 ^ (8 * n)) + x mod 2 ^ 8"
    by (rule zmod_zmult2_eq) simp
  then have "take_bit (8 * Suc n) x = take_bit 8 x + 256 * take_bit (8 * n) (drop_bit 8 x)"
    by (simp add: take_bit_eq_mod drop_bit_eq_div power_add)
  with Suc show ?case by (simp add: uint_word_of_int_eq)
qed simp

text \<open>Reading an integer of \<open>n\<close> bytes from a stream; \<open>None\<close> when it is too short.\<close>

definition read_int :: "nat \<Rightarrow> byte list \<Rightarrow> (int \<times> byte list) option" where
  "read_int n bs = (if n \<le> length bs then Some (int_of_bytes (take n bs), drop n bs) else None)"

lemma read_le_bytes [simp]: "read_int n (le_bytes n x @ bs) = Some (take_bit (8 * n) x, bs)"
  by (simp add: read_int_def int_of_le_bytes)

section \<open>Files\<close>

text \<open>Writing at an offset; a gap before it reads as zero.\<close>

definition file_write :: "nat \<Rightarrow> byte list \<Rightarrow> byte list \<Rightarrow> byte list" where
  "file_write off bs f =
    (let f' = f @ replicate (off - length f) 0 in take off f' @ bs @ drop (off + length bs) f')"

definition file_read :: "nat \<Rightarrow> nat \<Rightarrow> byte list \<Rightarrow> byte list" where
  "file_read off n f = take n (drop off f)"

lemma length_file_write: "length (file_write off bs f) = max (length f) (off + length bs)"
  by (auto simp: file_write_def Let_def)

lemma file_read_write_same: "file_read off (length bs) (file_write off bs f) = bs"
  by (simp add: file_read_def file_write_def Let_def)

lemma file_read_write_before:
  assumes "a + n \<le> off" "a + n \<le> length f"
  shows "file_read a n (file_write off bs f) = file_read a n f"
proof -
  have "take (a + n) (file_write off bs f) = take (a + n) f"
    using assms by (simp add: file_write_def Let_def min_def)
  then have "drop a (take (a + n) (file_write off bs f)) = drop a (take (a + n) f)" by simp
  then show ?thesis by (simp add: file_read_def drop_take)
qed

lemma file_read_write_after:
  assumes "off + length bs \<le> a" "off \<le> length f"
  shows "file_read a n (file_write off bs f) = file_read a n f"
proof -
  have "drop a (file_write off bs f) = drop a f"
    using assms by (simp add: file_write_def Let_def)
  then show ?thesis by (simp add: file_read_def)
qed

end
