(* ===== verification/Vbbm.thy ===== *)
theory Vbbm
  imports Vss_Image Vss_Undo Logical_Partition Byte_Stream
begin

text \<open>
  The Version Buffer Block Map, \<^verbatim>\<open>src/versioning/BRM/vbbm.h\<close> and \<^verbatim>\<open>vbbm.cpp\<close>: where
  in the version buffer files each saved version of a block is stored. It is a hash table like
  the VSS, keyed by block and version, and it also holds one descriptor per version buffer file
  with the circular allocation position of the file.

  The conventions are those of \<open>Vss\<close>: \<open>vbbm_segment\<close> is the shared-memory segment,
  \<open>VBBM\<close> the object, an operation on the segment returns the images it recorded. The
  configuration value \<^verbatim>\<open>VersionBuffer/VersionBufferFileSize\<close> and the replica count of the
  OAM cache are arguments.
\<close>

section \<open>Data\<close>

record VBFileMetadata =
  vf_OID :: OID_t
  vf_fileSize :: int
  vf_nextOffset :: int

record VBBMEntry =
  vb_lbid :: LBID_t
  vb_vbOids :: DBROOTS_struct
  vb_vbFbo :: FBO_struct
  vb_verID :: VER_t
  vb_next :: int

record VBShmsegHeader =
  nFiles :: int
  vbCapacity :: int
  vbCurrentSize :: int
  vbLWM :: int
  vbNumHashBuckets :: int

record vbbm_segment =
  vb_header :: VBShmsegHeader
  vb_files :: "VBFileMetadata list"
  vb_buckets :: "int list"
  vb_storage :: "VBBMEntry list"

datatype vbbm_image =
    VbHeaderImage VBShmsegHeader
  | VbSizeImage int
  | VbEntryImage nat VBBMEntry
  | VbBucketImage nat int
  | VbFileImage nat VBFileMetadata

record VBBM =
  vbbm_shm :: vbbm_segment
  vbbm_tableShmkey :: int
  vbbm_allocdSize :: int
  vbbm_attached :: bool
  vbbm_mapping :: nat
  vbbm_undoRecords :: "(nat \<times> vbbm_image) list"

text \<open>Sizes on LP64: 40 bytes for a \<^verbatim>\<open>VBBMEntry\<close> (8 + 8 + 16 + 4 + 4), 12 for a
  file descriptor, 20 for the header.\<close>

definition sizeof_VBBMEntry :: int where
  "sizeof_VBBMEntry = 40"

definition sizeof_VBFileMetadata :: int where
  "sizeof_VBFileMetadata = 12"

definition sizeof_VBShmsegHeader :: int where
  "sizeof_VBShmsegHeader = 20"

definition VBSTORAGE_INITIAL_COUNT :: int where
  "VBSTORAGE_INITIAL_COUNT = 100000"

definition VBSTORAGE_INCREMENT_COUNT :: int where
  "VBSTORAGE_INCREMENT_COUNT = 10000"

definition VBTABLE_INITIAL_COUNT :: int where
  "VBTABLE_INITIAL_COUNT = 25000"

definition VBTABLE_INCREMENT_COUNT :: int where
  "VBTABLE_INCREMENT_COUNT = 2500"

definition VBBM_INCREMENT :: int where
  "VBBM_INCREMENT = VBTABLE_INCREMENT_COUNT * 4 + VBSTORAGE_INCREMENT_COUNT * sizeof_VBBMEntry"

definition VBBM_SIZE :: "int \<Rightarrow> int \<Rightarrow> int" where
  "VBBM_SIZE files entries = entries * sizeof_VBBMEntry + entries div 4 * 4 +
    files * sizeof_VBFileMetadata + sizeof_VBShmsegHeader"

definition vbbm_initial_size :: "int \<Rightarrow> int" where
  "vbbm_initial_size nf = sizeof_VBShmsegHeader + nf * sizeof_VBFileMetadata +
    VBSTORAGE_INITIAL_COUNT * sizeof_VBBMEntry + VBTABLE_INITIAL_COUNT * 4"

abbreviation vb_capacity :: "vbbm_segment \<Rightarrow> int" where
  "vb_capacity g \<equiv> vbCapacity (vb_header g)"

abbreviation vb_currentSize :: "vbbm_segment \<Rightarrow> int" where
  "vb_currentSize g \<equiv> vbCurrentSize (vb_header g)"

abbreviation vb_LWM :: "vbbm_segment \<Rightarrow> int" where
  "vb_LWM g \<equiv> vbLWM (vb_header g)"

abbreviation vb_nBuckets :: "vbbm_segment \<Rightarrow> int" where
  "vb_nBuckets g \<equiv> vbNumHashBuckets (vb_header g)"

definition vb_used :: "VBBMEntry \<Rightarrow> bool" where
  "vb_used e \<longleftrightarrow> vb_lbid e \<noteq> -1"

definition vb_set_next :: "int \<Rightarrow> VBBMEntry \<Rightarrow> VBBMEntry" where
  "vb_set_next n e = e\<lparr>vb_next := n\<rparr>"

definition vb_kill :: "VBBMEntry \<Rightarrow> VBBMEntry" where
  "vb_kill e = e\<lparr>vb_lbid := -1\<rparr>"

text \<open>The hash over the concatenated bytes of \<^verbatim>\<open>lbid\<close> and \<^verbatim>\<open>verID\<close>.\<close>

definition vb_hash :: "LBID_t \<Rightarrow> VER_t \<Rightarrow> int \<Rightarrow> nat" where
  "vb_hash l v n = nat (uint (hasher (bytes64 l @ bytes32 v)) mod n)"

definition vb_bkt :: "nat \<Rightarrow> VBBMEntry \<Rightarrow> nat" where
  "vb_bkt n e = vb_hash (vb_lbid e) (vb_verID e) (int n)"

section \<open>Undo records\<close>

primrec vb_restore_image :: "vbbm_image \<Rightarrow> vbbm_segment \<Rightarrow> vbbm_segment" where
  "vb_restore_image (VbHeaderImage h) g = g\<lparr>vb_header := h\<rparr>"
| "vb_restore_image (VbSizeImage n) g = g\<lparr>vb_header := vb_header g\<lparr>vbCurrentSize := n\<rparr>\<rparr>"
| "vb_restore_image (VbEntryImage i e) g = g\<lparr>vb_storage := (vb_storage g)[i := e]\<rparr>"
| "vb_restore_image (VbBucketImage b n) g = g\<lparr>vb_buckets := (vb_buckets g)[b := n]\<rparr>"
| "vb_restore_image (VbFileImage i f) g = g\<lparr>vb_files := (vb_files g)[i := f]\<rparr>"

definition vb_restore :: "nat \<times> vbbm_image \<Rightarrow> VBBM \<Rightarrow> VBBM option" where
  "vb_restore r s =
    (if fst r = vbbm_mapping s then Some (s\<lparr>vbbm_shm := vb_restore_image (snd r) (vbbm_shm s)\<rparr>)
     else None)"

definition vb_set_undo :: "(nat \<times> vbbm_image) list \<Rightarrow> VBBM \<Rightarrow> VBBM" where
  "vb_set_undo l s = s\<lparr>vbbm_undoRecords := l\<rparr>"

definition vbbm_undoChanges :: "VBBM \<Rightarrow> VBBM option" where
  "vbbm_undoChanges = undoChanges vb_restore vbbm_undoRecords vb_set_undo"

definition vbbm_confirmChanges :: "VBBM \<Rightarrow> VBBM" where
  "vbbm_confirmChanges = confirmChanges vb_set_undo"

definition vbbm_on ::
  "(vbbm_segment \<Rightarrow> (vbbm_segment \<times> vbbm_image list) option) \<Rightarrow> VBBM \<Rightarrow> VBBM option" where
  "vbbm_on f s = do {
     (g, imgs) \<leftarrow> f (vbbm_shm s);
     Some (s\<lparr>vbbm_shm := g,
             vbbm_undoRecords := vbbm_undoRecords s @ map (Pair (vbbm_mapping s)) imgs\<rparr>)
   }"

section \<open>Growth and insertion\<close>

text \<open>\<^verbatim>\<open>VBBM::setCurrentFileSize\<close>: the argument is the value of the configuration key,
  \<open>None\<close> when \<^verbatim>\<open>getConfig\<close> throws. The member it sets is read only right after a
  call, so the model passes it as a result.\<close>

definition vbbm_setCurrentFileSize :: "int option \<Rightarrow> int res" where
  "vbbm_setCurrentFileSize cfg =
    (case cfg of
       None \<Rightarrow> Inl (Invalid_argument
         ''VBBM: Missing a VersionBuffer/VersionBufferFileSize key in the config file'')
     | Some ltmp \<Rightarrow>
         if ltmp < 1 then Inl (Invalid_argument
           ''VBBM: Config error: VersionBuffer/VersionBufferFileSize must be positive'')
         else Inr ltmp)"

text \<open>A segment in zero-filled memory after the loops that set every bucket head and every
  \<^verbatim>\<open>lbid\<close> to \<open>-1\<close>.\<close>

definition vb_zero_file :: VBFileMetadata where
  "vb_zero_file = \<lparr>vf_OID = 0, vf_fileSize = 0, vf_nextOffset = 0\<rparr>"

definition vb_zero_entry :: VBBMEntry where
  "vb_zero_entry =
    \<lparr>vb_lbid = -1, vb_vbOids = dbr_zero, vb_vbFbo = fbo_zero, vb_verID = 0, vb_next = 0\<rparr>"

definition vb_fresh_segment :: "VBFileMetadata list \<Rightarrow> int \<Rightarrow> int \<Rightarrow> vbbm_segment" where
  "vb_fresh_segment fs cap nb = \<lparr>
     vb_header = \<lparr>nFiles = int (length fs), vbCapacity = cap, vbCurrentSize = 0, vbLWM = 0,
                  vbNumHashBuckets = nb\<rparr>,
     vb_files = fs,
     vb_buckets = replicate (nat nb) (-1),
     vb_storage = replicate (nat cap) vb_zero_entry\<rparr>"

definition vbbm_initShmseg :: "int option \<Rightarrow> nat \<Rightarrow> vbbm_segment res" where
  "vbbm_initShmseg cfg nf =
    map_sum id (\<lambda>_. vb_fresh_segment (replicate nf vb_zero_file) VBSTORAGE_INITIAL_COUNT
                      VBTABLE_INITIAL_COUNT)
      (vbbm_setCurrentFileSize cfg)"

text \<open>\<^verbatim>\<open>VBBM::_insert\<close>. Unlike the VSS it leaves \<^verbatim>\<open>vbLWM\<close> at the slot it fills.\<close>

definition vbbm_insert0 ::
  "VBBMEntry \<Rightarrow> bool \<Rightarrow> vbbm_segment \<Rightarrow> (vbbm_segment \<times> vbbm_image list) option" where
  "vbbm_insert0 e loading g = do {
     let hashIndex = vb_hash (vb_lbid e) (vb_verID e) (vb_nBuckets g);
     insertIndex \<leftarrow> free_from vb_used (vb_storage g) (nat (vb_LWM g));
     if hashIndex < length (vb_buckets g) then
       Some (g\<lparr>vb_header := vb_header g\<lparr>vbLWM := int insertIndex\<rparr>,
               vb_storage := (vb_storage g)
                 [insertIndex := vb_set_next (vb_buckets g ! hashIndex) e],
               vb_buckets := (vb_buckets g)[hashIndex := int insertIndex]\<rparr>,
             if loading then []
             else [VbHeaderImage (vb_header g),
                   VbEntryImage insertIndex (vb_storage g ! insertIndex),
                   VbBucketImage hashIndex (vb_buckets g ! hashIndex)])
     else None
   }"

text \<open>The rest of \<^verbatim>\<open>VBBM::insert\<close>, after the check for a resize.\<close>

definition vbbm_insert_seg ::
  "VBBMEntry \<Rightarrow> bool \<Rightarrow> vbbm_segment \<Rightarrow> (vbbm_segment \<times> vbbm_image list) option" where
  "vbbm_insert_seg e loading g = do {
     (g1, imgs) \<leftarrow> vbbm_insert0 e loading g;
     let h = vb_header g1;
     Some (g1\<lparr>vb_header := h\<lparr>vbCurrentSize := vbCurrentSize h + 1\<rparr>\<rparr>,
           if loading then imgs else imgs @ [VbSizeImage (vbCurrentSize h)])
   }"

text \<open>The 32-bit words that follow the file descriptors in the segment: the bucket heads and
  the entries. \<^verbatim>\<open>growVBBM\<close> raises \<^verbatim>\<open>nFiles\<close> before \<^verbatim>\<open>copyVBBM\<close> copies
  that many descriptors, so the new descriptors start out as a copy of these words.\<close>

definition vb_entry_words :: "VBBMEntry \<Rightarrow> int list" where
  "vb_entry_words e =
    [u32 (vb_lbid e), u32 (drop_bit 32 (vb_lbid e)),
     uint (vb_vbOids e ! 0) + 2 ^ 16 * uint (vb_vbOids e ! 1),
     uint (vb_vbOids e ! 2) + 2 ^ 16 * uint (vb_vbOids e ! 3),
     uint (vb_vbFbo e ! 0), uint (vb_vbFbo e ! 1), uint (vb_vbFbo e ! 2), uint (vb_vbFbo e ! 3),
     u32 (vb_verID e), u32 (vb_next e)]"

definition vb_trailing_words :: "vbbm_segment \<Rightarrow> int list" where
  "vb_trailing_words g = map u32 (vb_buckets g) @ concat (map vb_entry_words (vb_storage g))"

fun vb_files_of_words :: "nat \<Rightarrow> int list \<Rightarrow> VBFileMetadata list option" where
  "vb_files_of_words 0 ws = Some []"
| "vb_files_of_words (Suc n) (a # b # c # ws) =
    map_option ((#) \<lparr>vf_OID = s32 a, vf_fileSize = b, vf_nextOffset = c\<rparr>) (vb_files_of_words n ws)"
| "vb_files_of_words (Suc n) ws = None"

primrec vbbm_rehash :: "VBBMEntry list \<Rightarrow> vbbm_segment \<Rightarrow> vbbm_segment option" where
  "vbbm_rehash [] d = Some d"
| "vbbm_rehash (e # es) d =
    (if vb_used e then do { (d', _) \<leftarrow> vbbm_insert0 e True d; vbbm_rehash es d' }
     else vbbm_rehash es d)"

text \<open>\<^verbatim>\<open>VBBM::copyVBBM\<close>: the first \<^verbatim>\<open>vbCurrentSize\<close> slots are walked. \<open>n\<close>
  is the number of file descriptors added.\<close>

definition vbbm_copyVBBM :: "vbbm_segment \<Rightarrow> nat \<Rightarrow> int \<Rightarrow> int \<Rightarrow> vbbm_segment option" where
  "vbbm_copyVBBM g n cap nb = do {
     fs \<leftarrow> vb_files_of_words n (vb_trailing_words g);
     let d = vb_fresh_segment (vb_files g @ fs) cap nb;
     vbbm_rehash (take (nat (vb_currentSize g)) (vb_storage g))
       (d\<lparr>vb_header := vb_header d\<lparr>vbCurrentSize := vb_currentSize g\<rparr>\<rparr>)
   }"

text \<open>\<^verbatim>\<open>VBBM::growVBBM\<close> on a mapped segment, and the whole function. On an object whose
  segment does not exist yet (\<^verbatim>\<open>allocdSize == 0\<close>) it creates one.\<close>

definition vbbm_resize :: "nat \<Rightarrow> VBBM \<Rightarrow> VBBM option" where
  "vbbm_resize addAFile s = do {
     let g = vbbm_shm s;
     let allocSize = (if addAFile = 0 then vbbm_allocdSize s + VBBM_INCREMENT
                      else vbbm_allocdSize s + sizeof_VBFileMetadata * int addAFile);
     let newshmkey = chooseShmkey KEYRANGE_VBBM_BASE (vbbm_tableShmkey s);
     let cap = (if addAFile = 0 then vb_capacity g + VBSTORAGE_INCREMENT_COUNT else vb_capacity g);
     let nb = (if addAFile = 0 then vb_nBuckets g + VBTABLE_INCREMENT_COUNT else vb_nBuckets g);
     g1 \<leftarrow> vbbm_copyVBBM g addAFile cap nb;
     Some (s\<lparr>vbbm_shm := g1,
             vbbm_mapping := vbbm_mapping s + 1,
             vbbm_undoRecords := [],
             vbbm_tableShmkey := newshmkey,
             vbbm_allocdSize := allocSize\<rparr>)
   }"

definition vbbm_growVBBM :: "int option \<Rightarrow> nat \<Rightarrow> VBBM \<Rightarrow> VBBM res option" where
  "vbbm_growVBBM cfg addAFile s =
    (if vbbm_allocdSize s \<noteq> 0 then
       if vbbm_attached s then map_option Inr (vbbm_resize addAFile s) else None
     else if vbbm_attached s then None
     else let nf = (if addAFile \<noteq> 0 then 1 else 0 :: nat)
          in Some (map_sum id (\<lambda>g. s\<lparr>vbbm_shm := g,
               vbbm_attached := True,
               vbbm_mapping := vbbm_mapping s + 1,
               vbbm_tableShmkey := chooseShmkey KEYRANGE_VBBM_BASE (vbbm_tableShmkey s),
               vbbm_allocdSize := vbbm_initial_size (int nf)\<rparr>) (vbbm_initShmseg cfg nf)))"

definition vbbm_insert ::
  "LBID_t \<Rightarrow> VER_t \<Rightarrow> DBROOTS_struct \<Rightarrow> FBO_struct \<Rightarrow> bool \<Rightarrow> VBBM \<Rightarrow> VBBM option" where
  "vbbm_insert l v vbOids vbFbo loading s = do {
     let entry = \<lparr>vb_lbid = l, vb_vbOids = vbOids, vb_vbFbo = vbFbo, vb_verID = v, vb_next = -1\<rparr>;
     s1 \<leftarrow> (if vb_currentSize (vbbm_shm s) = vb_capacity (vbbm_shm s) then vbbm_resize 0 s else Some s);
     vbbm_on (vbbm_insert_seg entry loading) s1
   }"

definition vbbm_growForLoad :: "int \<Rightarrow> VBBM \<Rightarrow> VBBM" where
  "vbbm_growForLoad count0 s =
    (let fs = (if vbbm_attached s then vb_files (vbbm_shm s) else []);
         n0 = (if count0 < VBSTORAGE_INITIAL_COUNT then VBSTORAGE_INITIAL_COUNT else count0);
         count = (if n0 mod VBSTORAGE_INCREMENT_COUNT \<noteq> 0
                  then (n0 div VBSTORAGE_INCREMENT_COUNT + 1) * VBSTORAGE_INCREMENT_COUNT
                  else n0)
     in s\<lparr>vbbm_shm := vb_fresh_segment fs count (count div 4),
          vbbm_attached := True,
          vbbm_mapping := vbbm_mapping s + 1,
          vbbm_undoRecords := [],
          vbbm_tableShmkey := chooseShmkey KEYRANGE_VBBM_BASE (vbbm_tableShmkey s),
          vbbm_allocdSize := VBBM_SIZE (int (length fs)) count\<rparr>)"

text \<open>\<^verbatim>\<open>VBBM::clear\<close>. The undo records stay, as they do in \<^verbatim>\<open>VSS::clear\<close>.\<close>

definition vbbm_clear :: "int option \<Rightarrow> VBBM \<Rightarrow> VBBM res option" where
  "vbbm_clear cfg s =
    (case vbbm_setCurrentFileSize cfg of
       Inl err \<Rightarrow> Some (Inl err)
     | Inr fsz \<Rightarrow>
         let newFiles = map (\<lambda>f. f\<lparr>vf_fileSize := u32 (fsz div BLOCK_SIZE), vf_nextOffset := 0\<rparr>)
               (vb_files (vbbm_shm s));
             newshmkey = chooseShmkey KEYRANGE_VBBM_BASE (vbbm_tableShmkey s)
         in if vbbm_attached s \<and> vbbm_tableShmkey s \<noteq> newshmkey then
              Some (Inr (s\<lparr>
                vbbm_shm := vb_fresh_segment newFiles VBSTORAGE_INITIAL_COUNT VBTABLE_INITIAL_COUNT,
                vbbm_mapping := vbbm_mapping s + 1,
                vbbm_tableShmkey := newshmkey,
                vbbm_allocdSize := vbbm_initial_size (int (length newFiles))\<rparr>))
            else None)"

text \<open>\<^verbatim>\<open>VBBM::addVBFileIfNotExists\<close>: file \<open>i\<close> has OID \<open>i + 1\<close>.\<close>

definition vb_new_file :: "int \<Rightarrow> nat \<Rightarrow> VBFileMetadata" where
  "vb_new_file fsz i =
    \<lparr>vf_OID = int i + 1, vf_fileSize = u32 (fsz div BLOCK_SIZE), vf_nextOffset = 0\<rparr>"

definition vbbm_addVBFileIfNotExists :: "int option \<Rightarrow> OID_t \<Rightarrow> VBBM \<Rightarrow> (int \<times> VBBM) res option" where
  "vbbm_addVBFileIfNotExists cfg vbOID s =
    (let len = nFiles (vb_header (vbbm_shm s))
     in if len < vbOID then
          (case vbbm_setCurrentFileSize cfg of
             Inl err \<Rightarrow> Some (Inl err)
           | Inr fsz \<Rightarrow> do {
               s1 \<leftarrow> vbbm_resize (nat (vbOID - len)) s;
               let g = vbbm_shm s1;
               Some (Inr (u32 (vbOID - 1),
                 s1\<lparr>vbbm_shm := g\<lparr>vb_files :=
                   take (nat len) (vb_files g) @ map (vb_new_file fsz) [nat len..<nat vbOID] @
                   drop (nat vbOID) (vb_files g)\<rparr>\<rparr>))
             })
        else Some (Inr (u32 (vbOID - 1), s)))"

section \<open>Lookup and removal\<close>

definition vbbm_getIndex :: "LBID_t \<Rightarrow> VER_t \<Rightarrow> vbbm_segment \<Rightarrow> (int \<times> int \<times> nat) option" where
  "vbbm_getIndex l v g = do {
     let bucket = vb_hash l v (vb_nBuckets g);
     if bucket < length (vb_buckets g) then do {
       r \<leftarrow> scan vb_next (vb_storage g)
         (\<lambda>prev k e. if vb_lbid e = l \<and> vb_verID e = v then Return (int k, prev)
                     else Continue (int k)) (-1) (vb_buckets g ! bucket);
       Some (case r of Return (k, prev) \<Rightarrow> (k, prev, bucket) | Continue prev \<Rightarrow> (-1, prev, bucket))
     } else None
   }"

text \<open>The two overloads of \<^verbatim>\<open>VBBM::lookup\<close>. The first returns the entry it found; the second
  takes the present values of its reference parameters and returns the code with their new
  values.\<close>

definition vbbm_lookup_entry :: "LBID_t \<Rightarrow> VER_t \<Rightarrow> vbbm_segment \<Rightarrow> nat option res option" where
  "vbbm_lookup_entry l v g =
    (if l < 0 then Some (Inl (Invalid_argument ''VBBM::lookup(): lbid must be >= 0''))
     else if v < 0 then Some (Inl (Invalid_argument ''VBBM::lookup(): verID must be > 1)''))
     else do {
       (index, prev, bucket) \<leftarrow> vbbm_getIndex l v g;
       Some (Inr (if index = -1 then None else Some (nat index)))
     })"

definition vbbm_lookup ::
  "LBID_t \<Rightarrow> VER_t \<Rightarrow> DBROOTS_struct \<Rightarrow> FBO_struct \<Rightarrow> vbbm_segment
    \<Rightarrow> (int \<times> DBROOTS_struct \<times> FBO_struct) res option" where
  "vbbm_lookup l v vbOids fbo g =
    (if l < 0 then Some (Inl (Invalid_argument ''VBBM::lookup(): lbid must be >= 0''))
     else if v < 0 then Some (Inl (Invalid_argument ''VBBM::lookup(): verID must be > 1)''))
     else do {
       (index, prev, bucket) \<leftarrow> vbbm_getIndex l v g;
       Some (Inr (if index = -1 then (-1, vbOids, fbo)
                  else let e = vb_storage g ! nat index in (0, vb_vbOids e, vb_vbFbo e)))
     })"

definition vbbm_removeEntry ::
  "LBID_t \<Rightarrow> VER_t \<Rightarrow> vbbm_segment \<Rightarrow> (vbbm_segment \<times> vbbm_image list) option" where
  "vbbm_removeEntry l v g = do {
     (index, prev, bucket) \<leftarrow> vbbm_getIndex l v g;
     if index = -1 then Some (g, [])
     else let k = nat index; st = vb_storage g; hb = vb_buckets g; h = vb_header g;
              (st', hb') = unlinked vb_set_next vb_kill vb_next bucket prev k st hb
          in Some (g\<lparr>vb_storage := st', vb_buckets := hb',
                     vb_header := h\<lparr>vbCurrentSize := vbCurrentSize h - 1,
                                   vbLWM := (if vbLWM h > index then index else vbLWM h)\<rparr>\<rparr>,
                   [VbEntryImage k (st ! k),
                    if prev \<noteq> -1 then VbEntryImage (nat prev) (st[k := vb_kill (st ! k)] ! nat prev)
                    else VbBucketImage bucket (hb ! bucket),
                    VbHeaderImage h])
   }"

definition vbbm_size :: "vbbm_segment \<Rightarrow> int" where
  "vbbm_size g = vb_currentSize g"

definition vbbm_hashEmpty :: "vbbm_segment \<Rightarrow> bool" where
  "vbbm_hashEmpty g = list_all (\<lambda>n. n = -1) (vb_buckets g)"

section \<open>Allocation of version buffer blocks\<close>

record VBRange =
  vr_vbOID :: OID_t
  vr_vbFBO :: int
  vr_size :: int

definition VBBM_CHUNK_SIZE :: int where
  "VBBM_CHUNK_SIZE = 100"

text \<open>\<^verbatim>\<open>while (vbCurrentSize + num > vbCapacity) growVBBM()\<close>.\<close>

partial_function (option) vbbm_grow_until :: "int \<Rightarrow> VBBM \<Rightarrow> VBBM option" where
  [code]: "vbbm_grow_until num s =
    (if vb_currentSize (vbbm_shm s) + num > vb_capacity (vbbm_shm s)
     then do { s1 \<leftarrow> vbbm_resize 0 s; vbbm_grow_until num s1 }
     else Some s)"

text \<open>The loop that takes ranges from the file, wrapping to its start. It works on the one
  descriptor and returns the descriptors it journalled with the ranges.\<close>

definition vb_take_range :: "int \<Rightarrow> int \<Rightarrow> VBFileMetadata \<Rightarrow> VBRange \<times> VBFileMetadata \<times> int" where
  "vb_take_range num blocksGathered f =
    (let blocksLeftInFile = s32 (vf_fileSize f - vf_nextOffset f);
         blocksLeft = num - blocksGathered;
         size = u32 (if blocksLeftInFile \<ge> blocksLeft then blocksLeft else blocksLeftInFile)
     in (\<lparr>vr_vbOID = vf_OID f, vr_vbFBO = vf_nextOffset f, vr_size = size\<rparr>,
         f\<lparr>vf_nextOffset := (if size = u32 blocksLeftInFile then 0 else u32 (vf_nextOffset f + size))\<rparr>,
         s32 (blocksGathered + size)))"

partial_function (option) vb_gather ::
  "int \<Rightarrow> int \<Rightarrow> VBFileMetadata \<Rightarrow> (VBFileMetadata \<times> VBFileMetadata list \<times> VBRange list) option" where
  [code]: "vb_gather num blocksGathered f =
    (if blocksGathered < num then
       let (range, f', blocksGathered') = vb_take_range num blocksGathered f
       in do {
         (f2, olds, ranges) \<leftarrow> vb_gather num blocksGathered' f';
         Some (f2, f # olds, range # ranges)
       }
     else Some (f, [], []))"

text \<open>The interval of file blocks to age out for a range, \<open>None\<close> for \<^verbatim>\<open>continue\<close>.\<close>

definition vb_age_interval :: "int \<Rightarrow> VBRange \<Rightarrow> (int \<times> int) option" where
  "vb_age_interval fileSize r =
    (let firstFBO = vr_vbFBO r;
         lastFBO = u32 (vr_vbFBO r + vr_size r - 1);
         firstChunk = firstFBO div VBBM_CHUNK_SIZE;
         lastChunk = lastFBO div VBBM_CHUNK_SIZE
     in if firstFBO mod VBBM_CHUNK_SIZE \<noteq> 0 \<and> firstChunk = lastChunk then None
        else let firstF = (if firstFBO mod VBBM_CHUNK_SIZE \<noteq> 0
                          then u32 ((firstChunk + 1) * VBBM_CHUNK_SIZE) else firstFBO);
                 lastF = u32 ((lastChunk + 1) * VBBM_CHUNK_SIZE - 1)
             in Some (firstF, if lastF > fileSize then fileSize else lastF))"

text \<open>Whether an entry lies in the interval: the first of the \<open>repSize\<close> replicas on
  \<open>dbr\<close> decides.\<close>

definition vb_in_interval :: "nat \<Rightarrow> int \<Rightarrow> int \<Rightarrow> int \<Rightarrow> VBBMEntry \<Rightarrow> bool" where
  "vb_in_interval repSize dbr firstF lastF e =
    (case find (\<lambda>oi. uint (vb_vbOids e ! oi) = dbr) [0..<repSize] of
       None \<Rightarrow> False
     | Some oi \<Rightarrow> vb_lbid e \<noteq> -1 \<and> uint (vb_vbFbo e ! oi) \<ge> firstF \<and> uint (vb_vbFbo e ! oi) \<le> lastF)"

text \<open>One iteration of the loop over the storage, on the VBBM, the VSS and the flush list.
  The error carries the state in which the exception leaves them.\<close>

type_synonym vb_age_state = "VBBM \<times> VSS \<times> LBID_t list"

definition vbbm_age_entry ::
  "nat \<Rightarrow> int \<Rightarrow> int \<Rightarrow> int \<Rightarrow> nat \<Rightarrow> vb_age_state \<Rightarrow> (vb_age_state + vb_age_state) option" where
  "vbbm_age_entry repSize dbr firstF lastF i st =
    (case st of (b, v, flushList) \<Rightarrow>
       let e = vb_storage (vbbm_shm b) ! i
       in if vb_in_interval repSize dbr firstF lastF e then do {
            locked \<leftarrow> vss_isEntryLocked (vb_lbid e) (vb_verID e) (vss_shm v);
            if locked then Some (Inl st)
            else do {
              (g, imgs, fl) \<leftarrow> vss_removeEntry (vb_lbid e) (vb_verID e) (vss_shm v);
              b' \<leftarrow> vbbm_on (vbbm_removeEntry (vb_lbid e) (vb_verID e)) b;
              Some (Inr (b', v\<lparr>vss_shm := g,
                vss_undoRecords := vss_undoRecords v @ map (Pair (vss_mapping v)) imgs\<rparr>, flushList @ fl))
            }
          } else Some (Inr st))"

primrec vbbm_age_loop ::
  "('i \<Rightarrow> vb_age_state \<Rightarrow> (vb_age_state + vb_age_state) option) \<Rightarrow> 'i list \<Rightarrow> vb_age_state
    \<Rightarrow> (vb_age_state + vb_age_state) option" where
  "vbbm_age_loop f [] st = Some (Inr st)"
| "vbbm_age_loop f (i # is) st = do {
     r \<leftarrow> f i st;
     (case r of Inl st' \<Rightarrow> Some (Inl st') | Inr st' \<Rightarrow> vbbm_age_loop f is st')
   }"

definition vbbm_age_range ::
  "nat \<Rightarrow> int \<Rightarrow> int \<Rightarrow> VBRange \<Rightarrow> vb_age_state \<Rightarrow> (vb_age_state + vb_age_state) option" where
  "vbbm_age_range repSize dbr fileSize r st =
    (case vb_age_interval fileSize r of
       None \<Rightarrow> Some (Inr st)
     | Some (firstF, lastF) \<Rightarrow>
         vbbm_age_loop (vbbm_age_entry repSize dbr firstF lastF)
           [0..<nat (vb_capacity (vbbm_shm (fst st)))] st)"

text \<open>\<^verbatim>\<open>VBBM::getBlocks\<close>. The result is the exception or the free ranges with the flush
  list, and the state of both tables in either case.\<close>

definition vbbm_getBlocks ::
  "int option \<Rightarrow> nat \<Rightarrow> int \<Rightarrow> DBROOTS_struct \<Rightarrow> nat \<Rightarrow> VBBM \<Rightarrow> VSS
    \<Rightarrow> ((VBRange list \<times> LBID_t list) res \<times> VBBM \<times> VSS) option" where
  "vbbm_getBlocks cfg repSize num vbOID dbrIndex b v = do {
     let dbr = uint (vbOID ! dbrIndex);
     r \<leftarrow> vbbm_addVBFileIfNotExists cfg dbr b;
     (case r of
        Inl err \<Rightarrow> Some (Inl err, b, v)
      | Inr (fileIndex, b1) \<Rightarrow>
          let i = nat fileIndex; f = vb_files (vbbm_shm b1) ! i
          in if i \<ge> length (vb_files (vbbm_shm b1)) \<or> vf_OID f \<noteq> dbr then None
             else if u32 num > vf_fileSize f then
               Some (Inl (VBBMBufferOverFlowExcept
                 ''VBBM::getBlocks(): num is larger than the size of the version buffer''), b1, v)
             else do {
               b2 \<leftarrow> vbbm_grow_until num b1;
               (f', olds, ranges) \<leftarrow> vb_gather num 0 (vb_files (vbbm_shm b2) ! i);
               b3 \<leftarrow> vbbm_on (\<lambda>g. Some (g\<lparr>vb_files := (vb_files g)[i := f']\<rparr>,
                                          map (VbFileImage i) olds)) b2;
               r \<leftarrow> vbbm_age_loop (vbbm_age_range repSize dbr (vf_fileSize f')) ranges (b3, v, []);
               Some (case r of
                  Inl (b4, v4, _) \<Rightarrow>
                    (Inl (VBBMBufferOverFlowExcept ''VBBM::getBlocks(): version buffer overflow''), b4, v4)
                | Inr (b4, v4, flushList) \<Rightarrow> (Inr (ranges, flushList), b4, v4))
             })
   }"

section \<open>Whole-table checks\<close>

text \<open>\<^verbatim>\<open>VBBM::checkConsistency\<close>. Without \<^verbatim>\<open>BRM_DEBUG\<close> the call of
  \<^verbatim>\<open>size\<close> checks nothing.\<close>

definition vbbm_check_chain :: "vbbm_segment \<Rightarrow> int \<Rightarrow> unit res option" where
  "vbbm_check_chain g head =
    reject_if (Logic_error
        ''VBBM::checkConsistency(): an empty storage entry is reachable from the hash table'')
      (scan_unused (\<lambda>e. vb_lbid e \<noteq> -1) vb_next (vb_storage g) head)"

definition vbbm_check_LWM :: "vbbm_segment \<Rightarrow> nat \<Rightarrow> unit res option" where
  "vbbm_check_LWM g i =
    Some (if vb_lbid (vb_storage g ! i) = -1
          then Inl (Logic_error ''VBBM::checkConsistency(): LWM accounting error'') else Inr ())"

definition vbbm_check_unique :: "vbbm_segment \<Rightarrow> int \<Rightarrow> unit res option" where
  "vbbm_check_unique g head =
    reject_if (Logic_error ''VBBM::checkConsistency(): Duplicate entry found'')
      (scan_duplicate (\<lambda>e. (vb_lbid e, vb_verID e)) vb_next (vb_storage g) head)"

definition vbbm_check_place :: "vbbm_segment \<Rightarrow> nat \<Rightarrow> unit res option" where
  "vbbm_check_place g i =
    (let e = vb_storage g ! i
     in Some (if vb_lbid e \<noteq> -1 \<and>
                 list_ex (\<lambda>j. let e' = vb_storage g ! j
                             in vb_lbid e' \<noteq> -1 \<and> vb_vbOids e' ! 0 = vb_vbOids e ! 0 \<and>
                                vb_vbFbo e' ! 0 = vb_vbFbo e ! 0)
                   [Suc i..<nat (vb_capacity g)]
              then Inl (Logic_error ''VBBM::checkConsistency(): 2 VBBM entries share space in the VB'')
              else Inr ()))"

definition vbbm_checkConsistency :: "vbbm_segment \<Rightarrow> unit res option" where
  "vbbm_checkConsistency g =
    check_all id
      [check_all (vbbm_check_chain g) (vb_buckets g),
       check_all (vbbm_check_LWM g) [0..<nat (vb_LWM g)],
       check_all (vbbm_check_unique g) (vb_buckets g),
       check_all (vbbm_check_place g) [0..<nat (vb_capacity g)]]"

section \<open>The saved image\<close>

text \<open>The contents of a saved file. The number of descriptors and the descriptors are present in
  a version 2 file only. Only reads that come up short are modelled as I/O failures.\<close>

record vbbm_file =
  vbf_magic :: int
  vbf_entries :: int
  vbf_nFiles :: int
  vbf_files :: "VBFileMetadata list"
  vbf_records :: "VBBMEntry list"

definition VBBM_MAGIC_V1 :: int where
  "VBBM_MAGIC_V1 = 0x7b27ec13"

definition VBBM_MAGIC_V2 :: int where
  "VBBM_MAGIC_V2 = 0x1fb58c7a"

definition vbbm_save :: "vbbm_segment \<Rightarrow> vbbm_file" where
  "vbbm_save g = \<lparr>
     vbf_magic = VBBM_MAGIC_V2,
     vbf_entries = vb_currentSize g,
     vbf_nFiles = nFiles (vb_header g),
     vbf_files = take (nat (nFiles (vb_header g))) (vb_files g),
     vbf_records = filter (\<lambda>e. vb_lbid e \<noteq> -1)
       (map ((!) (vb_storage g)) [0..<nat (vb_capacity g)])\<rparr>"

fun vbbm_load_entries :: "nat \<Rightarrow> VBBMEntry list \<Rightarrow> VBBM \<Rightarrow> VBBM res option" where
  "vbbm_load_entries 0 es s = Some (Inr s)"
| "vbbm_load_entries (Suc n) [] s = Some (Inl (Runtime_error ''VBBM::load(): Failed to load entry''))"
| "vbbm_load_entries (Suc n) (e # es) s = do {
     s1 \<leftarrow> vbbm_insert (vb_lbid e) (vb_verID e) (vb_vbOids e) (vb_vbFbo e) True s;
     vbbm_load_entries n es s1
   }"

text \<open>\<^verbatim>\<open>VBBM::loadVersion1\<close>: every file OID an entry names is made known.\<close>

primrec vbbm_add_oids :: "int option \<Rightarrow> uint16 list \<Rightarrow> VBBM \<Rightarrow> VBBM res option" where
  "vbbm_add_oids cfg [] s = Some (Inr s)"
| "vbbm_add_oids cfg (d # ds) s =
    (if d \<noteq> 0 then do {
       r \<leftarrow> vbbm_addVBFileIfNotExists cfg (uint d) s;
       (case r of Inl err \<Rightarrow> Some (Inl err) | Inr (_, s1) \<Rightarrow> vbbm_add_oids cfg ds s1)
     } else vbbm_add_oids cfg ds s)"

fun vbbm_load_entries1 ::
  "int option \<Rightarrow> nat \<Rightarrow> nat \<Rightarrow> VBBMEntry list \<Rightarrow> VBBM \<Rightarrow> VBBM res option" where
  "vbbm_load_entries1 cfg repSize 0 es s = Some (Inr s)"
| "vbbm_load_entries1 cfg repSize (Suc n) [] s =
    Some (Inl (Runtime_error ''VBBM::load(): Failed to load entry''))"
| "vbbm_load_entries1 cfg repSize (Suc n) (e # es) s = do {
     s1 \<leftarrow> vbbm_insert (vb_lbid e) (vb_verID e) (vb_vbOids e) (vb_vbFbo e) True s;
     r \<leftarrow> vbbm_add_oids cfg (map ((!) (vb_vbOids e)) [0..<repSize]) s1;
     (case r of Inl err \<Rightarrow> Some (Inl err) | Inr s2 \<Rightarrow> vbbm_load_entries1 cfg repSize n es s2)
   }"

definition vbbm_loadVersion1 ::
  "int option \<Rightarrow> nat \<Rightarrow> vbbm_file \<Rightarrow> VBBM \<Rightarrow> VBBM res option" where
  "vbbm_loadVersion1 cfg repSize f s = do {
     r \<leftarrow> vbbm_clear cfg s;
     (case r of
        Inl err \<Rightarrow> Some (Inl err)
      | Inr s1 \<Rightarrow> vbbm_load_entries1 cfg repSize (nat (vbf_entries f)) (vbf_records f) s1)
   }"

partial_function (option) vbbm_add_files :: "int \<Rightarrow> VBBM \<Rightarrow> VBBM option" where
  [code]: "vbbm_add_files n s =
    (if nFiles (vb_header (vbbm_shm s)) < n
     then do { s1 \<leftarrow> vbbm_resize 1 s; vbbm_add_files n s1 }
     else Some s)"

text \<open>The assignment \<^verbatim>\<open>vbbm->nFiles = nFiles\<close> that cuts off descriptors.\<close>

definition vbbm_truncate_files :: "int \<Rightarrow> VBBM \<Rightarrow> VBBM" where
  "vbbm_truncate_files n s =
    (let g = vbbm_shm s
     in if nFiles (vb_header g) > n
        then s\<lparr>vbbm_shm := g\<lparr>vb_header := vb_header g\<lparr>nFiles := n\<rparr>, vb_files := take (nat n) (vb_files g)\<rparr>\<rparr>
        else s)"

definition vbbm_loadVersion2 :: "int option \<Rightarrow> vbbm_file \<Rightarrow> VBBM \<Rightarrow> VBBM res option" where
  "vbbm_loadVersion2 cfg f s =
    (let n = vbf_nFiles f
     in if n < 0 then None
        else do {
          r \<leftarrow> vbbm_clear cfg (vbbm_truncate_files n s);
          (case r of
             Inl err \<Rightarrow> Some (Inl err)
           | Inr s1 \<Rightarrow> do {
               s2 \<leftarrow> vbbm_add_files n s1;
               let s3 = vbbm_growForLoad (vbf_entries f) s2;
               if int (length (vbf_files f)) < n
               then Some (Inl (Runtime_error ''VBBM::load(): Failed to load vb file meta data''))
               else vbbm_load_entries (nat (vbf_entries f)) (vbf_records f)
                 (s3\<lparr>vbbm_shm := (vbbm_shm s3)\<lparr>vb_files := take (nat n) (vbf_files f)\<rparr>\<rparr>)
             })
        })"

definition vbbm_load :: "int option \<Rightarrow> nat \<Rightarrow> vbbm_file \<Rightarrow> VBBM \<Rightarrow> VBBM res option" where
  "vbbm_load cfg repSize f s =
    (if vbf_magic f = VBBM_MAGIC_V1 then vbbm_loadVersion1 cfg repSize f s
     else if vbf_magic f = VBBM_MAGIC_V2 then vbbm_loadVersion2 cfg f s
     else Some (Inl (Runtime_error ''VBBM::load(): Bad magic.  Not a VBBM file?'')))"

end
