(* ===== verification/Vbbm_Invariant.thy ===== *)
theory Vbbm_Invariant
  imports Vbbm
begin

text \<open>
  The invariant of the VBBM segment, the abstract table it stands for and what insertion, growth,
  lookup and removal do to it. The structure mirrors \<open>Vss_Invariant\<close>; the chain facts come
  from the interpretation of \<open>chained_entry\<close> on the VBBM's entries.
\<close>

section \<open>The invariant and the abstract table\<close>

type_synonym vbbm_version = "LBID_t \<times> VER_t \<times> DBROOTS_struct \<times> FBO_struct"

definition vb_payload :: "VBBMEntry \<Rightarrow> vbbm_version" where
  "vb_payload e = (vb_lbid e, vb_verID e, vb_vbOids e, vb_vbFbo e)"

definition vb_abs :: "vbbm_segment \<Rightarrow> vbbm_version multiset" where
  "vb_abs g = mset (map vb_payload (filter vb_used (vb_storage g)))"

definition vb_struct :: "vbbm_segment \<Rightarrow> bool" where
  "vb_struct g \<longleftrightarrow>
    vb_capacity g = int (length (vb_storage g)) \<and>
    nFiles (vb_header g) = int (length (vb_files g)) \<and>
    vb_nBuckets g = int (length (vb_buckets g)) \<and> vb_buckets g \<noteq> [] \<and>
    hash_wf vb_used vb_next vb_bkt (vb_storage g) (vb_buckets g) \<and>
    0 \<le> vb_LWM g \<and> (\<forall>i < nat (vb_LWM g). vb_used (vb_storage g ! i))"

definition vb_wf :: "vbbm_segment \<Rightarrow> bool" where
  "vb_wf g \<longleftrightarrow> vb_struct g \<and> vb_currentSize g = int (size (vb_abs g))"

text \<open>No used entry lies at or beyond slot \<^verbatim>\<open>vbCurrentSize\<close>.\<close>

definition vb_packed :: "vbbm_segment \<Rightarrow> bool" where
  "vb_packed g \<longleftrightarrow> list_all (\<lambda>e. \<not> vb_used e) (drop (nat (vb_currentSize g)) (vb_storage g))"

interpretation vb_entry: chained_entry vb_used vb_next vb_bkt vb_set_next vb_kill
  by unfold_locales (simp_all add: vb_used_def vb_set_next_def vb_kill_def vb_bkt_def)

interpretation vbbm_log: undoable vb_restore vbbm_undoRecords vb_set_undo
  by unfold_locales (auto simp: vb_restore_def vb_set_undo_def)

lemma vb_payload_set_next [simp]: "vb_payload (vb_set_next n e) = vb_payload e"
  by (simp add: vb_payload_def vb_set_next_def)

lemma vb_set_next_simps [simp]:
  "vb_lbid (vb_set_next n e) = vb_lbid e" "vb_verID (vb_set_next n e) = vb_verID e"
  "vb_vbOids (vb_set_next n e) = vb_vbOids e" "vb_vbFbo (vb_set_next n e) = vb_vbFbo e"
  by (simp_all add: vb_set_next_def)

lemma vb_kill_lbid [simp]: "vb_lbid (vb_kill e) = -1"
  by (simp add: vb_kill_def)

lemma size_vb_abs: "size (vb_abs g) = length (filter vb_used (vb_storage g))"
  unfolding vb_abs_def size_mset length_map ..

lemma in_vb_abs:
  "(l, v, d, f) \<in># vb_abs g \<longleftrightarrow>
    (\<exists>k < length (vb_storage g). vb_used (vb_storage g ! k) \<and>
      vb_payload (vb_storage g ! k) = (l, v, d, f))"
  by (auto simp: vb_abs_def in_set_conv_nth intro: rev_image_eqI)

lemma vb_struct_hash:
  "vb_struct g \<Longrightarrow> vb_hash l v (vb_nBuckets g) < length (vb_buckets g)"
  by (simp add: vb_struct_def vb_hash_def nat_less_iff)

lemma vb_abs_simps [simp]:
  "vb_abs (g\<lparr>vb_header := h\<rparr>) = vb_abs g" "vb_abs (g\<lparr>vb_buckets := hb\<rparr>) = vb_abs g"
  "vb_abs (g\<lparr>vb_files := fs\<rparr>) = vb_abs g"
  by (simp_all add: vb_abs_def)

lemma vb_abs_update:
  assumes "k < length (vb_storage g)"
  shows "vb_abs (g\<lparr>vb_storage := (vb_storage g)[k := e]\<rparr>) +
      (if vb_used (vb_storage g ! k) then {#vb_payload (vb_storage g ! k)#} else {#}) =
    vb_abs g + (if vb_used e then {#vb_payload e#} else {#})"
  using mset_filter_update [OF assms, of vb_payload vb_used e] by (simp add: vb_abs_def)

section \<open>Insertion\<close>

lemma vb_free_slot:
  assumes "vb_struct g" "size (vb_abs g) < length (vb_storage g)"
  obtains k where "free_from vb_used (vb_storage g) (nat (vb_LWM g)) = Some k"
    "k < length (vb_storage g)" "\<not> vb_used (vb_storage g ! k)"
    "\<And>i. i < k \<Longrightarrow> vb_used (vb_storage g ! i)"
proof (rule free_slot [of "nat (vb_LWM g)" vb_used "vb_storage g"])
  show "vb_used (vb_storage g ! i)" if "i < nat (vb_LWM g)" for i
    using assms(1) that by (simp add: vb_struct_def)
  show "length (filter vb_used (vb_storage g)) < length (vb_storage g)"
    using assms(2) by (simp add: size_vb_abs)
qed (rule that)

lemma vbbm_insert0_correct:
  assumes g: "vb_struct g" "size (vb_abs g) < length (vb_storage g)" and e: "vb_used e"
  shows "\<exists>g' imgs. vbbm_insert0 e loading g = Some (g', imgs) \<and> vb_struct g' \<and>
    vb_abs g' = add_mset (vb_payload e) (vb_abs g) \<and>
    vb_header g' = vb_header g\<lparr>vbLWM := vb_LWM g'\<rparr> \<and> vb_files g' = vb_files g \<and>
    length (vb_storage g') = length (vb_storage g) \<and>
    length (vb_buckets g') = length (vb_buckets g)"
proof -
  obtain k where k: "free_from vb_used (vb_storage g) (nat (vb_LWM g)) = Some k"
      "k < length (vb_storage g)" "\<not> vb_used (vb_storage g ! k)"
      "\<And>i. i < k \<Longrightarrow> vb_used (vb_storage g ! i)"
    using vb_free_slot [OF g] by metis
  define b where "b = vb_hash (vb_lbid e) (vb_verID e) (vb_nBuckets g)"
  have b: "b < length (vb_buckets g)" using g(1) by (simp add: b_def vb_struct_hash)
  let ?st = "(vb_storage g)[k := vb_set_next (vb_buckets g ! b) e]"
  let ?hb = "(vb_buckets g)[b := int k]"
  let ?g' = "g\<lparr>vb_header := vb_header g\<lparr>vbLWM := int k\<rparr>, vb_storage := ?st, vb_buckets := ?hb\<rparr>"
  have "hash_wf vb_used vb_next vb_bkt ?st ?hb"
    using g(1) e k b
    by (intro vb_entry.hash_wf_link) (auto simp: vb_struct_def vb_bkt_def b_def)
  then have "vb_struct ?g'"
    using g(1) k by (auto simp: vb_struct_def)
  moreover have "vb_abs ?g' = add_mset (vb_payload e) (vb_abs g)"
    using vb_abs_update [OF k(2), of "vb_set_next (vb_buckets g ! b) e"] e k(3)
    by (simp add: vb_abs_def)
  ultimately show ?thesis
    using k(1) b by (simp add: vbbm_insert0_def b_def [symmetric] Let_def)
qed

lemma vbbm_insert_seg_correct:
  assumes g: "vb_wf g" "vb_currentSize g < vb_capacity g" and e: "vb_used e"
  shows "\<exists>g' imgs. vbbm_insert_seg e loading g = Some (g', imgs) \<and> vb_wf g' \<and>
    vb_abs g' = add_mset (vb_payload e) (vb_abs g) \<and> vb_files g' = vb_files g \<and>
    vb_capacity g' = vb_capacity g \<and> vb_nBuckets g' = vb_nBuckets g \<and>
    vb_currentSize g' = vb_currentSize g + 1"
proof -
  have "vb_struct g" "size (vb_abs g) < length (vb_storage g)"
    using g by (auto simp: vb_wf_def vb_struct_def)
  from vbbm_insert0_correct [OF this e, of loading] obtain g1 imgs where
    g1: "vbbm_insert0 e loading g = Some (g1, imgs)" "vb_struct g1"
      "vb_abs g1 = add_mset (vb_payload e) (vb_abs g)" "vb_files g1 = vb_files g"
      "vb_header g1 = vb_header g\<lparr>vbLWM := vb_LWM g1\<rparr>"
    by blast
  let ?g' = "g1\<lparr>vb_header := vb_header g1\<lparr>vbCurrentSize := vb_currentSize g1 + 1\<rparr>\<rparr>"
  have hdr: "vb_currentSize g1 = vb_currentSize g" "vb_capacity g1 = vb_capacity g"
      "vb_nBuckets g1 = vb_nBuckets g"
    by (subst g1(5), simp)+
  have "vb_struct ?g'" using g1(2) by (simp add: vb_struct_def)
  then have "vb_wf ?g'" using g(1) g1(3) hdr by (simp add: vb_wf_def)
  with g1 hdr show ?thesis by (auto simp: vbbm_insert_seg_def Let_def)
qed

section \<open>Growth\<close>

lemma vb_fresh_segment_struct:
  assumes "0 \<le> cap" "0 < nb"
  shows "vb_struct (vb_fresh_segment fs cap nb)" "vb_abs (vb_fresh_segment fs cap nb) = {#}"
proof -
  have "hash_wf vb_used vb_next vb_bkt (vb_storage (vb_fresh_segment fs cap nb))
      (vb_buckets (vb_fresh_segment fs cap nb))"
    by (rule hash_wf_empty) (simp_all add: vb_fresh_segment_def vb_zero_entry_def vb_used_def)
  with assms show "vb_struct (vb_fresh_segment fs cap nb)"
    by (auto simp: vb_struct_def vb_fresh_segment_def)
  have "filter vb_used (vb_storage (vb_fresh_segment fs cap nb)) = []"
    by (simp add: vb_fresh_segment_def vb_zero_entry_def vb_used_def)
  then show "vb_abs (vb_fresh_segment fs cap nb) = {#}"
    by (simp only: vb_abs_def list.map mset.simps)
qed

lemma vbbm_rehash_correct:
  assumes "vb_struct d" "size (vb_abs d) + length (filter vb_used es) \<le> length (vb_storage d)"
  shows "\<exists>d'. vbbm_rehash es d = Some d' \<and> vb_struct d' \<and>
    vb_abs d' = vb_abs d + mset (map vb_payload (filter vb_used es)) \<and>
    vb_header d' = vb_header d\<lparr>vbLWM := vb_LWM d'\<rparr> \<and> vb_files d' = vb_files d \<and>
    length (vb_storage d') = length (vb_storage d) \<and>
    length (vb_buckets d') = length (vb_buckets d)"
  using assms
proof (induction es arbitrary: d)
  case (Cons e es)
  show ?case
  proof (cases "vb_used e")
    case True
    with Cons.prems have "size (vb_abs d) < length (vb_storage d)" by simp
    from vbbm_insert0_correct [OF Cons.prems(1) this True, of True] obtain d1 imgs where
      d1: "vbbm_insert0 e True d = Some (d1, imgs)" "vb_struct d1"
        "vb_abs d1 = add_mset (vb_payload e) (vb_abs d)"
        "vb_header d1 = vb_header d\<lparr>vbLWM := vb_LWM d1\<rparr>" "vb_files d1 = vb_files d"
        "length (vb_storage d1) = length (vb_storage d)"
        "length (vb_buckets d1) = length (vb_buckets d)"
      by blast
    from d1 True Cons.prems(2) obtain d' where
      d': "vbbm_rehash es d1 = Some d'" "vb_struct d'"
        "vb_abs d' = vb_abs d1 + mset (map vb_payload (filter vb_used es))"
        "vb_header d' = vb_header d1\<lparr>vbLWM := vb_LWM d'\<rparr>" "vb_files d' = vb_files d1"
        "length (vb_storage d') = length (vb_storage d1)"
        "length (vb_buckets d') = length (vb_buckets d1)"
      using Cons.IH [of d1] by auto
    have "vb_header d' = vb_header d\<lparr>vbLWM := vb_LWM d'\<rparr>"
      using d'(4) d1(4) by (metis VBShmsegHeader.update_convs(4) VBShmsegHeader.surjective)
    with d1 d' True show ?thesis by simp
  next
    case False
    with Cons show ?thesis by simp
  qed
qed simp

text \<open>What a copy keeps: the used entries among the first \<^verbatim>\<open>vbCurrentSize\<close> slots. The copy
  records the old size whether or not that is the number of entries it kept.\<close>

lemma vbbm_copyVBBM_correct:
  assumes g: "vb_struct g" and fs: "vb_files_of_words n (vb_trailing_words g) = Some fs"
    and cap: "vb_capacity g \<le> cap" "0 < nb"
  shows "\<exists>d. vbbm_copyVBBM g n cap nb = Some d \<and> vb_struct d \<and>
    vb_abs d = mset (map vb_payload (filter vb_used (take (nat (vb_currentSize g)) (vb_storage g)))) \<and>
    vb_files d = vb_files g @ fs \<and> vb_currentSize d = vb_currentSize g \<and>
    vb_capacity d = cap \<and> vb_nBuckets d = nb"
proof -
  let ?f = "vb_fresh_segment (vb_files g @ fs) cap nb"
  let ?d = "?f\<lparr>vb_header := vb_header ?f\<lparr>vbCurrentSize := vb_currentSize g\<rparr>\<rparr>"
  let ?es = "take (nat (vb_currentSize g)) (vb_storage g)"
  have "0 \<le> cap" using g cap by (simp add: vb_struct_def)
  note f = vb_fresh_segment_struct [OF this cap(2), of "vb_files g @ fs"]
  have fresh: "vb_struct ?d" "vb_abs ?d = {#}" "length (vb_storage ?d) = nat cap"
    using f by (simp_all add: vb_struct_def) (simp add: vb_fresh_segment_def)
  have "length (filter vb_used ?es) \<le> length ?es" by (rule length_filter_le)
  also have "\<dots> \<le> nat cap" using g cap by (simp add: vb_struct_def)
  finally have "size (vb_abs ?d) + length (filter vb_used ?es) \<le> length (vb_storage ?d)"
    using fresh by simp
  with vbbm_rehash_correct [OF fresh(1) this] fresh(2) obtain d where
    d: "vbbm_rehash ?es ?d = Some d" "vb_struct d"
      "vb_abs d = mset (map vb_payload (filter vb_used ?es))"
      "vb_header d = vb_header ?d\<lparr>vbLWM := vb_LWM d\<rparr>" "vb_files d = vb_files ?d"
    by auto
  have hdr: "vb_currentSize d = vb_currentSize g" "vb_capacity d = cap" "vb_nBuckets d = nb"
    by (subst d(4), simp add: vb_fresh_segment_def)+
  with d fs show ?thesis by (simp add: vbbm_copyVBBM_def vb_fresh_segment_def Let_def)
qed

lemma vb_files_of_words_Some:
  "3 * n \<le> length ws \<Longrightarrow> \<exists>fs. vb_files_of_words n ws = Some fs \<and> length fs = n"
proof (induction n ws rule: vb_files_of_words.induct)
  case (2 n a b c ws)
  then show ?case by fastforce
qed auto

lemma length_vb_trailing_words:
  "length (vb_trailing_words g) = length (vb_buckets g) + 10 * length (vb_storage g)"
  by (simp add: vb_trailing_words_def length_concat vb_entry_words_def sum_list_triv o_def)

text \<open>The object around the segment: mapped, and at least as large as the initial one.\<close>

definition vbbm_obj_struct :: "VBBM \<Rightarrow> bool" where
  "vbbm_obj_struct s \<longleftrightarrow> vbbm_attached s \<and> vb_struct (vbbm_shm s)"

definition vbbm_obj_wf :: "VBBM \<Rightarrow> bool" where
  "vbbm_obj_wf s \<longleftrightarrow> vbbm_attached s \<and> vb_wf (vbbm_shm s)"

lemma vbbm_obj_wf_struct: "vbbm_obj_wf s \<Longrightarrow> vbbm_obj_struct s"
  by (simp add: vbbm_obj_wf_def vbbm_obj_struct_def vb_wf_def)

lemma vbbm_resize_correct:
  assumes s: "vbbm_obj_struct s"
    and n: "3 * n \<le> length (vb_buckets (vbbm_shm s)) + 10 * length (vb_storage (vbbm_shm s))"
  shows "\<exists>s'. vbbm_resize n s = Some s' \<and> vbbm_obj_struct s' \<and>
    vb_abs (vbbm_shm s') = mset (map vb_payload (filter vb_used
      (take (nat (vb_currentSize (vbbm_shm s))) (vb_storage (vbbm_shm s))))) \<and>
    vb_currentSize (vbbm_shm s') = vb_currentSize (vbbm_shm s) \<and>
    (\<exists>fs. vb_files (vbbm_shm s') = vb_files (vbbm_shm s) @ fs \<and> length fs = n) \<and>
    vb_capacity (vbbm_shm s') = vb_capacity (vbbm_shm s) +
      (if n = 0 then VBSTORAGE_INCREMENT_COUNT else 0) \<and>
    vb_nBuckets (vbbm_shm s') = vb_nBuckets (vbbm_shm s) +
      (if n = 0 then VBTABLE_INCREMENT_COUNT else 0) \<and>
    vbbm_mapping s' = vbbm_mapping s + 1 \<and> vbbm_undoRecords s' = []"
proof -
  let ?g = "vbbm_shm s"
  let ?cap = "if n = 0 then vb_capacity ?g + VBSTORAGE_INCREMENT_COUNT else vb_capacity ?g"
  let ?nb = "if n = 0 then vb_nBuckets ?g + VBTABLE_INCREMENT_COUNT else vb_nBuckets ?g"
  obtain fs where fs: "vb_files_of_words n (vb_trailing_words ?g) = Some fs" "length fs = n"
    using vb_files_of_words_Some [of n "vb_trailing_words ?g"] n by (auto simp: length_vb_trailing_words)
  have g: "vb_struct ?g" using s by (simp add: vbbm_obj_struct_def)
  have "vb_capacity ?g \<le> ?cap" "0 < ?nb"
    using g by (simp_all add: vb_struct_def VBSTORAGE_INCREMENT_COUNT_def VBTABLE_INCREMENT_COUNT_def)
  from vbbm_copyVBBM_correct [OF g fs(1) this] obtain d where
    d: "vbbm_copyVBBM ?g n ?cap ?nb = Some d" "vb_struct d"
      "vb_abs d = mset (map vb_payload (filter vb_used (take (nat (vb_currentSize ?g)) (vb_storage ?g))))"
      "vb_files d = vb_files ?g @ fs" "vb_currentSize d = vb_currentSize ?g"
      "vb_capacity d = ?cap" "vb_nBuckets d = ?nb"
    by blast
  then show ?thesis
    using s fs(2) by (simp add: vbbm_resize_def vbbm_obj_struct_def Let_def)
qed

lemma vb_packed_take:
  assumes "vb_packed g"
  shows "filter vb_used (take (nat (vb_currentSize g)) (vb_storage g)) = filter vb_used (vb_storage g)"
proof -
  let ?n = "nat (vb_currentSize g)"
  have "filter vb_used (drop ?n (vb_storage g)) = []"
    using assms by (simp add: vb_packed_def list_all_iff filter_empty_conv)
  then show ?thesis
    by (metis append_Nil2 append_take_drop_id filter_append)
qed

lemma vb_packed_full: "vb_wf g \<Longrightarrow> vb_currentSize g = vb_capacity g \<Longrightarrow> vb_packed g"
  by (simp add: vb_packed_def vb_wf_def vb_struct_def)

lemma vbbm_resize_packed:
  assumes s: "vbbm_obj_wf s" "vb_packed (vbbm_shm s)"
    and n: "3 * n \<le> length (vb_buckets (vbbm_shm s)) + 10 * length (vb_storage (vbbm_shm s))"
  shows "\<exists>s'. vbbm_resize n s = Some s' \<and> vbbm_obj_wf s' \<and>
    vb_abs (vbbm_shm s') = vb_abs (vbbm_shm s) \<and>
    vb_currentSize (vbbm_shm s') = vb_currentSize (vbbm_shm s) \<and>
    (\<exists>fs. vb_files (vbbm_shm s') = vb_files (vbbm_shm s) @ fs \<and> length fs = n) \<and>
    vb_capacity (vbbm_shm s') = vb_capacity (vbbm_shm s) +
      (if n = 0 then VBSTORAGE_INCREMENT_COUNT else 0) \<and>
    vb_nBuckets (vbbm_shm s') = vb_nBuckets (vbbm_shm s) +
      (if n = 0 then VBTABLE_INCREMENT_COUNT else 0)"
  using vbbm_resize_correct [OF vbbm_obj_wf_struct [OF s(1)] n] s
  unfolding vb_packed_take [OF s(2)] vb_abs_def [symmetric]
  by (auto simp: vbbm_obj_wf_def vbbm_obj_struct_def vb_wf_def)

lemma vbbm_on_Some:
  assumes "f (vbbm_shm s) = Some (g, imgs)"
  shows "vbbm_on f s = Some (s\<lparr>vbbm_shm := g,
    vbbm_undoRecords := vbbm_undoRecords s @ map (Pair (vbbm_mapping s)) imgs\<rparr>)"
  using assms by (simp add: vbbm_on_def)

lemma vbbm_insert_correct:
  assumes s: "vbbm_obj_wf s" and l: "l \<noteq> -1"
  shows "\<exists>s'. vbbm_insert l v d f loading s = Some s' \<and> vbbm_obj_wf s' \<and>
    vb_abs (vbbm_shm s') = add_mset (l, v, d, f) (vb_abs (vbbm_shm s)) \<and>
    vb_files (vbbm_shm s') = vb_files (vbbm_shm s) \<and>
    vb_currentSize (vbbm_shm s') = vb_currentSize (vbbm_shm s) + 1 \<and>
    vb_capacity (vbbm_shm s) \<le> vb_capacity (vbbm_shm s')"
proof -
  let ?e = "\<lparr>vb_lbid = l, vb_vbOids = d, vb_vbFbo = f, vb_verID = v, vb_next = -1\<rparr>"
  let ?full = "vb_currentSize (vbbm_shm s) = vb_capacity (vbbm_shm s)"
  obtain t where t: "(if ?full then vbbm_resize 0 s else Some s) = Some t" "vbbm_obj_wf t"
      "vb_abs (vbbm_shm t) = vb_abs (vbbm_shm s)" "vb_files (vbbm_shm t) = vb_files (vbbm_shm s)"
      "vb_currentSize (vbbm_shm t) = vb_currentSize (vbbm_shm s)"
      "vb_currentSize (vbbm_shm t) < vb_capacity (vbbm_shm t)"
      "vb_capacity (vbbm_shm s) \<le> vb_capacity (vbbm_shm t)"
  proof (cases ?full)
    case True
    then have "vb_packed (vbbm_shm s)" using s by (simp add: vbbm_obj_wf_def vb_packed_full)
    with vbbm_resize_packed [OF s, of 0] True that show thesis
      by (auto simp: VBSTORAGE_INCREMENT_COUNT_def)
  next
    case False
    have "vb_currentSize (vbbm_shm s) \<le> vb_capacity (vbbm_shm s)"
      using s by (auto simp: vbbm_obj_wf_def vb_wf_def vb_struct_def size_vb_abs)
    with False s that [of s] show thesis by simp
  qed
  have "vb_used ?e" using l by (simp add: vb_used_def)
  with vbbm_insert_seg_correct [of "vbbm_shm t" ?e loading] t obtain g imgs where
    g: "vbbm_insert_seg ?e loading (vbbm_shm t) = Some (g, imgs)" "vb_wf g"
      "vb_abs g = add_mset (l, v, d, f) (vb_abs (vbbm_shm t))" "vb_files g = vb_files (vbbm_shm t)"
      "vb_currentSize g = vb_currentSize (vbbm_shm t) + 1" "vb_capacity g = vb_capacity (vbbm_shm t)"
    by (auto simp: vbbm_obj_wf_def vb_payload_def)
  with t show ?thesis
    by (auto simp: vbbm_insert_def Let_def vbbm_on_Some vbbm_obj_wf_def)
qed

end
