(* ===== verification/Vbbm_Update.thy ===== *)
theory Vbbm_Update
  imports Vbbm_Invariant
begin

text \<open>
  Lookup and removal in the VBBM on the abstract table, and the undo records of its operations.
\<close>

section \<open>Searching a bucket\<close>

lemma vbbm_getIndex_cases:
  assumes "vb_struct g" "l \<noteq> -1"
  obtains (absent) prev where
      "vbbm_getIndex l v g = Some (-1, prev, vb_hash l v (vb_nBuckets g))"
      "\<And>d f. (l, v, d, f) \<notin># vb_abs g"
    | (present) b xs k ys where
      "vbbm_getIndex l v g = Some (int k, prev_of xs, b)" "b < length (vb_buckets g)"
      "is_chain vb_next (vb_storage g) (vb_buckets g ! b) (xs @ k # ys)"
      "k < length (vb_storage g)" "vb_lbid (vb_storage g ! k) = l" "vb_verID (vb_storage g ! k) = v"
proof -
  let ?st = "vb_storage g"
  let ?M = "\<lambda>e. vb_lbid e = l \<and> vb_verID e = v"
  define b where "b = vb_hash l v (vb_nBuckets g)"
  have b: "b < length (vb_buckets g)" using vb_struct_hash [OF assms(1)] by (simp add: b_def)
  obtain ks where ks: "is_chain vb_next ?st (vb_buckets g ! b) ks"
      "set ks = bucket_set vb_used vb_bkt ?st (vb_buckets g) b"
    using assms(1) b by (auto simp: vb_struct_def elim: hash_wfE)
  have all: "k \<in> set ks" if "k < length ?st" "?M (?st ! k)" for k
    using that assms ks(2) by (auto simp: bucket_set_def vb_used_def vb_bkt_def vb_struct_def b_def)
  note sc = scan_chain [OF ks(1)]
  from scan_list_prev [of ks ?M ?st "[]"] show thesis
  proof (elim disjE exE conjE)
    assume none: "\<forall>k \<in> set ks. \<not> ?M (?st ! k)"
      and s: "scan_list ?st (\<lambda>prev k e. if ?M e then Return (int k, prev) else Continue (int k))
        (prev_of []) ks = Continue (prev_of ([] @ ks))"
    have "(l, v, d, f) \<notin># vb_abs g" for d f
      using none all by (auto simp: in_vb_abs vb_payload_def)
    with s b show thesis
      by (intro absent [of "prev_of ks"]) (simp_all add: vbbm_getIndex_def b_def [symmetric] sc Let_def)
  next
    fix xs k ys
    assume k: "ks = xs @ k # ys" "vb_lbid (?st ! k) = l" "vb_verID (?st ! k) = v"
      "scan_list ?st (\<lambda>prev k e. if ?M e then Return (int k, prev) else Continue (int k))
        (prev_of []) ks = Return (int k, prev_of ([] @ xs))"
    with b ks is_chain_append [of vb_next ?st "vb_buckets g ! b" xs k ys] show thesis
      by (intro present [of k xs b ys])
        (simp_all add: vbbm_getIndex_def b_def [symmetric] sc Let_def)
  qed
qed

lemma vbbm_lookup_correct:
  assumes "vb_struct g" "0 \<le> l" "0 \<le> v"
  shows "(\<exists>d f. vbbm_lookup l v d0 f0 g = Some (Inr (0, d, f)) \<and> (l, v, d, f) \<in># vb_abs g) \<or>
    (vbbm_lookup l v d0 f0 g = Some (Inr (-1, d0, f0)) \<and> (\<forall>d f. (l, v, d, f) \<notin># vb_abs g))"
proof -
  from assms have l: "l \<noteq> -1" by simp
  show ?thesis
  proof (rule vbbm_getIndex_cases [OF assms(1) l, of v])
    fix prev
    assume "vbbm_getIndex l v g = Some (-1, prev, vb_hash l v (vb_nBuckets g))"
      "\<And>d f. (l, v, d, f) \<notin># vb_abs g"
    with assms show ?thesis by (simp add: vbbm_lookup_def)
  next
    fix b xs k ys
    let ?e = "vb_storage g ! k"
    assume k: "vbbm_getIndex l v g = Some (int k, prev_of xs, b)" "k < length (vb_storage g)"
      "vb_lbid ?e = l" "vb_verID ?e = v"
    then have "(l, v, vb_vbOids ?e, vb_vbFbo ?e) \<in># vb_abs g"
      using l by (auto simp: in_vb_abs vb_payload_def vb_used_def)
    with assms k(1) show ?thesis by (simp add: vbbm_lookup_def Let_def)
  qed
qed

section \<open>Removal\<close>

definition vb_removed :: "nat \<Rightarrow> vbbm_segment \<Rightarrow> vbbm_segment \<Rightarrow> bool" where
  "vb_removed k g g' \<longleftrightarrow>
    vb_abs g = add_mset (vb_payload (vb_storage g ! k)) (vb_abs g') \<and>
    vb_files g' = vb_files g \<and> vb_capacity g' = vb_capacity g \<and> vb_nBuckets g' = vb_nBuckets g \<and>
    vb_currentSize g' = vb_currentSize g - 1 \<and>
    length (vb_storage g') = length (vb_storage g) \<and>
    \<not> vb_used (vb_storage g' ! k) \<and>
    (\<forall>i < length (vb_storage g). i \<noteq> k \<longrightarrow>
      vb_payload (vb_storage g' ! i) = vb_payload (vb_storage g ! i))"

lemma vb_abs_unlinked:
  assumes k: "k < length (vb_storage g)" "vb_used (vb_storage g ! k)"
    and un: "unlinked vb_set_next vb_kill vb_next b p k (vb_storage g) (vb_buckets g) = (st', hb')"
    and g': "vb_storage g' = st'"
  shows "vb_abs g = add_mset (vb_payload (vb_storage g ! k)) (vb_abs g')"
proof -
  let ?st = "(vb_storage g)[k := vb_kill (vb_storage g ! k)]"
  have "st' = ?st \<or> st' = ?st[nat p := vb_set_next (vb_next (?st ! k)) (?st ! nat p)]"
    using un by (auto simp: unlinked_def Let_def split: if_splits)
  then have "map vb_payload (filter vb_used st') = map vb_payload (filter vb_used ?st)"
    using map_filter_update_same [of vb_used "vb_set_next (vb_next (?st ! k)) (?st ! nat p)" ?st
        "nat p" vb_payload]
    by auto
  then have "vb_abs g' = vb_abs (g\<lparr>vb_storage := ?st\<rparr>)"
    using g' by (simp add: vb_abs_def)
  with vb_abs_update [OF k(1), of "vb_kill (vb_storage g ! k)"] k(2) show ?thesis
    by simp
qed

lemma vb_unlink_correct:
  assumes wf: "vb_wf g" and b: "b < length (vb_buckets g)"
    and ch: "is_chain vb_next (vb_storage g) (vb_buckets g ! b) (xs @ k # ys)"
    and un: "unlinked vb_set_next vb_kill vb_next b (prev_of xs) k (vb_storage g) (vb_buckets g) = (st', hb')"
  defines "g' \<equiv> g\<lparr>vb_storage := st', vb_buckets := hb',
    vb_header := vb_header g\<lparr>vbCurrentSize := vb_currentSize g - 1,
      vbLWM := (if vb_LWM g > int k then int k else vb_LWM g)\<rparr>\<rparr>"
  shows "vb_wf g' \<and> vb_removed k g g'"
proof -
  have hwf: "hash_wf vb_used vb_next vb_bkt (vb_storage g) (vb_buckets g)"
    using wf by (simp add: vb_wf_def vb_struct_def)
  note dist = hash_wf_chain [OF hwf b ch]
  have k: "k < length (vb_storage g)" "vb_used (vb_storage g ! k)"
    using dist(2) by (auto simp: bucket_set_def)
  note nth = vb_entry.unlinked_nth [OF ch dist(1) un]
  have abs: "vb_abs g = add_mset (vb_payload (vb_storage g ! k)) (vb_abs g')"
    by (rule vb_abs_unlinked [OF k un]) (simp add: g'_def)
  have "vb_used (st' ! i)" if "i < nat (vb_LWM g')" for i
    using that wf nth(3) [of i] k
    by (auto simp: vb_wf_def vb_struct_def g'_def split: if_splits)
  then have "vb_struct g'"
    using wf nth(1,2) vb_entry.hash_wf_unlink [OF hwf b ch un]
    by (auto simp: vb_wf_def vb_struct_def g'_def)
  then have "vb_wf g'" using wf abs by (simp add: vb_wf_def g'_def)
  moreover have "vb_payload (st' ! i) = vb_payload (vb_storage g ! i)"
    if "i < length (vb_storage g)" "i \<noteq> k" for i
    using nth(4) [OF that] by auto
  ultimately show ?thesis
    using abs nth(1,3) k by (simp add: vb_removed_def g'_def)
qed

lemma vbbm_removeEntry_correct:
  assumes "vb_wf g" "l \<noteq> -1"
  shows "(\<exists>k g' imgs. vbbm_removeEntry l v g = Some (g', imgs) \<and> vb_wf g' \<and> vb_removed k g g' \<and>
      k < length (vb_storage g) \<and> vb_lbid (vb_storage g ! k) = l \<and> vb_verID (vb_storage g ! k) = v) \<or>
    vbbm_removeEntry l v g = Some (g, []) \<and> (\<forall>d f. (l, v, d, f) \<notin># vb_abs g)"
proof -
  have st: "vb_struct g" using assms by (simp add: vb_wf_def)
  show ?thesis
  proof (rule vbbm_getIndex_cases [OF st assms(2), of v])
    fix prev
    assume "vbbm_getIndex l v g = Some (-1, prev, vb_hash l v (vb_nBuckets g))"
      "\<And>d f. (l, v, d, f) \<notin># vb_abs g"
    then show ?thesis by (simp add: vbbm_removeEntry_def)
  next
    fix b xs k ys
    assume k: "vbbm_getIndex l v g = Some (int k, prev_of xs, b)" "b < length (vb_buckets g)"
      "is_chain vb_next (vb_storage g) (vb_buckets g ! b) (xs @ k # ys)"
      "k < length (vb_storage g)" "vb_lbid (vb_storage g ! k) = l" "vb_verID (vb_storage g ! k) = v"
    obtain st' hb' where un: "unlinked vb_set_next vb_kill vb_next b (prev_of xs) k
        (vb_storage g) (vb_buckets g) = (st', hb')" by fastforce
    from vb_unlink_correct [OF assms(1) k(2,3) un] k(1,4-6) un show ?thesis
      by (intro disjI1 exI [of _ k]) (simp add: vbbm_removeEntry_def Let_def)
  qed
qed

section \<open>Undo records\<close>

definition vb_undo_images :: "vbbm_image list \<Rightarrow> vbbm_segment \<Rightarrow> vbbm_segment" where
  "vb_undo_images imgs g = foldr vb_restore_image imgs g"

lemma vb_undo_images_simps [simp]:
  "vb_undo_images [] g = g"
  "vb_undo_images (m # ms) g = vb_restore_image m (vb_undo_images ms g)"
  "vb_undo_images (ms @ ms') g = vb_undo_images ms (vb_undo_images ms' g)"
  by (simp_all add: vb_undo_images_def)

lemma vbbm_insert_seg_undo:
  "vbbm_insert_seg e False g = Some (g', imgs) \<Longrightarrow> vb_undo_images imgs g' = g"
  by (auto simp: vbbm_insert_seg_def vbbm_insert0_def Let_def Option.bind_eq_Some_conv
      split: if_splits)

lemma vbbm_removeEntry_undo:
  "vbbm_removeEntry l v g = Some (g', imgs) \<Longrightarrow> vb_undo_images imgs g' = g"
  by (auto simp: vbbm_removeEntry_def unlinked_def Let_def Option.bind_eq_Some_conv
      split: if_splits)

lemma vb_undo_all_images:
  "undo_all vb_restore (map (Pair (vbbm_mapping s)) imgs) s =
    Some (s\<lparr>vbbm_shm := vb_undo_images imgs (vbbm_shm s)\<rparr>)"
  by (induction imgs) (simp_all add: vb_restore_def)

lemma vbbm_on_journalled:
  assumes "vbbm_on f s = Some s'"
    and "\<And>g imgs. f (vbbm_shm s) = Some (g, imgs) \<Longrightarrow> vb_undo_images imgs g = vbbm_shm s"
  shows "journalled vb_restore vbbm_undoRecords vb_set_undo s s'"
proof -
  obtain g imgs where f: "f (vbbm_shm s) = Some (g, imgs)"
    and s': "s' = s\<lparr>vbbm_shm := g,
      vbbm_undoRecords := vbbm_undoRecords s @ map (Pair (vbbm_mapping s)) imgs\<rparr>"
    using assms(1) by (auto simp: vbbm_on_def Option.bind_eq_Some_conv)
  have "undo_all vb_restore (map (Pair (vbbm_mapping s)) imgs) (vb_set_undo [] s') = Some (vb_set_undo [] s)"
    using vb_undo_all_images [of "vb_set_undo [] s'" imgs] assms(2) [OF f]
    by (simp add: s' vb_set_undo_def)
  then show ?thesis unfolding journalled_def by (intro exI conjI) (simp_all add: s')
qed

end
