(* ===== verification/Vbbm_Blocks.thy ===== *)
theory Vbbm_Blocks
  imports Vbbm_Update
begin

text \<open>
  \<^verbatim>\<open>VBBM::getBlocks\<close>: the ranges it hands out are the next blocks of the file, modulo
  its size, and once it has aged out what they held, no entry of the VBBM refers to them. The
  invariant behind this is \<open>vb_clean\<close>: the rest of the 100-block chunk at the allocation
  position of a file holds nothing.
\<close>

section \<open>Taking ranges\<close>

definition vb_file_ok :: "VBFileMetadata \<Rightarrow> bool" where
  "vb_file_ok f \<longleftrightarrow> 0 \<le> vf_nextOffset f \<and> vf_nextOffset f < vf_fileSize f \<and> vf_fileSize f < 2 ^ 31"

definition vb_range :: "VBFileMetadata \<Rightarrow> int \<Rightarrow> int \<Rightarrow> VBRange" where
  "vb_range f fbo n = \<lparr>vr_vbOID = vf_OID f, vr_vbFBO = fbo, vr_size = n\<rparr>"

definition vb_range_blocks :: "VBRange \<Rightarrow> int list" where
  "vb_range_blocks r = [vr_vbFBO r .. vr_vbFBO r + vr_size r - 1]"

lemma vb_take_range_eq:
  assumes "vb_file_ok f" "0 \<le> got" "got < num" "num \<le> vf_fileSize f"
  shows "vb_take_range num got f =
    (let left = vf_fileSize f - vf_nextOffset f; n = min (num - got) left
     in (vb_range f (vf_nextOffset f) n,
         f\<lparr>vf_nextOffset := (if n = left then 0 else vf_nextOffset f + n)\<rparr>, got + n))"
proof -
  have "s32 (vf_fileSize f - vf_nextOffset f) = vf_fileSize f - vf_nextOffset f"
    using assms by (intro s32_id) (auto simp: vb_file_ok_def)
  moreover have "u32 (min (num - got) (vf_fileSize f - vf_nextOffset f)) =
      min (num - got) (vf_fileSize f - vf_nextOffset f)"
    "u32 (vf_fileSize f - vf_nextOffset f) = vf_fileSize f - vf_nextOffset f"
    using assms by (auto simp: vb_file_ok_def intro!: u32_id)
  moreover have "u32 (vf_nextOffset f + n) = vf_nextOffset f + n" "s32 (got + n) = got + n"
    if "n = min (num - got) (vf_fileSize f - vf_nextOffset f)" for n
    using assms that by (auto simp: vb_file_ok_def intro!: u32_id s32_id)
  ultimately show ?thesis
    by (simp add: vb_take_range_def vb_range_def Let_def min_def)
qed

lemma vb_gather_done: "num \<le> got \<Longrightarrow> vb_gather num got f = Some (f, [], [])"
  by (subst vb_gather.simps) simp

lemma vb_gather_step:
  "got < num \<Longrightarrow> vb_take_range num got f = (r, f', got') \<Longrightarrow>
    vb_gather num got f = do { (f2, olds, rs) \<leftarrow> vb_gather num got' f'; Some (f2, f # olds, r # rs) }"
  by (subst vb_gather.simps) simp

text \<open>The loop runs at most twice.\<close>

lemma vb_gather_eq:
  assumes f: "vb_file_ok f" and num: "0 \<le> num" "num \<le> vf_fileSize f"
  defines "left \<equiv> vf_fileSize f - vf_nextOffset f"
  shows "vb_gather num 0 f = Some
    (if num = 0 then (f, [], [])
     else if num \<le> left then
       (f\<lparr>vf_nextOffset := (if num = left then 0 else vf_nextOffset f + num)\<rparr>, [f],
        [vb_range f (vf_nextOffset f) num])
     else (f\<lparr>vf_nextOffset := num - left\<rparr>, [f, f\<lparr>vf_nextOffset := 0\<rparr>],
           [vb_range f (vf_nextOffset f) left, vb_range f 0 (num - left)]))"
proof -
  have left: "0 < left" "left \<le> vf_fileSize f" "num - left < vf_fileSize f"
    using f num by (auto simp: vb_file_ok_def left_def)
  show ?thesis
  proof (cases "0 < num \<and> left < num")
    case True
    let ?f = "f\<lparr>vf_nextOffset := 0\<rparr>"
    have 1: "vb_take_range num 0 f = (vb_range f (vf_nextOffset f) left, ?f, left)"
      using vb_take_range_eq [OF f, of 0 num] num True by (simp add: left_def [symmetric] Let_def min_def)
    have "vb_file_ok ?f" using f by (auto simp: vb_file_ok_def)
    then have 2: "vb_take_range num left ?f =
        (vb_range f 0 (num - left), f\<lparr>vf_nextOffset := num - left\<rparr>, num)"
      using vb_take_range_eq [of ?f left num] num left True by (simp add: Let_def min_def vb_range_def)
    show ?thesis
      using True by (simp add: vb_gather_step [OF _ 1] vb_gather_step [OF _ 2] vb_gather_done)
  next
    case False
    show ?thesis
    proof (cases "num = 0")
      case True
      then show ?thesis by (simp add: vb_gather_done)
    next
      case nz: False
      have 1: "vb_take_range num 0 f = (vb_range f (vf_nextOffset f) num,
          f\<lparr>vf_nextOffset := (if num = left then 0 else vf_nextOffset f + num)\<rparr>, num)"
        using vb_take_range_eq [OF f, of 0 num] num False nz
        by (simp add: left_def [symmetric] Let_def min_def)
      show ?thesis
        using False nz num by (simp add: vb_gather_step [OF _ 1] vb_gather_done)
    qed
  qed
qed

text \<open>The blocks handed out are the \<open>num\<close> blocks from the allocation position on, modulo
  the file size.\<close>

lemma map_upto_shift: "map (\<lambda>i. a + i) [0..n - 1] = [a..a + n - 1]" for a n :: int
proof (rule nth_equalityI)
  show "length (map (\<lambda>i. a + i) [0..n - 1]) = length [a..a + n - 1]" by simp
qed simp

lemma vb_gather_blocks:
  assumes f: "vb_file_ok f" and num: "0 \<le> num" "num \<le> vf_fileSize f"
    and r: "vb_gather num 0 f = Some (f', olds, ranges)"
  shows "concat (map vb_range_blocks ranges) =
      map (\<lambda>i. (vf_nextOffset f + i) mod vf_fileSize f) [0..num - 1]"
    and "f' = f\<lparr>vf_nextOffset := (vf_nextOffset f + num) mod vf_fileSize f\<rparr>"
    and "vb_file_ok f'"
proof -
  define N where "N = vf_fileSize f"
  define p where "p = vf_nextOffset f"
  have pN: "0 \<le> p" "p < N" "N < 2 ^ 31" using f by (simp_all add: vb_file_ok_def N_def p_def)
  note g = vb_gather_eq [OF f num, unfolded r, folded N_def p_def]
  have small: "map (\<lambda>i. (p + i) mod N) [0..n - 1] = [p..p + n - 1]" if "n \<le> N - p" for n
  proof -
    have "map (\<lambda>i. (p + i) mod N) [0..n - 1] = map (\<lambda>i. p + i) [0..n - 1]"
      using pN that by (intro map_cong) auto
    then show ?thesis by (simp add: map_upto_shift)
  qed
  have wrap: "map (\<lambda>i. (p + i) mod N) [N - p..num - 1] = [0..num - (N - p) - 1]"
  proof (rule nth_equalityI)
    fix i assume "i < length (map (\<lambda>i. (p + i) mod N) [N - p..num - 1])"
    then have "int i < num - (N - p)" by simp
    moreover from this have "(p + (N - p + int i)) mod N = int i"
      using pN num by (simp add: N_def [symmetric])
    moreover from \<open>int i < _\<close> have "[N - p..num - 1] ! i = N - p + int i"
      by (intro nth_upto) simp
    ultimately show "map (\<lambda>i. (p + i) mod N) [N - p..num - 1] ! i = [0..num - (N - p) - 1] ! i"
      by simp
  qed simp
  have split: "[0..num - 1] = [0..N - p - 1] @ [N - p..num - 1]" if "N - p < num"
    using upto_split1 [of 0 "N - p" "num - 1"] pN that by simp
  show "concat (map vb_range_blocks ranges) = map (\<lambda>i. (vf_nextOffset f + i) mod vf_fileSize f) [0..num - 1]"
    unfolding N_def [symmetric] p_def [symmetric]
  proof (cases "num \<le> N - p")
    case True
    then have "ranges = (if num = 0 then [] else [vb_range f p num])"
      using g by (simp split: if_splits)
    then show "concat (map vb_range_blocks ranges) = map (\<lambda>i. (p + i) mod N) [0..num - 1]"
      by (simp add: small [OF True] vb_range_blocks_def vb_range_def)
  next
    case False
    then have "num \<noteq> 0" using pN by linarith
    with False g have "ranges = [vb_range f p (N - p), vb_range f 0 (num - (N - p))]" by simp
    moreover have "map (\<lambda>i. (p + i) mod N) [0..num - 1] = [p..N - 1] @ [0..num - (N - p) - 1]"
      using False small [of "N - p"] by (simp only: split not_le map_append wrap) simp
    ultimately show "concat (map vb_range_blocks ranges) = map (\<lambda>i. (p + i) mod N) [0..num - 1]"
      by (simp add: vb_range_blocks_def vb_range_def)
  qed
  have "(p + num) mod N = (if num < N - p then p + num else num - (N - p))"
  proof (cases "num < N - p")
    case False
    then have "(num - (N - p) + N) mod N = num - (N - p)"
      using pN num by (simp only: mod_add_self2) (simp add: N_def [symmetric])
    with False show ?thesis by (simp add: algebra_simps)
  qed (use pN num in simp)
  then show f': "f' = f\<lparr>vf_nextOffset := (vf_nextOffset f + num) mod vf_fileSize f\<rparr>"
    unfolding N_def [symmetric] p_def [symmetric]
    using g num pN by (auto simp: p_def split: if_splits)
  show "vb_file_ok f'"
    using pN unfolding f' by (simp add: vb_file_ok_def N_def)
qed

section \<open>Ageing out\<close>

text \<open>The block of file \<open>dbr\<close> an entry occupies, if it has a replica there.\<close>

definition vb_place :: "nat \<Rightarrow> int \<Rightarrow> VBBMEntry \<Rightarrow> int option" where
  "vb_place repSize dbr e =
    map_option (\<lambda>oi. uint (vb_vbFbo e ! oi)) (find (\<lambda>oi. uint (vb_vbOids e ! oi) = dbr) [0..<repSize])"

definition vb_occupies :: "nat \<Rightarrow> int \<Rightarrow> vbbm_segment \<Rightarrow> int \<Rightarrow> bool" where
  "vb_occupies repSize dbr g x \<longleftrightarrow>
    (\<exists>i < length (vb_storage g). vb_used (vb_storage g ! i) \<and>
      vb_place repSize dbr (vb_storage g ! i) = Some x)"

lemma vb_in_interval_place:
  "vb_in_interval repSize dbr lo hi e \<longleftrightarrow>
    vb_used e \<and> (\<exists>x. vb_place repSize dbr e = Some x \<and> lo \<le> x \<and> x \<le> hi)"
  by (auto simp: vb_in_interval_def vb_place_def vb_used_def split: option.splits)

lemma vb_place_payload: "vb_payload e = vb_payload e' \<Longrightarrow> vb_place repSize dbr e = vb_place repSize dbr e'"
  by (simp add: vb_payload_def vb_place_def)

text \<open>No two entries share a block and version.\<close>

definition vb_keys_unique :: "vbbm_segment \<Rightarrow> bool" where
  "vb_keys_unique g \<longleftrightarrow>
    (\<forall>i < length (vb_storage g). \<forall>j < length (vb_storage g).
      vb_used (vb_storage g ! i) \<and> vb_lbid (vb_storage g ! i) = vb_lbid (vb_storage g ! j) \<and>
      vb_verID (vb_storage g ! i) = vb_verID (vb_storage g ! j) \<longrightarrow> i = j)"

text \<open>A segment that arises from another by removing entries.\<close>

definition vb_below :: "vbbm_segment \<Rightarrow> vbbm_segment \<Rightarrow> bool" where
  "vb_below g g0 \<longleftrightarrow>
    length (vb_storage g) = length (vb_storage g0) \<and> vb_files g = vb_files g0 \<and>
    vb_capacity g = vb_capacity g0 \<and>
    (\<forall>i < length (vb_storage g). vb_used (vb_storage g ! i) \<longrightarrow>
      vb_payload (vb_storage g ! i) = vb_payload (vb_storage g0 ! i))"

lemma vb_used_payload: "vb_payload e = vb_payload e' \<Longrightarrow> vb_used e = vb_used e'"
  by (simp add: vb_payload_def vb_used_def)

lemma vb_below_refl: "vb_below g g"
  by (simp add: vb_below_def)

lemma vb_below_trans: "vb_below g g1 \<Longrightarrow> vb_below g1 g0 \<Longrightarrow> vb_below g g0"
  unfolding vb_below_def using vb_used_payload by metis

lemma vb_below_unique:
  assumes "vb_below g g0" "vb_keys_unique g0"
  shows "vb_keys_unique g"
  unfolding vb_keys_unique_def
proof (intro allI impI, elim conjE)
  fix i j
  assume ij: "i < length (vb_storage g)" "j < length (vb_storage g)" "vb_used (vb_storage g ! i)"
    "vb_lbid (vb_storage g ! i) = vb_lbid (vb_storage g ! j)"
    "vb_verID (vb_storage g ! i) = vb_verID (vb_storage g ! j)"
  then have "vb_used (vb_storage g ! j)" by (simp add: vb_used_def)
  with ij assms(1) have "vb_payload (vb_storage g ! i) = vb_payload (vb_storage g0 ! i)"
      "vb_payload (vb_storage g ! j) = vb_payload (vb_storage g0 ! j)"
      "length (vb_storage g) = length (vb_storage g0)"
    by (auto simp: vb_below_def)
  with ij assms(2) show "i = j"
    by (auto simp: vb_keys_unique_def vb_payload_def vb_used_def)
qed

lemma vb_below_interval:
  assumes "vb_below g g0" "i < length (vb_storage g)" "\<not> vb_in_interval n dbr lo hi (vb_storage g0 ! i)"
  shows "\<not> vb_in_interval n dbr lo hi (vb_storage g ! i)"
proof
  assume "vb_in_interval n dbr lo hi (vb_storage g ! i)"
  moreover from this have "vb_payload (vb_storage g ! i) = vb_payload (vb_storage g0 ! i)"
    using assms by (simp add: vb_below_def vb_in_interval_place)
  ultimately have "vb_in_interval n dbr lo hi (vb_storage g0 ! i)"
    unfolding vb_in_interval_place using vb_used_payload vb_place_payload by metis
  with assms(3) show False ..
qed

lemma vb_removed_below: "vb_removed k g g' \<Longrightarrow> vb_below g' g"
  by (auto simp: vb_removed_def vb_below_def)

text \<open>What each iteration keeps: both tables are well-formed, and every change is journalled.\<close>

definition vb_age_inv :: "VBBM \<Rightarrow> VSS \<Rightarrow> vb_age_state \<Rightarrow> bool" where
  "vb_age_inv b0 v0 st \<longleftrightarrow>
    (case st of (b, v, fl) \<Rightarrow>
      vbbm_obj_wf b \<and> vss_wf (vss_shm v) \<and> vb_below (vbbm_shm b) (vbbm_shm b0) \<and>
      journalled vb_restore vbbm_undoRecords vb_set_undo b0 b \<and>
      journalled vss_restore vss_undoRecords vss_set_undo v0 v)"

lemma vbbm_age_loop_rule:
  assumes "J A st"
    and "\<And>A i st. i \<in> set is \<Longrightarrow> J A st \<Longrightarrow>
      \<exists>r. f i st = Some r \<and> (case r of Inl st' \<Rightarrow> Q st' | Inr st' \<Rightarrow> J (insert i A) st')"
  shows "\<exists>r. vbbm_age_loop f is st = Some r \<and>
    (case r of Inl st' \<Rightarrow> Q st' | Inr st' \<Rightarrow> J (A \<union> set is) st')"
  using assms
proof (induction "is" arbitrary: A st)
  case (Cons i "is")
  from Cons.prems(2) [of i A st] Cons.prems(1) obtain r where
    r: "f i st = Some r" "case r of Inl st' \<Rightarrow> Q st' | Inr st' \<Rightarrow> J (insert i A) st'" by auto
  show ?case
  proof (cases r)
    case (Inl st')
    with r show ?thesis by simp
  next
    case (Inr st')
    with r(2) have "J (insert i A) st'" by simp
    moreover have "A \<union> set (i # is) = insert i A \<union> set is" by simp
    ultimately show ?thesis
      using Cons.IH [of "insert i A" st'] Cons.prems(2) Inr r(1)
      by (simp only: vbbm_age_loop.simps bind.bind_lunit sum.case) auto
  qed
qed simp

lemma vb_removed_slot:
  assumes "vb_wf g" "vb_keys_unique g" "i < length (vb_storage g)" "vb_used (vb_storage g ! i)"
  obtains g' imgs where
    "vbbm_removeEntry (vb_lbid (vb_storage g ! i)) (vb_verID (vb_storage g ! i)) g = Some (g', imgs)"
    "vb_wf g'" "vb_removed i g g'"
proof -
  let ?e = "vb_storage g ! i"
  have l: "vb_lbid ?e \<noteq> -1" using assms(4) by (simp add: vb_used_def)
  have "(vb_lbid ?e, vb_verID ?e, vb_vbOids ?e, vb_vbFbo ?e) \<in># vb_abs g"
    using assms(3,4) by (auto simp: in_vb_abs vb_payload_def)
  with vbbm_removeEntry_correct [OF assms(1) l, of "vb_verID ?e"] obtain k g' imgs where
    k: "vbbm_removeEntry (vb_lbid ?e) (vb_verID ?e) g = Some (g', imgs)" "vb_wf g'" "vb_removed k g g'"
      "k < length (vb_storage g)" "vb_lbid (vb_storage g ! k) = vb_lbid ?e"
      "vb_verID (vb_storage g ! k) = vb_verID ?e"
    by blast
  with assms have "k = i" by (auto simp: vb_keys_unique_def vb_used_def)
  with k that show thesis by blast
qed

lemma vbbm_age_entry_correct:
  assumes inv: "vb_age_inv b0 v0 (b, v, fl)" and uniq: "vb_keys_unique (vbbm_shm b0)"
    and i: "i < length (vb_storage (vbbm_shm b0))"
  shows "\<exists>r. vbbm_age_entry n dbr lo hi i (b, v, fl) = Some r \<and>
    (case r of
       Inl st \<Rightarrow> vb_age_inv b0 v0 st
     | Inr (b', v', fl') \<Rightarrow> vb_age_inv b0 v0 (b', v', fl') \<and> vb_below (vbbm_shm b') (vbbm_shm b) \<and>
         \<not> vb_in_interval n dbr lo hi (vb_storage (vbbm_shm b') ! i))"
proof (cases "vb_in_interval n dbr lo hi (vb_storage (vbbm_shm b) ! i)")
  case False
  with inv show ?thesis by (simp add: vbbm_age_entry_def vb_below_refl)
next
  case True
  let ?g = "vbbm_shm b"
  let ?l = "vb_lbid (vb_storage ?g ! i)" and ?ver = "vb_verID (vb_storage ?g ! i)"
  have used: "vb_used (vb_storage ?g ! i)" using True by (simp add: vb_in_interval_place)
  then have l: "?l \<noteq> -1" by (simp add: vb_used_def)
  have inv': "vb_wf ?g" "vss_wf (vss_shm v)" "vb_below ?g (vbbm_shm b0)"
    using inv by (auto simp: vb_age_inv_def vbbm_obj_wf_def)
  then have i': "i < length (vb_storage ?g)" using i by (simp add: vb_below_def)
  obtain lk where lk: "vss_isEntryLocked ?l ?ver (vss_shm v) = Some lk"
    using vss_isEntryLocked_correct [OF inv'(2) l] by blast
  obtain vg vimgs fl' where rm: "vss_removeEntry ?l ?ver (vss_shm v) = Some (vg, vimgs, fl')" "vss_wf vg"
    using vss_removeEntry_correct [OF inv'(2) l, of ?ver] by blast
  obtain g' imgs where g': "vbbm_removeEntry ?l ?ver ?g = Some (g', imgs)" "vb_wf g'" "vb_removed i ?g g'"
    using inv'(1) vb_below_unique [OF inv'(3) uniq] i' used by (rule vb_removed_slot)
  let ?b' = "b\<lparr>vbbm_shm := g', vbbm_undoRecords := vbbm_undoRecords b @ map (Pair (vbbm_mapping b)) imgs\<rparr>"
  let ?v' = "v\<lparr>vss_shm := vg, vss_undoRecords := vss_undoRecords v @ map (Pair (vss_mapping v)) vimgs\<rparr>"
  have b': "vbbm_on (vbbm_removeEntry ?l ?ver) b = Some ?b'" by (rule vbbm_on_Some) (rule g'(1))
  have v': "vss_removeEntry_obj ?l ?ver v = Some ?v'"
    unfolding vss_removeEntry_obj_def by (rule vss_on_Some) (simp add: rm)
  have "journalled vb_restore vbbm_undoRecords vb_set_undo b ?b'"
    using b' by (rule vbbm_on_journalled) (rule vbbm_removeEntry_undo)
  moreover have "journalled vss_restore vss_undoRecords vss_set_undo v ?v'"
    using vss_step_journalled [OF vss_step.remove [OF v']] .
  ultimately have "vb_age_inv b0 v0 (?b', ?v', fl @ fl')"
    using inv g'(2) rm(2) vb_below_trans [OF vb_removed_below [OF g'(3)] inv'(3)]
    by (auto simp: vb_age_inv_def vbbm_obj_wf_def intro: vbbm_log.journalled_trans vss_log.journalled_trans)
  moreover have "\<not> vb_in_interval n dbr lo hi (vb_storage g' ! i)"
    using g'(3) by (simp add: vb_in_interval_place vb_removed_def)
  ultimately show ?thesis
    using True inv lk rm(1) b' vb_removed_below [OF g'(3)]
    by (auto simp: vbbm_age_entry_def Let_def)
qed

definition vb_aged :: "nat \<Rightarrow> int \<Rightarrow> int \<Rightarrow> vbbm_segment \<Rightarrow> VBRange \<Rightarrow> bool" where
  "vb_aged n dbr fileSize g r \<longleftrightarrow>
    (case vb_age_interval fileSize r of
       None \<Rightarrow> True
     | Some (lo, hi) \<Rightarrow> (\<forall>x. lo \<le> x \<and> x \<le> hi \<longrightarrow> \<not> vb_occupies n dbr g x))"

lemma vb_aged_below: "vb_below g g0 \<Longrightarrow> vb_aged n dbr N g0 r \<Longrightarrow> vb_aged n dbr N g r"
proof -
  assume b: "vb_below g g0" and a: "vb_aged n dbr N g0 r"
  have "vb_occupies n dbr g x \<Longrightarrow> vb_occupies n dbr g0 x" for x
    using b vb_used_payload vb_place_payload unfolding vb_occupies_def vb_below_def by metis
  with a show ?thesis by (fastforce simp: vb_aged_def split: option.splits)
qed

lemma vbbm_age_range_correct:
  assumes inv: "vb_age_inv b0 v0 st" and uniq: "vb_keys_unique (vbbm_shm b0)"
  shows "\<exists>q. vbbm_age_range n dbr N r st = Some q \<and>
    (case q of
       Inl st' \<Rightarrow> vb_age_inv b0 v0 st'
     | Inr st' \<Rightarrow> vb_age_inv b0 v0 st' \<and> vb_below (vbbm_shm (fst st')) (vbbm_shm (fst st)) \<and>
         vb_aged n dbr N (vbbm_shm (fst st')) r)"
proof (cases "vb_age_interval N r")
  case None
  with inv show ?thesis by (simp add: vbbm_age_range_def vb_below_refl vb_aged_def)
next
  case (Some iv)
  obtain lo hi where iv: "iv = (lo, hi)" by fastforce
  let ?g = "vbbm_shm (fst st)"
  let ?is = "[0..<nat (vb_capacity ?g)]"
  define J where "J A st' \<longleftrightarrow> vb_age_inv b0 v0 st' \<and> vb_below (vbbm_shm (fst st')) ?g \<and>
    (\<forall>i \<in> A. i < length (vb_storage ?g) \<longrightarrow>
      \<not> vb_in_interval n dbr lo hi (vb_storage (vbbm_shm (fst st')) ! i))" for A st'
  have len: "length (vb_storage ?g) = length (vb_storage (vbbm_shm b0))"
      "nat (vb_capacity ?g) = length (vb_storage ?g)"
    using inv by (auto simp: vb_age_inv_def vb_below_def vbbm_obj_wf_def vb_wf_def vb_struct_def)
  have "\<exists>q. vbbm_age_loop (vbbm_age_entry n dbr lo hi) ?is st = Some q \<and>
      (case q of Inl st' \<Rightarrow> vb_age_inv b0 v0 st' | Inr st' \<Rightarrow> J ({} \<union> set ?is) st')"
  proof (rule vbbm_age_loop_rule)
    show "J {} st" using inv by (simp add: J_def vb_below_refl)
    fix A i st1
    assume "i \<in> set ?is" and J: "J A st1"
    then have i: "i < length (vb_storage (vbbm_shm b0))" using len by simp
    obtain b v fl where st1: "st1 = (b, v, fl)" by (cases st1) auto
    with J have inv1: "vb_age_inv b0 v0 (b, v, fl)" and below1: "vb_below (vbbm_shm b) ?g"
      by (simp_all add: J_def)
    from vbbm_age_entry_correct [OF inv1 uniq i] obtain q where
      q: "vbbm_age_entry n dbr lo hi i (b, v, fl) = Some q"
        "case q of Inl st \<Rightarrow> vb_age_inv b0 v0 st
         | Inr (b', v', fl') \<Rightarrow> vb_age_inv b0 v0 (b', v', fl') \<and> vb_below (vbbm_shm b') (vbbm_shm b) \<and>
             \<not> vb_in_interval n dbr lo hi (vb_storage (vbbm_shm b') ! i)"
      by blast
    have "J (insert i A) st2" if "q = Inr st2" for st2
    proof -
      obtain b' v' fl' where st2: "st2 = (b', v', fl')" by (cases st2) auto
      from q(2) that st2 have *: "vb_age_inv b0 v0 st2" "vb_below (vbbm_shm b') (vbbm_shm b)"
          "\<not> vb_in_interval n dbr lo hi (vb_storage (vbbm_shm b') ! i)" by auto
      have "length (vb_storage (vbbm_shm b')) = length (vb_storage ?g)"
        using *(2) below1 by (simp add: vb_below_def)
      then have "\<not> vb_in_interval n dbr lo hi (vb_storage (vbbm_shm b') ! j)"
        if "j \<in> A" "j < length (vb_storage ?g)" for j
        using J that vb_below_interval [OF *(2), of j] by (simp add: J_def st1)
      with * vb_below_trans [OF *(2) below1] show ?thesis by (auto simp: J_def st2)
    qed
    with q show "\<exists>q. vbbm_age_entry n dbr lo hi i st1 = Some q \<and>
        (case q of Inl st' \<Rightarrow> vb_age_inv b0 v0 st' | Inr st' \<Rightarrow> J (insert i A) st')"
      by (auto simp: st1 split: sum.splits)
  qed
  then obtain q where q: "vbbm_age_loop (vbbm_age_entry n dbr lo hi) ?is st = Some q"
      "case q of Inl st' \<Rightarrow> vb_age_inv b0 v0 st' | Inr st' \<Rightarrow> J ({} \<union> set ?is) st'"
    by blast
  have "vb_aged n dbr N (vbbm_shm (fst st')) r" if "J ({} \<union> set ?is) st'" for st'
  proof -
    from that have below: "vb_below (vbbm_shm (fst st')) ?g" by (simp add: J_def)
    then have len': "length (vb_storage (vbbm_shm (fst st'))) = length (vb_storage ?g)"
      by (simp add: vb_below_def)
    show ?thesis
      using that Some iv len(2) len' by (auto simp: J_def vb_aged_def vb_occupies_def vb_in_interval_place)
  qed
  with q have "case q of Inl st' \<Rightarrow> vb_age_inv b0 v0 st'
      | Inr st' \<Rightarrow> vb_age_inv b0 v0 st' \<and> vb_below (vbbm_shm (fst st')) ?g \<and> vb_aged n dbr N (vbbm_shm (fst st')) r"
    by (auto simp: J_def split: sum.splits)
  with q(1) Some iv show ?thesis by (simp add: vbbm_age_range_def)
qed

lemma vbbm_age_ranges_correct:
  assumes inv: "vb_age_inv b0 v0 st" and uniq: "vb_keys_unique (vbbm_shm b0)"
  shows "\<exists>q. vbbm_age_loop (vbbm_age_range n dbr N) rs st = Some q \<and>
    (case q of
       Inl st' \<Rightarrow> vb_age_inv b0 v0 st'
     | Inr st' \<Rightarrow> vb_age_inv b0 v0 st' \<and> (\<forall>r \<in> set rs. vb_aged n dbr N (vbbm_shm (fst st')) r))"
proof -
  define J where "J A st' \<longleftrightarrow> vb_age_inv b0 v0 st' \<and> (\<forall>r \<in> A. vb_aged n dbr N (vbbm_shm (fst st')) r)"
    for A st'
  have "\<exists>q. vbbm_age_loop (vbbm_age_range n dbr N) rs st = Some q \<and>
      (case q of Inl st' \<Rightarrow> vb_age_inv b0 v0 st' | Inr st' \<Rightarrow> J ({} \<union> set rs) st')"
  proof (rule vbbm_age_loop_rule)
    show "J {} st" using inv by (simp add: J_def)
    fix A r st1
    assume J: "J A st1"
    then have "vb_age_inv b0 v0 st1" by (simp add: J_def)
    from vbbm_age_range_correct [OF this uniq, of n dbr N r] J show "\<exists>q. vbbm_age_range n dbr N r st1 = Some q \<and>
        (case q of Inl st' \<Rightarrow> vb_age_inv b0 v0 st' | Inr st' \<Rightarrow> J (insert r A) st')"
      by (fastforce simp: J_def split: sum.splits intro: vb_aged_below)
  qed
  then show ?thesis unfolding J_def Un_empty_left .
qed

section \<open>Chunks\<close>

definition vb_chunk_end :: "int \<Rightarrow> int" where
  "vb_chunk_end x = (x + 99) div 100 * 100"

text \<open>Nothing is stored between the allocation position of a file and the end of its chunk.\<close>

definition vb_clean :: "nat \<Rightarrow> int \<Rightarrow> int \<Rightarrow> int \<Rightarrow> vbbm_segment \<Rightarrow> bool" where
  "vb_clean n dbr N p g \<longleftrightarrow> (\<forall>x. p \<le> x \<and> x < vb_chunk_end p \<and> x < N \<longrightarrow> \<not> vb_occupies n dbr g x)"

lemma chunk_bounds: "x div 100 * 100 \<le> x \<and> x < x div 100 * 100 + 100" for x :: int
  using div_mult_mod_eq [of x 100] pos_mod_bound [of 100 x] pos_mod_sign [of 100 x] by linarith

lemma vb_chunk_end_eq: "vb_chunk_end x = (if x mod 100 \<noteq> 0 then (x div 100 + 1) * 100 else x)"
proof -
  have "(m + 99) div 100 = (if m \<noteq> 0 then 1 else 0)" if "0 \<le> m" "m < 100" for m :: int
    using that by (auto intro!: int_div_pos_eq [where r = "m - 1"])
  then have "(x mod 100 + 99) div 100 = (if x mod 100 \<noteq> 0 then 1 else 0)" by simp
  moreover have "x + 99 = x mod 100 + 99 + 100 * (x div 100)" by simp
  then have "(x + 99) div 100 = x div 100 + (x mod 100 + 99) div 100"
    by (metis div_mult_self2 zero_neq_numeral)
  ultimately show ?thesis
    by (simp add: vb_chunk_end_def dvd_eq_mod_eq_0 [symmetric])
qed

lemma vb_chunk_end_Suc: "vb_chunk_end (x + 1) = (x div 100 + 1) * 100"
  using div_add_self2 [of 100 x] by (simp add: vb_chunk_end_def add.commute [of 100])

lemma vb_age_interval_eq:
  assumes "0 \<le> q" "0 < sz" "q + sz \<le> N" "N < 2 ^ 31"
  shows "vb_age_interval N (vb_range f q sz) =
    (if q mod 100 \<noteq> 0 \<and> q div 100 = (q + sz - 1) div 100 then None
     else Some (vb_chunk_end q, min N (((q + sz - 1) div 100 + 1) * 100 - 1)))"
proof -
  have 1: "u32 (q + sz - 1) = q + sz - 1" using assms by (intro u32_id) auto
  have 2: "u32 (((q + sz - 1) div 100 + 1) * 100 - 1) = ((q + sz - 1) div 100 + 1) * 100 - 1"
    using assms chunk_bounds [of "q + sz - 1"] by (intro u32_id) (simp_all add: algebra_simps)
  have 3: "u32 ((q div 100 + 1) * 100) = (q div 100 + 1) * 100"
    using assms chunk_bounds [of q] by (intro u32_id) (simp_all add: algebra_simps)
  show ?thesis
    unfolding vb_age_interval_def vb_range_def VBBM_CHUNK_SIZE_def vb_chunk_end_eq
    using 1 2 3 by (simp add: Let_def min_def)
qed

lemma vb_aged_range:
  assumes r: "0 \<le> q" "0 < sz" "q + sz \<le> N" "N < 2 ^ 31"
    and aged: "vb_aged n dbr N g (vb_range f q sz)" and clean: "vb_clean n dbr N q g"
  shows "\<forall>x. q \<le> x \<and> x < q + sz \<longrightarrow> \<not> vb_occupies n dbr g x" "vb_clean n dbr N (q + sz) g"
proof -
  have "\<not> vb_occupies n dbr g x" if "q \<le> x" "x < q + sz \<or> x < vb_chunk_end (q + sz)" "x < N" for x
  proof (cases "x < vb_chunk_end q")
    case True
    with clean that show ?thesis by (simp add: vb_clean_def)
  next
    case False
    have lim: "x \<le> ((q + sz - 1) div 100 + 1) * 100 - 1"
    proof -
      have "vb_chunk_end (q + sz) = ((q + sz - 1) div 100 + 1) * 100"
        using vb_chunk_end_Suc [of "q + sz - 1"] by simp
      with that chunk_bounds [of "q + sz - 1"] show ?thesis by auto
    qed
    have "\<not> (q mod 100 \<noteq> 0 \<and> q div 100 = (q + sz - 1) div 100)"
    proof
      assume "q mod 100 \<noteq> 0 \<and> q div 100 = (q + sz - 1) div 100"
      then have "vb_chunk_end q = ((q + sz - 1) div 100 + 1) * 100"
        by (simp add: vb_chunk_end_eq)
      with False lim show False by linarith
    qed
    with aged have "\<forall>x. vb_chunk_end q \<le> x \<and> x \<le> min N (((q + sz - 1) div 100 + 1) * 100 - 1) \<longrightarrow>
        \<not> vb_occupies n dbr g x"
      unfolding vb_aged_def vb_age_interval_eq [OF r] by simp
    with False lim that show ?thesis by simp
  qed
  with r show "\<forall>x. q \<le> x \<and> x < q + sz \<longrightarrow> \<not> vb_occupies n dbr g x" "vb_clean n dbr N (q + sz) g"
    by (auto simp: vb_clean_def)
qed

lemma vb_clean_start: "vb_clean n dbr N 0 g"
  by (auto simp: vb_clean_def vb_chunk_end_def)

lemma vb_ranges_free:
  assumes f: "vb_file_ok f" and num: "0 \<le> num" "num \<le> vf_fileSize f"
    and r: "vb_gather num 0 f = Some (f', olds, ranges)"
    and aged: "\<forall>r \<in> set ranges. vb_aged n dbr (vf_fileSize f) g r"
    and clean: "vb_clean n dbr (vf_fileSize f) (vf_nextOffset f) g"
  shows "\<forall>r \<in> set ranges. \<forall>x \<in> set (vb_range_blocks r). \<not> vb_occupies n dbr g x"
    and "vb_clean n dbr (vf_fileSize f) (vf_nextOffset f') g"
proof -
  define N where "N = vf_fileSize f"
  define p where "p = vf_nextOffset f"
  have pN: "0 \<le> p" "p < N" "N < 2 ^ 31" using f by (simp_all add: vb_file_ok_def N_def p_def)
  note g = vb_gather_eq [OF f num, unfolded r, folded N_def p_def]
  note num = num [folded N_def] and aged = aged [folded N_def] and clean = clean [folded N_def p_def]
  note range = vb_aged_range [where f = f and N = N, OF _ _ _ pN(3)]
  have "(\<forall>r \<in> set ranges. \<forall>x \<in> set (vb_range_blocks r). \<not> vb_occupies n dbr g x) \<and>
      vb_clean n dbr N (vf_nextOffset f') g"
  proof (cases "num \<le> N - p")
    case True
    show ?thesis
    proof (cases "num = 0")
      case True
      with g clean show ?thesis by (simp add: p_def)
    next
      case False
      with True g have eq: "ranges = [vb_range f p num]"
          "vf_nextOffset f' = (if num = N - p then 0 else p + num)" by simp_all
      have "vb_aged n dbr N g (vb_range f p num)" using aged eq(1) by simp
      note range [OF pN(1) _ _ this clean]
      moreover have "0 < num" "p + num \<le> N" using True False num by simp_all
      ultimately show ?thesis
        unfolding eq by (auto simp: vb_range_blocks_def vb_range_def vb_clean_start)
    qed
  next
    case False
    with pN have "num \<noteq> 0" by linarith
    with False g have eq: "ranges = [vb_range f p (N - p), vb_range f 0 (num - (N - p))]"
        "vf_nextOffset f' = num - (N - p)" by simp_all
    have aged': "vb_aged n dbr N g (vb_range f p (N - p))" "vb_aged n dbr N g (vb_range f 0 (num - (N - p)))"
      using aged eq(1) by simp_all
    note 1 = range(1) [OF pN(1) _ _ aged'(1) clean] and 2 = range [OF _ _ _ aged'(2) vb_clean_start]
    have "0 < N - p" "p + (N - p) \<le> N" "0 < num - (N - p)" "0 + (num - (N - p)) \<le> N"
      using False num pN by simp_all
    with 1 2 show ?thesis
      unfolding eq by (auto simp: vb_range_blocks_def vb_range_def)
  qed
  then show "\<forall>r \<in> set ranges. \<forall>x \<in> set (vb_range_blocks r). \<not> vb_occupies n dbr g x"
      "vb_clean n dbr (vf_fileSize f) (vf_nextOffset f') g"
    by (simp_all add: N_def)
qed

section \<open>The whole operation\<close>

lemma vbbm_grow_until_room:
  "vb_currentSize (vbbm_shm s) + num \<le> vb_capacity (vbbm_shm s) \<Longrightarrow> vbbm_grow_until num s = Some s"
  by (subst vbbm_grow_until.simps) simp

text \<open>The loop that makes room ends: each growth adds 10000 slots and keeps the recorded size.\<close>

lemma vbbm_grow_until_returns:
  assumes "vbbm_obj_struct s"
  shows "\<exists>s'. vbbm_grow_until num s = Some s' \<and> vbbm_obj_struct s' \<and>
    vb_currentSize (vbbm_shm s') = vb_currentSize (vbbm_shm s) \<and>
    vb_currentSize (vbbm_shm s') + num \<le> vb_capacity (vbbm_shm s') \<and>
    vb_files (vbbm_shm s') = vb_files (vbbm_shm s)"
  using assms
proof (induction "nat (vb_currentSize (vbbm_shm s) + num - vb_capacity (vbbm_shm s))"
    arbitrary: s rule: less_induct)
  case less
  show ?case
  proof (cases "vb_currentSize (vbbm_shm s) + num \<le> vb_capacity (vbbm_shm s)")
    case True
    with less.prems show ?thesis by (simp add: vbbm_grow_until_room)
  next
    case False
    obtain s1 where s1: "vbbm_resize 0 s = Some s1" "vbbm_obj_struct s1"
        "vb_currentSize (vbbm_shm s1) = vb_currentSize (vbbm_shm s)"
        "vb_files (vbbm_shm s1) = vb_files (vbbm_shm s)"
        "vb_capacity (vbbm_shm s1) = vb_capacity (vbbm_shm s) + VBSTORAGE_INCREMENT_COUNT"
      using vbbm_resize_correct [OF less.prems, of 0] by auto
    have "\<exists>s'. vbbm_grow_until num s1 = Some s' \<and> vbbm_obj_struct s' \<and>
        vb_currentSize (vbbm_shm s') = vb_currentSize (vbbm_shm s1) \<and>
        vb_currentSize (vbbm_shm s') + num \<le> vb_capacity (vbbm_shm s') \<and>
        vb_files (vbbm_shm s') = vb_files (vbbm_shm s1)"
      using s1 False by (intro less.hyps) (simp_all add: VBSTORAGE_INCREMENT_COUNT_def)
    with s1 False show ?thesis
      by (subst vbbm_grow_until.simps) simp
  qed
qed

lemma vb_undo_file_images:
  "i < length (vb_files g) \<Longrightarrow>
    vb_undo_images (map (VbFileImage i) (f # olds)) (g\<lparr>vb_files := (vb_files g)[i := f']\<rparr>) =
      g\<lparr>vb_files := (vb_files g)[i := f]\<rparr>"
  by (induction olds arbitrary: f) simp_all

lemma vb_gather_olds:
  assumes "vb_file_ok f" "0 \<le> num" "num \<le> vf_fileSize f" "vb_gather num 0 f = Some (f', olds, rs)"
  shows "olds = [] \<and> f' = f \<or> (\<exists>olds'. olds = f # olds')"
  using vb_gather_eq [OF assms(1-3)] assms(4) by (auto split: if_splits)

definition vb_dbr_file :: "int \<Rightarrow> vbbm_segment \<Rightarrow> VBFileMetadata" where
  "vb_dbr_file dbr g = vb_files g ! nat (dbr - 1)"

definition vb_has_file :: "int \<Rightarrow> vbbm_segment \<Rightarrow> bool" where
  "vb_has_file dbr g \<longleftrightarrow> 0 < dbr \<and> dbr \<le> nFiles (vb_header g) \<and>
    vf_OID (vb_dbr_file dbr g) = dbr \<and> vb_file_ok (vb_dbr_file dbr g)"

lemma vb_has_file_index:
  "vbbm_obj_wf b \<Longrightarrow> vb_has_file dbr (vbbm_shm b) \<Longrightarrow> nat (dbr - 1) < length (vb_files (vbbm_shm b))"
  by (auto simp: vb_has_file_def vbbm_obj_wf_def vb_wf_def vb_struct_def nat_less_iff)

lemma vb_has_file_add:
  fixes r :: uint16
  assumes "vb_has_file (uint r) (vbbm_shm b)"
  shows "vbbm_addVBFileIfNotExists cfg (uint r) b = Some (Inr (uint r - 1, b))"
proof -
  have "uint r < 2 ^ 16" using uint_bounded [of r] by simp
  then show ?thesis
    using assms by (simp add: vbbm_addVBFileIfNotExists_def vb_has_file_def u32_id)
qed

lemma vbbm_getBlocks_too_many:
  assumes wf: "vbbm_obj_wf b" and dbr: "dbr = uint (vbOID ! k)" "vb_has_file dbr (vbbm_shm b)"
    and num: "-(2 ^ 31) \<le> num" "num < 2 ^ 31" "num < 0 \<or> vf_fileSize (vb_dbr_file dbr (vbbm_shm b)) < num"
  shows "vbbm_getBlocks cfg n num vbOID k b v = Some (Inl (VBBMBufferOverFlowExcept
    ''VBBM::getBlocks(): num is larger than the size of the version buffer''), b, v)"
proof -
  have add: "vbbm_addVBFileIfNotExists cfg dbr b = Some (Inr (dbr - 1, b))"
    using vb_has_file_add dbr by simp
  have "vf_fileSize (vb_dbr_file dbr (vbbm_shm b)) < u32 num"
  proof (cases "num < 0")
    case True
    then have "u32 num = num + 2 ^ 32"
      using num(1) by (simp add: u32_def take_bit_eq_mod mod_add_self2 [of num, symmetric] del: mod_add_self2)
    with num(1) dbr(2) show ?thesis by (simp add: vb_has_file_def vb_file_ok_def)
  qed (use num in \<open>simp add: u32_id\<close>)
  moreover have "\<not> nat (dbr - 1) \<ge> length (vb_files (vbbm_shm b))"
    using vb_has_file_index [OF wf dbr(2)] by simp
  ultimately show ?thesis
    using dbr(2) add by (simp add: vbbm_getBlocks_def dbr(1) [symmetric] vb_dbr_file_def vb_has_file_def Let_def)
qed

definition vb_blocks_result ::
  "nat \<Rightarrow> int \<Rightarrow> int \<Rightarrow> VBBM \<Rightarrow> (VBRange list \<times> LBID_t list) res \<Rightarrow> VBBM \<Rightarrow> bool" where
  "vb_blocks_result n dbr num b out b' \<longleftrightarrow>
    (let f = vb_dbr_file dbr (vbbm_shm b); N = vf_fileSize f; p = vf_nextOffset f
     in case out of
          Inl err \<Rightarrow> True
        | Inr (ranges, fl) \<Rightarrow>
            concat (map vb_range_blocks ranges) = map (\<lambda>i. (p + i) mod N) [0..num - 1] \<and>
            vb_dbr_file dbr (vbbm_shm b') = f\<lparr>vf_nextOffset := (p + num) mod N\<rparr> \<and>
            (vb_clean n dbr N p (vbbm_shm b) \<longrightarrow>
              list_all (\<lambda>x. \<not> vb_occupies n dbr (vbbm_shm b') x) (concat (map vb_range_blocks ranges)) \<and>
              vb_clean n dbr N ((p + num) mod N) (vbbm_shm b')))"

lemma vb_clean_below:
  assumes "vb_below g g0" "vb_clean n dbr N p g0"
  shows "vb_clean n dbr N p g"
proof -
  have "vb_occupies n dbr g x \<Longrightarrow> vb_occupies n dbr g0 x" for x
    using assms(1) vb_used_payload vb_place_payload unfolding vb_occupies_def vb_below_def by metis
  with assms(2) show ?thesis unfolding vb_clean_def by blast
qed

lemma vbbm_getBlocks_correct:
  assumes wf: "vbbm_obj_wf b" "vb_keys_unique (vbbm_shm b)" "vss_wf (vss_shm v)"
    and dbr: "dbr = uint (vbOID ! k)" "vb_has_file dbr (vbbm_shm b)"
    and num: "0 \<le> num" "num \<le> vf_fileSize (vb_dbr_file dbr (vbbm_shm b))"
    and room: "vb_currentSize (vbbm_shm b) + num \<le> vb_capacity (vbbm_shm b)"
  shows "\<exists>out b' v'. vbbm_getBlocks cfg n num vbOID k b v = Some (out, b', v') \<and>
    vbbm_obj_wf b' \<and> vss_wf (vss_shm v') \<and>
    journalled vb_restore vbbm_undoRecords vb_set_undo b b' \<and>
    journalled vss_restore vss_undoRecords vss_set_undo v v' \<and>
    vb_blocks_result n dbr num b out b'"
proof -
  let ?g = "vbbm_shm b"
  define i where "i = nat (dbr - 1)"
  define f where "f = vb_files ?g ! i"
  have i: "i < length (vb_files ?g)" using vb_has_file_index [OF wf(1) dbr(2)] by (simp add: i_def)
  have f: "vb_dbr_file dbr ?g = f" "vf_OID f = dbr" "vb_file_ok f"
    using dbr(2) by (simp_all add: vb_has_file_def vb_dbr_file_def f_def i_def)
  have add: "vbbm_addVBFileIfNotExists cfg dbr b = Some (Inr (dbr - 1, b))"
    using vb_has_file_add dbr by simp
  obtain f' olds ranges where g: "vb_gather num 0 f = Some (f', olds, ranges)"
    unfolding vb_gather_eq [OF f(3) num(1) num(2) [unfolded f(1)]] by (metis prod_cases3)
  note blocks = vb_gather_blocks [OF f(3) num(1) num(2) [unfolded f(1)] g]
  let ?b3 = "b\<lparr>vbbm_shm := ?g\<lparr>vb_files := (vb_files ?g)[i := f']\<rparr>,
    vbbm_undoRecords := vbbm_undoRecords b @ map (Pair (vbbm_mapping b)) (map (VbFileImage i) olds)\<rparr>"
  have b3: "vbbm_on (\<lambda>g. Some (g\<lparr>vb_files := (vb_files g)[i := f']\<rparr>, map (VbFileImage i) olds)) b = Some ?b3"
    by (rule vbbm_on_Some) simp
  have undo3: "journalled vb_restore vbbm_undoRecords vb_set_undo b ?b3"
    using b3
  proof (rule vbbm_on_journalled)
    show "vb_undo_images imgs h = ?g"
      if "Some (?g\<lparr>vb_files := (vb_files ?g)[i := f']\<rparr>, map (VbFileImage i) olds) = Some (h, imgs)" for h imgs
      using that vb_gather_olds [OF f(3) num(1) num(2) [unfolded f(1)] g] vb_undo_file_images [OF i, of f]
      by (auto simp: f_def)
  qed
  have wf3: "vbbm_obj_wf ?b3" "vb_keys_unique (vbbm_shm ?b3)"
    using wf(1,2) by (simp_all add: vbbm_obj_wf_def vb_wf_def vb_struct_def vb_keys_unique_def)
  have "vb_age_inv ?b3 v (?b3, v, [])"
    using wf3(1) wf(3)
    by (simp add: vb_age_inv_def vb_below_refl vbbm_log.journalled_refl vss_log.journalled_refl)
  from vbbm_age_ranges_correct [OF this wf3(2), of n dbr "vf_fileSize f'" ranges] obtain q where
    q: "vbbm_age_loop (vbbm_age_range n dbr (vf_fileSize f')) ranges (?b3, v, []) = Some q"
      "case q of Inl st \<Rightarrow> vb_age_inv ?b3 v st
       | Inr st \<Rightarrow> vb_age_inv ?b3 v st \<and> (\<forall>r \<in> set ranges. vb_aged n dbr (vf_fileSize f') (vbbm_shm (fst st)) r)"
    by blast
  have get: "vbbm_getBlocks cfg n num vbOID k b v = Some (case q of
      Inl (b4, v4, _) \<Rightarrow> (Inl (VBBMBufferOverFlowExcept ''VBBM::getBlocks(): version buffer overflow''), b4, v4)
    | Inr (b4, v4, flushList) \<Rightarrow> (Inr (ranges, flushList), b4, v4))"
  proof -
    have "u32 num = num" using num f by (intro u32_id) (auto simp: vb_file_ok_def)
    with i num f show ?thesis
      unfolding vbbm_getBlocks_def dbr(1) [symmetric]
      by (simp add: add i_def [symmetric] f_def [symmetric] vbbm_grow_until_room [OF room] g b3 q(1) Let_def del: map_map)
  qed
  have kept: "vbbm_obj_wf b4 \<and> vss_wf (vss_shm v4) \<and>
      journalled vb_restore vbbm_undoRecords vb_set_undo b b4 \<and>
      journalled vss_restore vss_undoRecords vss_set_undo v v4" if "vb_age_inv ?b3 v (b4, v4, fl)" for b4 v4 fl
    using that vbbm_log.journalled_trans [OF undo3] by (auto simp: vb_age_inv_def)
  show ?thesis
  proof (cases q)
    case (Inl st)
    obtain b4 v4 fl where "st = (b4, v4, fl)" by (cases st) auto
    with Inl get q(2) kept [of b4 v4 fl] show ?thesis by (simp add: vb_blocks_result_def Let_def)
  next
    case (Inr st)
    obtain b4 v4 fl where st: "st = (b4, v4, fl)" by (cases st) auto
    from q(2) Inr st have inv: "vb_age_inv ?b3 v (b4, v4, fl)"
        "\<forall>r \<in> set ranges. vb_aged n dbr (vf_fileSize f) (vbbm_shm b4) r"
      by (auto simp: blocks(2))
    then have below: "vb_below (vbbm_shm b4) (vbbm_shm ?b3)" by (simp add: vb_age_inv_def)
    have f4: "vb_dbr_file dbr (vbbm_shm b4) = f'"
      using below i by (simp add: vb_below_def vb_dbr_file_def i_def [symmetric])
    have "vb_blocks_result n dbr num b (Inr (ranges, fl)) b4"
      unfolding vb_blocks_result_def Let_def f(1) sum.case prod.case
    proof (intro conjI impI)
      show "concat (map vb_range_blocks ranges) = map (\<lambda>i. (vf_nextOffset f + i) mod vf_fileSize f) [0..num - 1]"
        by (rule blocks(1))
      show "vb_dbr_file dbr (vbbm_shm b4) = f\<lparr>vf_nextOffset := (vf_nextOffset f + num) mod vf_fileSize f\<rparr>"
        using f4 blocks(2) by simp
      assume "vb_clean n dbr (vf_fileSize f) (vf_nextOffset f) ?g"
      then have "vb_clean n dbr (vf_fileSize f) (vf_nextOffset f) (vbbm_shm ?b3)"
        by (simp add: vb_clean_def vb_occupies_def)
      from vb_clean_below [OF below this]
      have "vb_clean n dbr (vf_fileSize f) (vf_nextOffset f) (vbbm_shm b4)" .
      note free = vb_ranges_free [OF f(3) num(1) num(2) [unfolded f(1)] g inv(2) this]
      show "list_all (\<lambda>x. \<not> vb_occupies n dbr (vbbm_shm b4) x) (concat (map vb_range_blocks ranges))"
        using free(1) by (auto simp: list_all_iff)
      show "vb_clean n dbr (vf_fileSize f) ((vf_nextOffset f + num) mod vf_fileSize f) (vbbm_shm b4)"
        using free(2) by (simp add: blocks(2))
    qed
    with Inr st get kept [OF inv(1)] show ?thesis by simp
  qed
qed

end
