(* ===== verification/Vbbm_Image.thy ===== *)
theory Vbbm_Image
  imports Vbbm_Blocks
begin

text \<open>
  The whole-table operations of the VBBM: saving and loading its image, and the consistency
  check.
\<close>

section \<open>Saving and loading\<close>

lemma vb_used_eta: "(\<lambda>e. vb_lbid e \<noteq> -1) = vb_used"
  by (simp add: fun_eq_iff vb_used_def)

definition vb_empty_obj :: "VBBM \<Rightarrow> bool" where
  "vb_empty_obj s \<longleftrightarrow> vbbm_obj_wf s \<and> vb_abs (vbbm_shm s) = {#}"

lemma vb_fresh_segment_simps:
  "vb_currentSize (vb_fresh_segment fs cap nb) = 0" "vb_files (vb_fresh_segment fs cap nb) = fs"
  by (simp_all add: vb_fresh_segment_def)

lemma vbbm_clear_correct:
  assumes s: "vbbm_obj_struct s" and c: "1 \<le> c"
  shows "\<exists>s'. vbbm_clear (Some c) s = Some (Inr s') \<and> vb_empty_obj s' \<and>
    length (vb_files (vbbm_shm s')) = length (vb_files (vbbm_shm s))"
proof -
  have "chooseShmkey KEYRANGE_VBBM_BASE (vbbm_tableShmkey s) \<noteq> vbbm_tableShmkey s"
    by (rule chooseShmkey_fresh) (simp_all add: KEYRANGE_VBBM_BASE_def)
  moreover have "vb_struct (vb_fresh_segment fs VBSTORAGE_INITIAL_COUNT VBTABLE_INITIAL_COUNT)"
      "vb_abs (vb_fresh_segment fs VBSTORAGE_INITIAL_COUNT VBTABLE_INITIAL_COUNT) = {#}" for fs
    by (rule vb_fresh_segment_struct; simp add: VBSTORAGE_INITIAL_COUNT_def VBTABLE_INITIAL_COUNT_def)+
  ultimately show ?thesis
    using s c by (auto simp: vbbm_clear_def vbbm_setCurrentFileSize_def vbbm_obj_struct_def vb_empty_obj_def
        vbbm_obj_wf_def vb_wf_def vb_fresh_segment_simps Let_def)
qed

lemma vb_empty_packed: "vb_empty_obj s \<Longrightarrow> vb_packed (vbbm_shm s)"
proof -
  assume s: "vb_empty_obj s"
  then have "filter vb_used (vb_storage (vbbm_shm s)) = []"
    by (simp add: vb_empty_obj_def vb_abs_def)
  then have "\<not> vb_used e" if "e \<in> set (vb_storage (vbbm_shm s))" for e
    using that by (simp add: filter_empty_conv)
  then show ?thesis
    by (auto simp: vb_packed_def list_all_iff dest: in_set_dropD)
qed

text \<open>The loop that adds file descriptors one at a time ends.\<close>

lemma vbbm_add_files_correct:
  assumes "vb_empty_obj s" "int (length (vb_files (vbbm_shm s))) \<le> n"
    and "3 \<le> length (vb_buckets (vbbm_shm s))"
  shows "\<exists>s'. vbbm_add_files n s = Some s' \<and> vb_empty_obj s' \<and> int (length (vb_files (vbbm_shm s'))) = n"
  using assms
proof (induction "nat (n - int (length (vb_files (vbbm_shm s))))" arbitrary: s)
  case 0
  then show ?case
    by (subst vbbm_add_files.simps)
      (simp add: vb_empty_obj_def vbbm_obj_wf_def vb_wf_def vb_struct_def)
next
  case (Suc m)
  have nf: "nFiles (vb_header (vbbm_shm s)) = int (length (vb_files (vbbm_shm s)))"
    using Suc.prems(1) by (simp add: vb_empty_obj_def vbbm_obj_wf_def vb_wf_def vb_struct_def)
  have "vbbm_obj_wf s" using Suc.prems(1) by (simp add: vb_empty_obj_def)
  from vbbm_resize_packed [OF this vb_empty_packed [OF Suc.prems(1)], of 1] Suc.prems
  obtain s1 fs where s1: "vbbm_resize 1 s = Some s1" "vbbm_obj_wf s1"
      "vb_abs (vbbm_shm s1) = vb_abs (vbbm_shm s)"
      "vb_files (vbbm_shm s1) = vb_files (vbbm_shm s) @ fs" "length fs = 1"
      "vb_nBuckets (vbbm_shm s1) = vb_nBuckets (vbbm_shm s)"
    by auto
  have "3 \<le> length (vb_buckets (vbbm_shm s1))"
    using Suc.prems s1(2,6) by (auto simp: vb_empty_obj_def vbbm_obj_wf_def vb_wf_def vb_struct_def)
  moreover have "vb_empty_obj s1" using s1(2,3) Suc.prems(1) by (simp add: vb_empty_obj_def)
  ultimately have "\<exists>s'. vbbm_add_files n s1 = Some s' \<and> vb_empty_obj s' \<and>
      int (length (vb_files (vbbm_shm s'))) = n"
    using Suc.hyps s1(4,5) by (intro Suc.hyps(1)) auto
  moreover have "nFiles (vb_header (vbbm_shm s)) < n" using Suc.hyps(2) nf by linarith
  ultimately show ?case
    using s1(1) by (subst vbbm_add_files.simps) simp
qed

lemma vbbm_load_entries_correct:
  assumes "vbbm_obj_wf s" "\<forall>e \<in> set es. vb_used e"
  shows "\<exists>s'. vbbm_load_entries (length es) es s = Some (Inr s') \<and> vbbm_obj_wf s' \<and>
    vb_files (vbbm_shm s') = vb_files (vbbm_shm s) \<and>
    vb_abs (vbbm_shm s') = vb_abs (vbbm_shm s) + mset (map vb_payload es)"
  using assms
proof (induction es arbitrary: s)
  case (Cons e es)
  then have "vb_lbid e \<noteq> -1" by (simp add: vb_used_def)
  from vbbm_insert_correct [OF Cons.prems(1) this, of "vb_verID e" "vb_vbOids e" "vb_vbFbo e" True]
  obtain t where t: "vbbm_insert (vb_lbid e) (vb_verID e) (vb_vbOids e) (vb_vbFbo e) True s = Some t"
      "vbbm_obj_wf t" "vb_abs (vbbm_shm t) = add_mset (vb_payload e) (vb_abs (vbbm_shm s))"
      "vb_files (vbbm_shm t) = vb_files (vbbm_shm s)"
    by (auto simp: vb_payload_def)
  with Cons.IH [OF t(2)] Cons.prems(2) show ?case by auto
qed simp

lemma vbbm_growForLoad_correct:
  assumes "vbbm_attached s"
  shows "vbbm_obj_wf (vbbm_growForLoad n s)" "vb_abs (vbbm_shm (vbbm_growForLoad n s)) = {#}"
    and "vb_files (vbbm_shm (vbbm_growForLoad n s)) = vb_files (vbbm_shm s)"
proof -
  define c where "c = (let n0 = (if n < VBSTORAGE_INITIAL_COUNT then VBSTORAGE_INITIAL_COUNT else n)
    in if n0 mod VBSTORAGE_INCREMENT_COUNT \<noteq> 0
       then (n0 div VBSTORAGE_INCREMENT_COUNT + 1) * VBSTORAGE_INCREMENT_COUNT else n0)"
  have s': "vbbm_shm (vbbm_growForLoad n s) = vb_fresh_segment (vb_files (vbbm_shm s)) c (c div 4)"
      "vbbm_attached (vbbm_growForLoad n s)"
    using assms by (simp_all add: vbbm_growForLoad_def c_def Let_def)
  define n0 where "n0 = (if n < 100000 then 100000 else n)"
  have c_eq: "c = (if n0 mod 10000 \<noteq> 0 then (n0 div 10000 + 1) * 10000 else n0)"
    unfolding c_def n0_def VBSTORAGE_INITIAL_COUNT_def VBSTORAGE_INCREMENT_COUNT_def Let_def ..
  have "n0 \<le> (n0 div 10000 + 1) * 10000"
    using div_mult_mod_eq [of n0 10000] pos_mod_bound [of 10000 n0] by (simp add: algebra_simps)
  moreover have "100000 \<le> n0" by (simp add: n0_def)
  ultimately have c: "100000 \<le> c"
    unfolding c_eq by (cases "n0 mod 10000 = 0")
      (simp_all only: if_False if_True refl not_True_eq_False not_False_eq_True)
  then have "25000 \<le> c div 4" using zdiv_mono1 [of 100000 c 4] by simp
  with c have "0 \<le> c" "0 < c div 4" by linarith+
  note f = vb_fresh_segment_struct [OF this, of "vb_files (vbbm_shm s)"]
  then show "vbbm_obj_wf (vbbm_growForLoad n s)" "vb_abs (vbbm_shm (vbbm_growForLoad n s)) = {#}"
    by (simp_all add: vbbm_obj_wf_def vb_wf_def s') (simp add: vb_fresh_segment_def)
  show "vb_files (vbbm_shm (vbbm_growForLoad n s)) = vb_files (vbbm_shm s)"
    by (simp add: s' vb_fresh_segment_def)
qed

lemma vbbm_clear_buckets:
  "vbbm_clear cfg s = Some (Inr s') \<Longrightarrow> length (vb_buckets (vbbm_shm s')) = 25000"
  by (auto simp: vbbm_clear_def Let_def vb_fresh_segment_def VBTABLE_INITIAL_COUNT_def
      split: sum.splits if_splits)

lemma vbbm_load_save_correct:
  assumes g: "vb_wf g" and s: "vbbm_obj_struct s" and c: "1 \<le> c"
  shows "\<exists>s'. vbbm_load (Some c) rep (vbbm_save g) s = Some (Inr s') \<and> vbbm_obj_wf s' \<and>
    vb_abs (vbbm_shm s') = vb_abs g \<and> vb_files (vbbm_shm s') = vb_files g"
proof -
  define es where "es = filter vb_used (vb_storage g)"
  define n where "n = length (vb_files g)"
  have st: "vb_struct g" "vb_currentSize g = int (length es)"
    using g by (simp_all add: vb_wf_def size_vb_abs es_def)
  have save: "vbbm_save g = \<lparr>vbf_magic = VBBM_MAGIC_V2, vbf_entries = int (length es), vbf_nFiles = int n,
      vbf_files = vb_files g, vbf_records = es\<rparr>"
    using st by (simp add: vbbm_save_def vb_struct_def n_def es_def vb_used_eta map_nth)
  have nf: "nFiles (vb_header (vbbm_shm s)) = int (length (vb_files (vbbm_shm s)))"
    using s by (simp add: vbbm_obj_struct_def vb_struct_def)
  have "vbbm_obj_struct (vbbm_truncate_files (int n) s)"
      "length (vb_files (vbbm_shm (vbbm_truncate_files (int n) s))) \<le> n"
    using s by (auto simp: vbbm_truncate_files_def vbbm_obj_struct_def vb_struct_def Let_def)
  with vbbm_clear_correct [OF this(1) c] obtain s1 where
    s1: "vbbm_clear (Some c) (vbbm_truncate_files (int n) s) = Some (Inr s1)" "vb_empty_obj s1"
      "length (vb_files (vbbm_shm s1)) \<le> n"
    by auto
  have "3 \<le> length (vb_buckets (vbbm_shm s1))" using vbbm_clear_buckets [OF s1(1)] by simp
  with s1(2,3) obtain s2 where
    s2: "vbbm_add_files (int n) s1 = Some s2" "vb_empty_obj s2" "length (vb_files (vbbm_shm s2)) = n"
    using vbbm_add_files_correct [of s1 "int n"] by auto
  define s3 where "s3 = vbbm_growForLoad (int (length es)) s2"
  define s4 where "s4 = s3\<lparr>vbbm_shm := (vbbm_shm s3)\<lparr>vb_files := vb_files g\<rparr>\<rparr>"
  have "vbbm_attached s2" using s2(2) by (simp add: vb_empty_obj_def vbbm_obj_wf_def)
  note s3 = vbbm_growForLoad_correct [OF this, of "int (length es)", folded s3_def]
  have s4: "vbbm_obj_wf s4" "vb_abs (vbbm_shm s4) = {#}"
    using s3 s2(3) by (simp_all add: s4_def vbbm_obj_wf_def vb_wf_def vb_struct_def n_def)
  obtain s' where s': "vbbm_load_entries (length es) es s4 = Some (Inr s')" "vbbm_obj_wf s'"
      "vb_files (vbbm_shm s') = vb_files (vbbm_shm s4)"
      "vb_abs (vbbm_shm s') = vb_abs (vbbm_shm s4) + mset (map vb_payload es)"
    using vbbm_load_entries_correct [OF s4(1), of es] by (auto simp: es_def)
  have "vbbm_load (Some c) rep (vbbm_save g) s = Some (Inr s')"
    using s1(1) s2(1) s'(1)
    by (simp add: vbbm_load_def vbbm_loadVersion2_def save VBBM_MAGIC_V1_def VBBM_MAGIC_V2_def
        n_def [symmetric] s3_def [symmetric] s4_def [symmetric] Let_def)
  moreover have "vb_abs (vbbm_shm s') = vb_abs g" unfolding s'(4) s4(2) vb_abs_def [of g] es_def by simp
  moreover have "vb_files (vbbm_shm s') = vb_files g" by (simp add: s'(3) s4_def)
  ultimately show ?thesis using s'(2) by blast
qed

section \<open>The consistency check\<close>

definition vb_unique :: "vbbm_segment \<Rightarrow> bool" where
  "vb_unique g = keys_unique vb_used (\<lambda>e. (vb_lbid e, vb_verID e)) (vb_storage g)"

text \<open>No two entries store their first replica at the same place.\<close>

definition vb_places_unique :: "vbbm_segment \<Rightarrow> bool" where
  "vb_places_unique g = keys_unique vb_used (\<lambda>e. (vb_vbOids e ! 0, vb_vbFbo e ! 0)) (vb_storage g)"

lemma vb_unique_keys: "vb_unique g \<longleftrightarrow> vb_keys_unique g"
  by (auto simp: vb_unique_def keys_unique_def vb_keys_unique_def vb_used_def)

lemma vbbm_check_places:
  assumes "vb_struct g"
  shows "check_all (vbbm_check_place g) [0..<nat (vb_capacity g)] = Some (if vb_places_unique g then Inr ()
    else Inl (Logic_error ''VBBM::checkConsistency(): 2 VBBM entries share space in the VB''))"
proof -
  let ?st = "vb_storage g"
  let ?P = "\<lambda>i. (vb_vbOids (?st ! i) ! 0, vb_vbFbo (?st ! i) ! 0)"
  have n: "nat (vb_capacity g) = length ?st" using assms by (simp add: vb_struct_def)
  have chk: "vbbm_check_place g i = Some (if vb_used (?st ! i) \<and>
        (\<exists>j. i < j \<and> j < length ?st \<and> vb_used (?st ! j) \<and> ?P j = ?P i)
      then Inl (Logic_error ''VBBM::checkConsistency(): 2 VBBM entries share space in the VB'') else Inr ())" for i
    by (auto simp: vbbm_check_place_def n list_ex_iff vb_used_def Let_def Suc_le_eq)
  show ?thesis
  proof (cases "vb_places_unique g")
    case True
    then have "vbbm_check_place g i = Some (Inr ())" if "i < length ?st" for i
      using that by (auto simp: chk vb_places_unique_def keys_unique_def)
    then have "check_all (vbbm_check_place g) [0..<length ?st] = Some (Inr ())"
      by (intro check_all_pass) simp
    with True show ?thesis by (simp add: n)
  next
    case False
    then obtain i j where "i < length ?st" "j < length ?st" "vb_used (?st ! i)" "vb_used (?st ! j)"
        "?P i = ?P j" "i < j"
      by (auto simp: vb_places_unique_def keys_unique_def) (metis linorder_neqE_nat)
    then have "check_all (vbbm_check_place g) [0..<length ?st] =
        Some (Inl (Logic_error ''VBBM::checkConsistency(): 2 VBBM entries share space in the VB''))"
      by (intro check_all_fail [where i = i]) (auto simp: chk)
    with False show ?thesis by (simp add: n)
  qed
qed

lemma vbbm_checkConsistency_correct:
  assumes wf: "vb_wf g"
  shows "vbbm_checkConsistency g = Some
    (if \<not> vb_unique g then Inl (Logic_error ''VBBM::checkConsistency(): Duplicate entry found'')
     else if \<not> vb_places_unique g then
       Inl (Logic_error ''VBBM::checkConsistency(): 2 VBBM entries share space in the VB'')
     else Inr ())"
proof -
  have st: "vb_struct g" using wf by (simp add: vb_wf_def)
  then have hash: "hash_wf vb_used vb_next vb_bkt (vb_storage g) (vb_buckets g)"
    by (simp add: vb_struct_def)
  have 1: "check_all (vbbm_check_chain g) (vb_buckets g) = Some (Inr ())"
    unfolding vbbm_check_chain_def vb_used_eta using hash by (rule check_unused_pass)
  have 2: "check_all (vbbm_check_LWM g) [0..<nat (vb_LWM g)] = Some (Inr ())"
    using st by (intro check_all_pass) (auto simp: vbbm_check_LWM_def vb_struct_def vb_used_def)
  have 3: "check_all (vbbm_check_unique g) (vb_buckets g) = Some (if vb_unique g then Inr ()
      else Inl (Logic_error ''VBBM::checkConsistency(): Duplicate entry found''))"
    unfolding vbbm_check_unique_def vb_unique_def using hash
    by (rule check_duplicate_decides) (simp add: vb_bkt_def)
  show ?thesis
    using 1 2 3 vbbm_check_places [OF st] by (simp add: vbbm_checkConsistency_def)
qed

end
