(* ===== verification/Vbbm_Properties.thy ===== *)
theory Vbbm_Properties
  imports Vbbm_Image Vss_Properties
begin

text \<open>
  The properties of the VBBM, each with a witness on a segment of three slots, one bucket and one
  version buffer file.
\<close>

section \<open>Concrete segments\<close>

text \<open>Version 4 of block 9 is stored at block 150 of file 1, version 3 of block 7 at block 20. The
  file's allocation position is 100.\<close>

definition vb_ex :: vbbm_segment where
  "vb_ex = \<lparr>
     vb_header = \<lparr>nFiles = 1, vbCapacity = 4, vbCurrentSize = 2, vbLWM = 1, vbNumHashBuckets = 1\<rparr>,
     vb_files = [\<lparr>vf_OID = 1, vf_fileSize = 1000, vf_nextOffset = 100\<rparr>],
     vb_buckets = [1],
     vb_storage =
      [\<lparr>vb_lbid = 9, vb_vbOids = [1, 0, 0, 0], vb_vbFbo = [150, 0, 0, 0], vb_verID = 4, vb_next = -1\<rparr>,
       \<lparr>vb_lbid = 7, vb_vbOids = [1, 0, 0, 0], vb_vbFbo = [20, 0, 0, 0], vb_verID = 3, vb_next = 0\<rparr>,
       vb_zero_entry, vb_zero_entry]\<rparr>"

definition vb_obj_of :: "vbbm_segment \<Rightarrow> VBBM" where
  "vb_obj_of g = \<lparr>vbbm_shm = g, vbbm_tableShmkey = KEYRANGE_VBBM_BASE + 1,
    vbbm_allocdSize = vbbm_initial_size 1, vbbm_attached = True, vbbm_mapping = 0, vbbm_undoRecords = []\<rparr>"

definition vb_wf_check :: "vbbm_segment \<Rightarrow> bool" where
  "vb_wf_check g \<longleftrightarrow>
    vb_capacity g = int (length (vb_storage g)) \<and>
    nFiles (vb_header g) = int (length (vb_files g)) \<and>
    vb_nBuckets g = int (length (vb_buckets g)) \<and> vb_buckets g \<noteq> [] \<and>
    hash_wf_check vb_used vb_next vb_bkt (vb_storage g) (vb_buckets g) \<and>
    0 \<le> vb_LWM g \<and>
    list_all (\<lambda>i. vb_used (vb_storage g ! i)) [0..<nat (vb_LWM g)] \<and>
    vb_currentSize g = int (length (filter vb_used (vb_storage g)))"

lemma vb_wf_checkI: "vb_wf_check g \<Longrightarrow> vb_wf g"
  by (auto simp: vb_wf_check_def vb_wf_def vb_struct_def size_vb_abs list_all_iff
      intro: hash_wf_checkI)

lemma vb_ex_wf: "vb_wf vb_ex"
  by (rule vb_wf_checkI) code_simp

lemma vb_obj_of_simps [simp]: "vbbm_shm (vb_obj_of g) = g" "vbbm_undoRecords (vb_obj_of g) = []"
  by (simp_all add: vb_obj_of_def)

lemma vb_obj_of_wf: "vb_wf g \<Longrightarrow> vbbm_obj_wf (vb_obj_of g)"
  by (simp add: vb_obj_of_def vbbm_obj_wf_def)

lemma vb_ex_abs:
  "vb_abs vb_ex = {#(9, 4, [1, 0, 0, 0], [150, 0, 0, 0]), (7, 3, [1, 0, 0, 0], [20, 0, 0, 0])#}"
  by (simp add: vb_abs_def vb_ex_def vb_used_def vb_payload_def vb_zero_entry_def)

lemma vb_ex_unique: "vb_keys_unique vb_ex"
  by (simp add: vb_keys_unique_def vb_ex_def vb_used_def vb_zero_entry_def All_less_Suc)

section \<open>Allocation\<close>


lemma vb_ex_has_file: "vb_has_file 1 vb_ex"
  by (simp add: vb_has_file_def vb_dbr_file_def vb_file_ok_def vb_ex_def)


text \<open>\<^verbatim>\<open>VBBM::getBlocks\<close> throws, without changing anything, when the request is larger than
  the file or negative.\<close>

lemma vbbm_getBlocks_too_large:
  assumes "vbbm_obj_wf b" "dbr = uint (vbOID ! k)" "vb_has_file dbr (vbbm_shm b)"
    and "-(2 ^ 31) \<le> num" "num < 2 ^ 31" "num < 0 \<or> vf_fileSize (vb_dbr_file dbr (vbbm_shm b)) < num"
  shows "vbbm_getBlocks cfg repSize num vbOID k b v = Some (Inl (VBBMBufferOverFlowExcept
    ''VBBM::getBlocks(): num is larger than the size of the version buffer''), b, v)"
  using assms by (rule vbbm_getBlocks_too_many)

lemma vbbm_getBlocks_too_large_witness:
  "vbbm_getBlocks None 1 1001 [1, 0, 0, 0] 0 (vb_obj_of vb_ex) vss_ex_obj = Some (Inl (VBBMBufferOverFlowExcept
    ''VBBM::getBlocks(): num is larger than the size of the version buffer''), vb_obj_of vb_ex, vss_ex_obj)"
  by (rule vbbm_getBlocks_too_large [where dbr = 1])
    (simp_all add: vb_ex_wf vb_obj_of_wf vb_ex_has_file, simp add: vb_ex_def vb_dbr_file_def)



section \<open>The table\<close>

text \<open>\<^verbatim>\<open>VBBM::lookup\<close> of a non-negative block and version returns 0 with the place of a stored
  version, or -1 without touching its outputs when the version is not stored; for a negative
  argument it throws.\<close>

lemma vbbm_lookup_finds:
  assumes "vb_struct g"
  shows "if l < 0 \<or> v < 0 then \<exists>msg. vbbm_lookup l v d0 f0 g = Some (Inl (Invalid_argument msg))
    else (\<exists>d f. vbbm_lookup l v d0 f0 g = Some (Inr (0, d, f)) \<and> (l, v, d, f) \<in># vb_abs g) \<or>
      (vbbm_lookup l v d0 f0 g = Some (Inr (-1, d0, f0)) \<and> (\<forall>d f. (l, v, d, f) \<notin># vb_abs g))"
  using vbbm_lookup_correct [OF assms, of l v d0 f0] by (auto simp: vbbm_lookup_def)

lemma vbbm_lookup_finds_witness:
  "vbbm_lookup 7 3 dbr_zero fbo_zero vb_ex = Some (Inr (0, [1, 0, 0, 0], [20, 0, 0, 0])) \<and>
   vbbm_lookup 7 4 dbr_zero fbo_zero vb_ex = Some (Inr (-1, dbr_zero, fbo_zero))"
proof -
  have "vb_struct vb_ex" using vb_ex_wf by (simp add: vb_wf_def)
  from vbbm_lookup_finds [OF this, of 7 3 dbr_zero fbo_zero]
    vbbm_lookup_finds [OF this, of 7 4 dbr_zero fbo_zero]
  show ?thesis by (auto simp: vb_ex_abs)
qed

text \<open>C29: \<^verbatim>\<open>VBBM::insert\<close> always returns, growing the segment when it is full. The segment stays
  well-formed, the abstract table gains exactly the new version and the file descriptors do not
  change.\<close>

theorem vbbm_insert_refines:
  assumes "vbbm_obj_wf s" "l \<noteq> -1"
  shows "\<exists>s'. vbbm_insert l v d f loading s = Some s' \<and> vbbm_obj_wf s' \<and>
    vb_abs (vbbm_shm s') = add_mset (l, v, d, f) (vb_abs (vbbm_shm s)) \<and>
    vb_files (vbbm_shm s') = vb_files (vbbm_shm s)"
  using vbbm_insert_correct [OF assms] by blast

theorem vbbm_insert_refines_witness:
  "\<exists>s'. vbbm_insert 9 6 [1, 0, 0, 0] [30, 0, 0, 0] False (vb_obj_of vb_ex) = Some s' \<and> vbbm_obj_wf s' \<and>
    vb_abs (vbbm_shm s') = add_mset (9, 6, [1, 0, 0, 0], [30, 0, 0, 0]) (vb_abs (vbbm_shm (vb_obj_of vb_ex))) \<and>
    vb_files (vbbm_shm s') = vb_files (vbbm_shm (vb_obj_of vb_ex))"
  by (rule vbbm_insert_refines) (simp_all add: vb_obj_of_wf vb_ex_wf)

text \<open>\<^verbatim>\<open>VBBM::removeEntry\<close> removes one entry of the given block and version, and does nothing
  when there is none. The segment stays well-formed.\<close>

lemma vbbm_removeEntry_refines:
  assumes "vb_wf g" "l \<noteq> -1"
  shows "\<exists>g' imgs. vbbm_removeEntry l v g = Some (g', imgs) \<and> vb_wf g' \<and>
    ((\<exists>d f. vb_abs g = add_mset (l, v, d, f) (vb_abs g')) \<or>
     g' = g \<and> imgs = [] \<and> (\<forall>d f. (l, v, d, f) \<notin># vb_abs g))"
  using vbbm_removeEntry_correct [OF assms, of v] assms(1)
  by (auto simp: vb_removed_def vb_payload_def)

lemma vbbm_removeEntry_refines_witness:
  "\<exists>g' imgs. vbbm_removeEntry 9 4 vb_ex = Some (g', imgs) \<and> vb_wf g' \<and>
    vb_abs g' = {#(7, 3, [1, 0, 0, 0], [20, 0, 0, 0])#}"
  using vbbm_removeEntry_refines [OF vb_ex_wf, of 9 4] by (auto simp: vb_ex_abs add_eq_conv_diff)

text \<open>C37: Growing the table, for room or for a file descriptor, walks only the first
  \<^verbatim>\<open>vbCurrentSize\<close> slots. After removals an entry can lie beyond them; it is found before the
  growth and not afterwards.\<close>

theorem vbbm_growth_loses_entries:
  assumes wf: "vbbm_obj_wf s" and uniq: "vb_keys_unique (vbbm_shm s)"
    and i: "vb_currentSize (vbbm_shm s) \<le> int i" "i < length (vb_storage (vbbm_shm s))"
    and e: "vb_storage (vbbm_shm s) ! i = e" "0 \<le> vb_lbid e" "0 \<le> vb_verID e"
    and n: "n \<le> length (vb_storage (vbbm_shm s))"
  shows "\<exists>s'. vbbm_resize n s = Some s' \<and>
    vbbm_lookup (vb_lbid e) (vb_verID e) d f (vbbm_shm s) = Some (Inr (0, vb_vbOids e, vb_vbFbo e)) \<and>
    vbbm_lookup (vb_lbid e) (vb_verID e) d f (vbbm_shm s') = Some (Inr (-1, d, f))"
proof -
  let ?st = "vb_storage (vbbm_shm s)"
  let ?l = "vb_lbid e" and ?v = "vb_verID e"
  have st: "vb_struct (vbbm_shm s)" using wf by (simp add: vbbm_obj_wf_def vb_wf_def)
  have same: "j = i" if "j < length ?st" "vb_payload (?st ! j) = (?l, ?v, d', f')" for j d' f'
    using that uniq i(2) e by (auto simp: vb_keys_unique_def vb_payload_def vb_used_def)
  obtain s' where s': "vbbm_resize n s = Some s'" "vb_struct (vbbm_shm s')"
      "vb_abs (vbbm_shm s') = mset (map vb_payload (filter vb_used (take (nat (vb_currentSize (vbbm_shm s))) ?st)))"
    using vbbm_resize_correct [OF vbbm_obj_wf_struct [OF wf], of n] n by (auto simp: vbbm_obj_struct_def)
  have "(?l, ?v, d', f') \<notin># vb_abs (vbbm_shm s')" for d' f'
  proof
    assume "(?l, ?v, d', f') \<in># vb_abs (vbbm_shm s')"
    then obtain j where "j < length ?st" "j < nat (vb_currentSize (vbbm_shm s))"
        "vb_payload (?st ! j) = (?l, ?v, d', f')"
      unfolding s'(3) by (fastforce simp: in_set_conv_nth)
    with same i(1) show False by fastforce
  qed
  with vbbm_lookup_correct [OF s'(2) e(2,3), of d f]
  have after: "vbbm_lookup ?l ?v d f (vbbm_shm s') = Some (Inr (-1, d, f))" by blast
  have "(?l, ?v, vb_vbOids e, vb_vbFbo e) \<in># vb_abs (vbbm_shm s)"
    using i(2) e by (auto simp: in_vb_abs vb_payload_def vb_used_def)
  moreover have "d' = vb_vbOids e \<and> f' = vb_vbFbo e" if "(?l, ?v, d', f') \<in># vb_abs (vbbm_shm s)" for d' f'
    using that same e(1) by (force simp: in_vb_abs vb_payload_def)
  ultimately have "vbbm_lookup ?l ?v d f (vbbm_shm s) = Some (Inr (0, vb_vbOids e, vb_vbFbo e))"
    using vbbm_lookup_correct [OF st e(2,3), of d f] by blast
  with s'(1) after show ?thesis by blast
qed

text \<open>A segment whose first slot has been vacated.\<close>

definition vb_ex_hole :: vbbm_segment where
  "vb_ex_hole = \<lparr>
     vb_header = \<lparr>nFiles = 1, vbCapacity = 4, vbCurrentSize = 1, vbLWM = 0, vbNumHashBuckets = 1\<rparr>,
     vb_files = [\<lparr>vf_OID = 1, vf_fileSize = 1000, vf_nextOffset = 100\<rparr>],
     vb_buckets = [1],
     vb_storage =
      [vb_zero_entry,
       \<lparr>vb_lbid = 7, vb_vbOids = [1, 0, 0, 0], vb_vbFbo = [20, 0, 0, 0], vb_verID = 3, vb_next = -1\<rparr>,
       vb_zero_entry, vb_zero_entry]\<rparr>"

lemma vb_ex_hole_wf: "vb_wf vb_ex_hole"
  by (rule vb_wf_checkI) code_simp

theorem vbbm_growth_loses_entries_witness:
  "\<exists>s'. vbbm_resize 1 (vb_obj_of vb_ex_hole) = Some s' \<and>
    vbbm_lookup 7 3 dbr_zero fbo_zero vb_ex_hole = Some (Inr (0, [1, 0, 0, 0], [20, 0, 0, 0])) \<and>
    vbbm_lookup 7 3 dbr_zero fbo_zero (vbbm_shm s') = Some (Inr (-1, dbr_zero, fbo_zero))"
proof -
  have "vb_keys_unique vb_ex_hole"
    by (simp add: vb_keys_unique_def vb_ex_hole_def vb_used_def vb_zero_entry_def All_less_Suc)
  then show ?thesis
    using vbbm_growth_loses_entries [OF vb_obj_of_wf [OF vb_ex_hole_wf], of 1 _ 1 dbr_zero fbo_zero]
    by (simp add: vb_ex_hole_def)
qed

section \<open>Whole-table operations\<close>

text \<open>C24: Loading a saved VBBM succeeds, whatever the table held before, and yields a well-formed
  table with the saved entries and file descriptors.\<close>

theorem vbbm_load_save:
  assumes "vb_wf g" "vbbm_obj_struct s" "1 \<le> c"
  shows "\<exists>s'. vbbm_load (Some c) repSize (vbbm_save g) s = Some (Inr s') \<and> vbbm_obj_wf s' \<and>
    vb_abs (vbbm_shm s') = vb_abs g \<and> vb_files (vbbm_shm s') = vb_files g"
  using assms by (rule vbbm_load_save_correct)

theorem vbbm_load_save_witness:
  "\<exists>s'. vbbm_load (Some 8192000) 1 (vbbm_save vb_ex) (vb_obj_of vb_ex_hole) = Some (Inr s') \<and> vbbm_obj_wf s' \<and>
    vb_abs (vbbm_shm s') = vb_abs vb_ex \<and> vb_files (vbbm_shm s') = vb_files vb_ex"
  by (rule vbbm_load_save) (simp_all add: vb_ex_wf vb_ex_hole_wf vb_obj_of_wf vbbm_obj_wf_struct)

text \<open>C33: On a well-formed segment \<^verbatim>\<open>VBBM::checkConsistency\<close> returns normally exactly when no two
  entries have the same block and version and no two entries store their first replica at the same
  place; otherwise it throws the error of the first of these that fails.\<close>

theorem vbbm_checkConsistency_decides:
  assumes "vb_wf g"
  shows "vbbm_checkConsistency g = Some
    (if \<not> vb_unique g then Inl (Logic_error ''VBBM::checkConsistency(): Duplicate entry found'')
     else if \<not> vb_places_unique g then
       Inl (Logic_error ''VBBM::checkConsistency(): 2 VBBM entries share space in the VB'')
     else Inr ())"
  using assms by (rule vbbm_checkConsistency_correct)

theorem vbbm_checkConsistency_decides_witness:
  "vbbm_checkConsistency vb_ex = Some (Inr ())"
proof -
  have "vb_unique vb_ex" "vb_places_unique vb_ex"
    by (simp_all add: vb_unique_def vb_places_unique_def keys_unique_def vb_ex_def vb_used_def
        vb_zero_entry_def All_less_Suc)
  with vbbm_checkConsistency_decides [OF vb_ex_wf] show ?thesis by simp
qed

end
