(* ===== verification/Std_Map.thy ===== *)
theory Std_Map
  imports Brm_Prelude
begin

text \<open>
  \<^verbatim>\<open>std::map\<close> with integer keys as the server components use it: an association list in
  ascending order of its keys, which is the order its iterators visit. \<^const>\<open>map_of\<close> is
  \<^verbatim>\<open>find\<close>.
\<close>

type_synonym 'v std_map = "(int \<times> 'v) list"

primrec sm_put :: "int \<Rightarrow> 'v \<Rightarrow> 'v std_map \<Rightarrow> 'v std_map" where
  "sm_put k v [] = [(k, v)]"
| "sm_put k v (x # xs) =
    (if k < fst x then (k, v) # x # xs
     else if k = fst x then (k, v) # xs
     else x # sm_put k v xs)"

definition sm_erase :: "int \<Rightarrow> 'v std_map \<Rightarrow> 'v std_map" where
  "sm_erase k xs = filter (\<lambda>x. fst x \<noteq> k) xs"

definition sm_wf :: "'v std_map \<Rightarrow> bool" where
  "sm_wf xs \<longleftrightarrow> sorted_wrt (<) (map fst xs)"

lemma sm_wf_Nil [simp]: "sm_wf []"
  by (simp add: sm_wf_def)

lemma sm_wf_Cons: "sm_wf (x # xs) \<longleftrightarrow> (\<forall>y \<in> set xs. fst x < fst y) \<and> sm_wf xs"
  by (simp add: sm_wf_def)

lemma set_sm_put_keys: "fst ` set (sm_put k v xs) = insert k (fst ` set xs)"
  by (induction xs) auto

lemma set_sm_put_subset: "set (sm_put k v xs) \<subseteq> insert (k, v) (set xs)"
  by (induction xs) auto

lemma sm_put_wf [simp]: "sm_wf xs \<Longrightarrow> sm_wf (sm_put k v xs)"
proof (induction xs)
  case (Cons x xs)
  then have less: "\<forall>y \<in> set xs. fst x < fst y" by (simp add: sm_wf_Cons)
  have "\<forall>y \<in> set (sm_put k v xs). fst y = k \<or> fst y \<in> fst ` set xs"
    using set_sm_put_keys [of k v xs] by blast
  with Cons less show ?case by (fastforce simp: sm_wf_Cons)
qed (simp add: sm_wf_Cons)

lemma sm_erase_wf [simp]: "sm_wf xs \<Longrightarrow> sm_wf (sm_erase k xs)"
  by (induction xs) (auto simp: sm_erase_def sm_wf_Cons)

lemma map_of_sm_put [simp]: "sm_wf xs \<Longrightarrow> map_of (sm_put k v xs) = (map_of xs)(k \<mapsto> v)"
proof (induction xs)
  case (Cons x xs)
  have "map_of xs k = None" if "k = fst x"
    using Cons.prems that by (force simp: sm_wf_Cons map_of_eq_None_iff)
  with Cons show ?case by (cases x) (auto simp: sm_wf_Cons fun_eq_iff)
qed simp

lemma map_of_sm_erase [simp]: "map_of (sm_erase k xs) = (map_of xs)(k := None)"
  by (induction xs) (auto simp: sm_erase_def fun_eq_iff)

lemma sm_wf_distinct: "sm_wf xs \<Longrightarrow> distinct (map fst xs)"
  by (induction xs) (auto simp: sm_wf_Cons)

lemma sm_in_iff: "sm_wf xs \<Longrightarrow> (k, v) \<in> set xs \<longleftrightarrow> map_of xs k = Some v"
  using sm_wf_distinct [of xs] by (simp add: map_of_eq_Some_iff)

lemma length_sm_put: "sm_wf xs \<Longrightarrow> map_of xs k = None \<Longrightarrow> length (sm_put k v xs) = Suc (length xs)"
  by (induction xs) (auto simp: sm_wf_Cons split: if_splits)

lemma sm_put_new:
  "map_of xs k = None \<Longrightarrow> \<exists>ys zs. xs = ys @ zs \<and> sm_put k v xs = ys @ (k, v) # zs"
proof (induction xs)
  case (Cons x xs)
  show ?case
  proof (cases "k < fst x")
    case True
    then show ?thesis by (intro exI [of _ "[]"] exI [of _ "x # xs"]) simp
  next
    case False
    with Cons obtain ys zs where "xs = ys @ zs" "sm_put k v xs = ys @ (k, v) # zs"
      by (auto split: if_splits)
    with False Cons.prems have "x # xs = (x # ys) @ zs \<and> sm_put k v (x # xs) = (x # ys) @ (k, v) # zs"
      by (auto split: if_splits)
    then show ?thesis by blast
  qed
qed simp

text \<open>Ordered maps with the same entries are equal.\<close>

lemma sm_ext:
  assumes "sm_wf xs" "sm_wf ys" "map_of xs = map_of ys"
  shows "xs = ys"
proof -
  have sorted: "sorted_wrt (<) (map fst zs)" if "sm_wf zs" for zs :: "'a std_map"
    using that by (simp add: sm_wf_def)
  have "set (map fst xs) = set (map fst ys)"
    using arg_cong [OF assms(3), of dom] by (simp add: dom_map_of_conv_image_fst)
  then have keys: "map fst xs = map fst ys"
    using sorted [OF assms(1)] sorted [OF assms(2)] by (intro strict_sorted_equal) simp_all
  have vals: "zs = map (\<lambda>k. (k, the (map_of zs k))) (map fst zs)" if "sm_wf zs" for zs :: "'a std_map"
  proof -
    have "(fst z, the (map_of zs (fst z))) = z" if "z \<in> set zs" for z
      using sm_in_iff [OF \<open>sm_wf zs\<close>, of "fst z" "snd z"] that by simp
    then have "map (\<lambda>z. (fst z, the (map_of zs (fst z)))) zs = zs" by (simp add: map_idI)
    then show ?thesis by (simp add: o_def)
  qed
  have "xs = map (\<lambda>k. (k, the (map_of xs k))) (map fst xs)" by (rule vals [OF assms(1)])
  also have "\<dots> = map (\<lambda>k. (k, the (map_of ys k))) (map fst ys)" by (simp only: keys assms(3))
  also have "\<dots> = ys" by (rule vals [OF assms(2), symmetric])
  finally show ?thesis .
qed

lemma sm_put_erase: "sm_wf xs \<Longrightarrow> map_of xs k = Some v \<Longrightarrow> sm_put k v (sm_erase k xs) = xs"
  by (rule sm_ext) (auto simp: fun_eq_iff)

lemma sm_put_put: "sm_wf xs \<Longrightarrow> map_of xs k = Some v \<Longrightarrow> sm_put k v (sm_put k w xs) = xs"
  by (rule sm_ext) (auto simp: fun_eq_iff)

lemma sm_erase_put: "sm_wf xs \<Longrightarrow> map_of xs k = None \<Longrightarrow> sm_erase k (sm_put k v xs) = xs"
  by (rule sm_ext) (auto simp: fun_eq_iff)

end
