(* ===== verification/Session_Manager.thy ===== *)
theory Session_Manager
  imports Byte_Stream Std_Map
begin

unbundle bit_operations_syntax

text \<open>
  The session manager, \<^verbatim>\<open>src/versioning/BRM/sessionmanagerserver.cpp\<close>: it hands out
  transaction ids and system change numbers, limits the number of concurrent transactions with a
  counting semaphore, keeps the system state flags, and persists the last ids and the flags in a
  12-byte file.

  The file is part of the state (the branch without HDFS). \<open>io\<close> says whether the write
  of an operation succeeds. \<^verbatim>\<open>newTxnID\<close> is modelled in the two parts between which it can
  wait: what it does on entry, and what it does once the semaphore is positive. \<open>sm_step\<close>
  interleaves them over a set of waiting callers.
\<close>

section \<open>State\<close>

record SessionManagerServer =
  unique32 :: "32 word"
  unique64 :: "64 word"
  maxTxns :: int
  verID :: int
  sysCatVerID :: int
  systemState :: "32 word"
  activeTxns :: "int std_map"
  semValue :: int
  txnid_file :: "byte list"

record TxnID =
  txn_id :: int
  txn_valid :: bool

definition invalid_txn :: TxnID where
  "invalid_txn = \<lparr>txn_id = 0, txn_valid = False\<rparr>"

definition SS_READY :: "32 word" where "SS_READY = 1"
definition SS_SUSPENDED :: "32 word" where "SS_SUSPENDED = 2"
definition SS_SUSPEND_PENDING :: "32 word" where "SS_SUSPEND_PENDING = 4"
definition SS_SHUTDOWN_PENDING :: "32 word" where "SS_SHUTDOWN_PENDING = 8"
definition SS_ROLLBACK :: "32 word" where "SS_ROLLBACK = 16"
definition SS_FORCE :: "32 word" where "SS_FORCE = 32"
definition SS_QUERY_READY :: "32 word" where "SS_QUERY_READY = 64"

section \<open>Persistence\<close>

text \<open>\<^verbatim>\<open>loadState\<close> on the bytes of the file: each of the three words is used if it is
  complete.\<close>

definition sm_load_word :: "nat \<Rightarrow> byte list \<Rightarrow> int option" where
  "sm_load_word off f =
    (let bs = file_read off 4 f in if length bs = 4 then Some (int_of_bytes bs) else None)"

definition sm_loadState :: "SessionManagerServer \<Rightarrow> SessionManagerServer" where
  "sm_loadState s =
    (let f = txnid_file s
     in s\<lparr>verID := (case sm_load_word 0 f of Some w \<Rightarrow> s32 w | None \<Rightarrow> verID s),
          sysCatVerID := (case sm_load_word 4 f of Some w \<Rightarrow> s32 w | None \<Rightarrow> sysCatVerID s),
          systemState := (case sm_load_word 8 f of
             Some w \<Rightarrow> word_of_int w AND NOT (SS_READY OR SS_QUERY_READY OR SS_SUSPEND_PENDING OR
               SS_SHUTDOWN_PENDING OR SS_ROLLBACK OR SS_FORCE)
           | None \<Rightarrow> 0)\<rparr>)"

text \<open>The constructor: \<open>cfg\<close> is \<^verbatim>\<open>SessionManager/MaxConcurrentTransactions\<close>, absent when
  the value is empty or cannot be read.\<close>

definition newSessionManagerServer :: "int option \<Rightarrow> byte list \<Rightarrow> SessionManagerServer" where
  "newSessionManagerServer cfg f =
    (let mx = (case cfg of Some t \<Rightarrow> if t < 1 then 1 else s32 t | None \<Rightarrow> 1)
     in sm_loadState \<lparr>unique32 = 0, unique64 = 0, maxTxns = mx, verID = 0, sysCatVerID = 0,
          systemState = 0, activeTxns = [], semValue = u32 mx, txnid_file = f\<rparr>)"

definition sm_reset :: "SessionManagerServer \<Rightarrow> SessionManagerServer" where
  "sm_reset s = s\<lparr>semValue := u32 (maxTxns s), activeTxns := []\<rparr>"

definition sm_saveSystemState :: "bool \<Rightarrow> SessionManagerServer \<Rightarrow> unit res \<times> SessionManagerServer" where
  "sm_saveSystemState io s =
    (let lSystemState = systemState s AND NOT (SS_READY OR SS_QUERY_READY OR SS_SUSPEND_PENDING OR
           SS_SHUTDOWN_PENDING OR SS_FORCE)
     in if io then (Inr (), s\<lparr>txnid_file := file_write 8 (le_bytes 4 (uint lSystemState)) (txnid_file s)\<rparr>)
        else (Inl (Runtime_error ''SessionManagerServer::saveSystemState(): write(systemState) failed''), s))"

definition sm_setSystemState ::
  "bool \<Rightarrow> 32 word \<Rightarrow> SessionManagerServer \<Rightarrow> unit res \<times> SessionManagerServer" where
  "sm_setSystemState io state s = sm_saveSystemState io (s\<lparr>systemState := systemState s OR state\<rparr>)"

definition sm_clearSystemState ::
  "bool \<Rightarrow> 32 word \<Rightarrow> SessionManagerServer \<Rightarrow> unit res \<times> SessionManagerServer" where
  "sm_clearSystemState io state s = sm_saveSystemState io (s\<lparr>systemState := systemState s AND NOT state\<rparr>)"

section \<open>Queries and unique numbers\<close>

definition sm_verID :: "SessionManagerServer \<Rightarrow> int \<times> int list" where
  "sm_verID s = (verID s, map snd (activeTxns s))"

definition sm_sysCatVerID :: "SessionManagerServer \<Rightarrow> int \<times> int list" where
  "sm_sysCatVerID s = (sysCatVerID s, map snd (activeTxns s))"

definition sm_getTxnID :: "int \<Rightarrow> SessionManagerServer \<Rightarrow> TxnID" where
  "sm_getTxnID session s =
    (case map_of (activeTxns s) session of
       Some i \<Rightarrow> \<lparr>txn_id = i, txn_valid = True\<rparr>
     | None \<Rightarrow> invalid_txn)"

definition sm_SIDTIDMap :: "SessionManagerServer \<Rightarrow> (int \<times> TxnID) list" where
  "sm_SIDTIDMap s = map (\<lambda>(sid, i). (sid, \<lparr>txn_id = i, txn_valid = True\<rparr>)) (activeTxns s)"

definition sm_getTxnCount :: "SessionManagerServer \<Rightarrow> int" where
  "sm_getTxnCount s = int (length (activeTxns s))"

definition sm_getUnique32 :: "SessionManagerServer \<Rightarrow> 32 word \<times> SessionManagerServer" where
  "sm_getUnique32 s = (unique32 s + 1, s\<lparr>unique32 := unique32 s + 1\<rparr>)"

definition sm_getUnique64 :: "SessionManagerServer \<Rightarrow> 64 word \<times> SessionManagerServer" where
  "sm_getUnique64 s = (unique64 s + 1, s\<lparr>unique64 := unique64 s + 1\<rparr>)"

section \<open>Transactions\<close>

text \<open>The part of \<^verbatim>\<open>newTxnID\<close> after the wait. \<open>None\<close> is a failed assertion.\<close>

definition sm_startTxn ::
  "bool \<Rightarrow> int \<Rightarrow> bool \<Rightarrow> SessionManagerServer \<Rightarrow> (TxnID res \<times> SessionManagerServer) option" where
  "sm_startTxn io session isDDL s =
    (let s1 = s\<lparr>semValue := semValue s - 1\<rparr>
     in if semValue s1 \<le> u32 (maxTxns s) then
          let v = verID s + 1;
              c = (if isDDL then sysCatVerID s + 1 else sysCatVerID s);
              s2 = s1\<lparr>verID := v, activeTxns := sm_put session v (activeTxns s), sysCatVerID := c\<rparr>
          in Some (if io
               then (Inr \<lparr>txn_id = v, txn_valid = True\<rparr>,
                     s2\<lparr>txnid_file := file_write 0 (le_bytes 4 v @ le_bytes 4 c) (txnid_file s)\<rparr>)
               else (Inl (Runtime_error ''SessionManagerServer::newTxnID(): write(verid) failed''), s2))
        else None)"

text \<open>The part before it: \<open>Return\<close> when the call returns or goes on at once, \<open>Continue\<close>
  when it has to wait.\<close>

definition sm_newTxnID ::
  "bool \<Rightarrow> int \<Rightarrow> bool \<Rightarrow> bool \<Rightarrow> SessionManagerServer
    \<Rightarrow> (unit, (TxnID res \<times> SessionManagerServer) option) control" where
  "sm_newTxnID io session block isDDL s =
    (case map_of (activeTxns s) session of
       Some i \<Rightarrow> Return (Some (Inr \<lparr>txn_id = i, txn_valid = True\<rparr>, s))
     | None \<Rightarrow>
         if \<not> block \<and> semValue s = 0 then Return (Some (Inr invalid_txn, s))
         else if semValue s = 0 then Continue ()
         else Return (sm_startTxn io session isDDL s))"

text \<open>\<^verbatim>\<open>finishTransaction\<close>, which \<^verbatim>\<open>committed\<close> and \<^verbatim>\<open>rolledback\<close> call. The result
  carries the caller's \<^verbatim>\<open>TxnID\<close>.\<close>

definition sm_finishTransaction ::
  "TxnID \<Rightarrow> SessionManagerServer \<Rightarrow> (TxnID res \<times> SessionManagerServer) option" where
  "sm_finishTransaction txn s =
    (if \<not> txn_valid txn then
       Some (Inl (Invalid_argument ''SessionManagerServer::finishTransaction(): transaction is invalid''), s)
     else let rest = filter (\<lambda>x. snd x \<noteq> txn_id txn) (activeTxns s);
              s1 = s\<lparr>activeTxns := rest\<rparr>
          in if list_ex (\<lambda>x. snd x = txn_id txn) (activeTxns s) then
               let s2 = s1\<lparr>semValue := u32 (semValue s + 1)\<rparr>
               in if semValue s2 \<le> u32 (maxTxns s) then Some (Inr (txn\<lparr>txn_valid := False\<rparr>), s2) else None
             else Some (Inl (Invalid_argument
               ''SessionManagerServer::finishTransaction(): transaction doesn't exist''), s1))"

text \<open>The server with the callers that wait inside \<^verbatim>\<open>newTxnID\<close>, as pairs of session and
  \<^verbatim>\<open>isDDL\<close>. A caller is woken when the semaphore is positive; any waiting caller may be.\<close>

type_synonym sm_system = "SessionManagerServer \<times> (int \<times> bool) list"

inductive sm_step :: "sm_system \<Rightarrow> sm_system \<Rightarrow> bool" where
  begin_txn: "session \<notin> fst ` set ws \<Longrightarrow> sm_newTxnID io session block isDDL s = Return (Some (r, s')) \<Longrightarrow>
    sm_step (s, ws) (s', ws)"
| wait_txn: "session \<notin> fst ` set ws \<Longrightarrow> sm_newTxnID io session block isDDL s = Continue () \<Longrightarrow>
    sm_step (s, ws) (s, ws @ [(session, isDDL)])"
| wake_txn: "(session, isDDL) \<in> set ws \<Longrightarrow> semValue s \<noteq> 0 \<Longrightarrow> sm_startTxn io session isDDL s = Some (r, s') \<Longrightarrow>
    sm_step (s, ws) (s', remove1 (session, isDDL) ws)"
| finish_txn: "sm_finishTransaction txn s = Some (r, s') \<Longrightarrow> sm_step (s, ws) (s', ws)"
| set_state: "sm_setSystemState io st s = (r, s') \<Longrightarrow> sm_step (s, ws) (s', ws)"
| clear_state: "sm_clearSystemState io st s = (r, s') \<Longrightarrow> sm_step (s, ws) (s', ws)"
| unique64: "sm_getUnique64 s = (u, s') \<Longrightarrow> sm_step (s, ws) (s', ws)"

section \<open>The invariant\<close>

definition sm_inv :: "sm_system \<Rightarrow> bool" where
  "sm_inv sys \<longleftrightarrow>
    (case sys of (s, ws) \<Rightarrow>
      1 \<le> maxTxns s \<and> maxTxns s < 2 ^ 31 \<and> sm_wf (activeTxns s) \<and>
      0 \<le> semValue s \<and> semValue s + int (length (activeTxns s)) = maxTxns s \<and>
      distinct (map snd (activeTxns s)) \<and> (\<forall>x \<in> set (activeTxns s). snd x \<le> verID s) \<and>
      distinct (map fst ws) \<and> (\<forall>w \<in> set ws. map_of (activeTxns s) (fst w) = None))"

lemma set_sm_put_new:
  "map_of xs k = None \<Longrightarrow> set (sm_put k v xs) = insert (k, v) (set xs)"
  using sm_put_new [of xs k v] by auto

lemma distinct_sm_put_new:
  assumes "map_of xs k = None" "distinct (map snd xs)" "v \<notin> snd ` set xs"
  shows "distinct (map snd (sm_put k v xs))"
proof -
  obtain ys zs where "xs = ys @ zs" "sm_put k v xs = ys @ (k, v) # zs"
    using sm_put_new [OF assms(1), of v] by blast
  with assms(2,3) show ?thesis by auto
qed

lemma sm_startTxn_inv:
  assumes inv: "sm_inv (s, ws)" and new: "map_of (activeTxns s) session = None" and sem: "semValue s \<noteq> 0"
    and r: "sm_startTxn io session isDDL s = Some (r, s')"
    and ws': "distinct (map fst ws')" "\<forall>w \<in> set ws'. w \<in> set ws \<and> fst w \<noteq> session"
  shows "sm_inv (s', ws')"
proof -
  have s': "maxTxns s' = maxTxns s" "verID s' = verID s + 1" "semValue s' = semValue s - 1"
      "activeTxns s' = sm_put session (verID s + 1) (activeTxns s)"
    using r by (auto simp: sm_startTxn_def Let_def split: if_splits)
  have "verID s + 1 \<notin> snd ` set (activeTxns s)" using inv by (force simp: sm_inv_def)
  then have "distinct (map snd (activeTxns s'))"
    unfolding s' using new inv by (intro distinct_sm_put_new) (simp_all add: sm_inv_def)
  moreover have "\<forall>x \<in> set (activeTxns s'). snd x \<le> verID s'"
    unfolding s' set_sm_put_new [OF new] using inv by (force simp: sm_inv_def)
  moreover have "int (length (activeTxns s')) = int (length (activeTxns s)) + 1"
    unfolding s' using inv length_sm_put [OF _ new] by (simp add: sm_inv_def)
  moreover have "\<forall>w \<in> set ws'. map_of (activeTxns s') (fst w) = None"
    using inv ws'(2) by (auto simp: sm_inv_def s')
  ultimately show ?thesis
    using inv sem ws'(1) s' by (auto simp: sm_inv_def)
qed

lemma length_filter_distinct_val:
  assumes "distinct (map snd xs)" "x \<in> set xs"
  shows "length (filter (\<lambda>y. snd y \<noteq> snd x) xs) + 1 = length xs"
  using assms
proof (induction xs)
  case (Cons y ys)
  show ?case
  proof (cases "y = x")
    case True
    with Cons.prems(1) have "snd x \<notin> snd ` set ys" by simp
    then have "filter (\<lambda>z. snd z \<noteq> snd x) ys = ys" unfolding filter_id_conv by (metis image_eqI)
    with True show ?thesis by simp
  next
    case False
    with Cons.prems have "x \<in> set ys" "snd y \<noteq> snd x" by auto
    with Cons show ?thesis by simp
  qed
qed simp

lemma sm_finishTransaction_inv:
  assumes inv: "sm_inv (s, ws)" and r: "sm_finishTransaction txn s = Some (r, s')"
  shows "sm_inv (s', ws)"
proof (cases "txn_valid txn \<and> list_ex (\<lambda>x. snd x = txn_id txn) (activeTxns s)")
  case False
  then have "s' = s \<or> s' = s\<lparr>activeTxns := filter (\<lambda>x. snd x \<noteq> txn_id txn) (activeTxns s)\<rparr>"
    and "txn_valid txn \<longrightarrow> filter (\<lambda>x. snd x \<noteq> txn_id txn) (activeTxns s) = activeTxns s"
    using r by (auto simp: sm_finishTransaction_def Let_def list_ex_iff filter_id_conv split: if_splits)
  moreover have "s' = s" if "\<not> txn_valid txn"
    using r that by (simp add: sm_finishTransaction_def)
  ultimately have "s' = s" by (cases "txn_valid txn") auto
  with inv show ?thesis by simp
next
  case True
  then obtain x where x: "x \<in> set (activeTxns s)" "snd x = txn_id txn" by (auto simp: list_ex_iff)
  have s': "maxTxns s' = maxTxns s" "verID s' = verID s" "semValue s' = u32 (semValue s + 1)"
      "activeTxns s' = filter (\<lambda>y. snd y \<noteq> snd x) (activeTxns s)"
    using r True by (auto simp: sm_finishTransaction_def Let_def x(2) split: if_splits)
  have "length (activeTxns s') + 1 = length (activeTxns s)"
    unfolding s' using inv x(1) by (intro length_filter_distinct_val) (simp_all add: sm_inv_def)
  moreover have "u32 (semValue s + 1) = semValue s + 1"
    using inv by (intro u32_id) (auto simp: sm_inv_def)
  moreover have "sm_wf (activeTxns s')"
    using inv unfolding s' sm_wf_def by (simp add: sm_inv_def sm_wf_def sorted_wrt_map sorted_wrt_filter)
  moreover have "distinct (map snd (activeTxns s'))"
    using inv unfolding s' by (simp add: sm_inv_def distinct_map_filter)
  moreover have "map_of (activeTxns s') k = None" if "map_of (activeTxns s) k = None" for k
    using that unfolding s' by (auto simp: map_of_eq_None_iff)
  ultimately show ?thesis
    using inv by (auto simp: sm_inv_def s'(1,2,3)) (auto simp: s'(4))
qed

lemma sm_saveSystemState_inv:
  assumes "sm_inv (s, ws)" "sm_saveSystemState io (s\<lparr>systemState := st\<rparr>) = (r, s')"
  shows "sm_inv (s', ws)"
proof -
  have "maxTxns s' = maxTxns s" "verID s' = verID s" "semValue s' = semValue s" "activeTxns s' = activeTxns s"
    using assms(2) by (auto simp: sm_saveSystemState_def Let_def split: if_splits)
  with assms(1) show ?thesis by (simp add: sm_inv_def)
qed

lemma distinct_map_remove1: "distinct (map f xs) \<Longrightarrow> distinct (map f (remove1 x xs))"
  using set_remove1_subset by (induction xs) fastforce+

lemma sm_step_inv:
  assumes "sm_step sys sys'" "sm_inv sys"
  shows "sm_inv sys'"
  using assms
proof (induction rule: sm_step.induct)
  case (begin_txn session ws io block isDDL s r s')
  show ?case
  proof (cases "map_of (activeTxns s) session")
    case None
    with begin_txn.hyps(2) have "s' = s \<or> semValue s \<noteq> 0 \<and> sm_startTxn io session isDDL s = Some (r, s')"
      by (simp add: sm_newTxnID_def split: if_splits)
    then show ?thesis
    proof
      assume "semValue s \<noteq> 0 \<and> sm_startTxn io session isDDL s = Some (r, s')"
      moreover have "distinct (map fst ws)" "\<forall>w \<in> set ws. w \<in> set ws \<and> fst w \<noteq> session"
        using begin_txn.prems begin_txn.hyps(1) by (auto simp: sm_inv_def)
      ultimately show ?thesis
        by (elim conjE) (rule sm_startTxn_inv [OF begin_txn.prems None])
    qed (use begin_txn.prems in simp)
  next
    case (Some i)
    with begin_txn show ?thesis by (simp add: sm_newTxnID_def)
  qed
next
  case (wait_txn session ws io block isDDL s)
  then have "map_of (activeTxns s) session = None"
    by (simp add: sm_newTxnID_def split: option.splits)
  with wait_txn show ?case by (simp add: sm_inv_def)
next
  case (wake_txn session isDDL ws s io r s')
  then have d: "distinct (map fst ws)" "map_of (activeTxns s) session = None"
    by (auto simp: sm_inv_def)
  have "distinct (map fst (remove1 (session, isDDL) ws))"
    using d(1) by (rule distinct_map_remove1)
  moreover have "\<forall>w \<in> set (remove1 (session, isDDL) ws). w \<in> set ws \<and> fst w \<noteq> session"
  proof
    fix w assume "w \<in> set (remove1 (session, isDDL) ws)"
    moreover have "distinct ws" using d(1) by (simp add: distinct_map)
    ultimately have w: "w \<in> set ws" "w \<noteq> (session, isDDL)" by (simp_all add: set_remove1_eq)
    with d(1) wake_txn(1) show "w \<in> set ws \<and> fst w \<noteq> session"
      by (auto simp: distinct_map inj_on_def)
  qed
  ultimately show ?case
    by (rule sm_startTxn_inv [OF wake_txn.prems d(2) wake_txn.hyps(2,3)])
next
  case (finish_txn txn s r s' ws)
  show ?case by (rule sm_finishTransaction_inv [OF finish_txn.prems finish_txn.hyps])
next
  case (set_state io st s r s' ws)
  show ?case
    by (rule sm_saveSystemState_inv [OF set_state.prems set_state.hyps [unfolded sm_setSystemState_def]])
next
  case (clear_state io st s r s' ws)
  show ?case
    by (rule sm_saveSystemState_inv [OF clear_state.prems clear_state.hyps [unfolded sm_clearSystemState_def]])
next
  case (unique64 s u s' ws)
  then have "s' = s\<lparr>unique64 := unique64 s + 1\<rparr>" by (auto simp: sm_getUnique64_def)
  with unique64.prems show ?case by (simp add: sm_inv_def)
qed

lemma sm_steps_inv:
  assumes "sm_step\<^sup>*\<^sup>* sys sys'" "sm_inv sys"
  shows "sm_inv sys'"
  using assms by induction (auto intro: sm_step_inv)

lemma newSessionManagerServer_inv:
  assumes "t < 2 ^ 31"
  shows "sm_inv (newSessionManagerServer (Some t) f, [])"
proof -
  have "s32 t = t" if "\<not> t < 1" using that assms by (intro s32_id) auto
  moreover have "u32 (if t < 1 then 1 else t) = (if t < 1 then 1 else t)"
    using assms by (intro u32_id) auto
  ultimately show ?thesis
    using assms by (simp add: newSessionManagerServer_def sm_loadState_def sm_inv_def Let_def split: if_splits)
qed

section \<open>Restart\<close>

lemma sm_load_word_write:
  "sm_load_word off (file_write off (le_bytes 4 x) f) = Some (take_bit 32 x)"
  using file_read_write_same [of off "le_bytes 4 x" f]
  by (simp add: sm_load_word_def int_of_le_bytes Let_def)

lemma sm_startTxn_file:
  assumes "sm_startTxn True session isDDL s = Some (r, s')"
  shows "sm_load_word 0 (txnid_file s') = Some (take_bit 32 (verID s'))"
    and "sm_load_word 4 (txnid_file s') = Some (take_bit 32 (sysCatVerID s'))"
proof -
  let ?v = "le_bytes 4 (verID s')" and ?c = "le_bytes 4 (sysCatVerID s')"
  have f: "txnid_file s' = file_write 0 (?v @ ?c) (txnid_file s)"
    using assms by (auto simp: sm_startTxn_def Let_def split: if_splits)
  have "file_read 0 4 (txnid_file s') = ?v" "file_read 4 4 (txnid_file s') = ?c"
    unfolding f by (simp_all add: file_read_def file_write_def)
  then show "sm_load_word 0 (txnid_file s') = Some (take_bit 32 (verID s'))"
      "sm_load_word 4 (txnid_file s') = Some (take_bit 32 (sysCatVerID s'))"
    by (simp_all add: sm_load_word_def int_of_le_bytes Let_def)
qed

lemma sm_restart_ids:
  assumes r: "sm_startTxn True session isDDL s = Some (r, s')"
    and b: "-(2 ^ 31) \<le> verID s'" "verID s' < 2 ^ 31" "-(2 ^ 31) \<le> sysCatVerID s'" "sysCatVerID s' < 2 ^ 31"
  shows "verID (newSessionManagerServer cfg (txnid_file s')) = verID s' \<and>
    sysCatVerID (newSessionManagerServer cfg (txnid_file s')) = sysCatVerID s'"
  using sm_startTxn_file [OF r] b
  by (simp add: newSessionManagerServer_def sm_loadState_def Let_def s32_take_bit s32_id)

lemma sm_restart_flags:
  assumes "sm_setSystemState True st s = (Inr (), s')"
  shows "systemState (newSessionManagerServer cfg (txnid_file s')) =
    systemState s' AND NOT (SS_READY OR SS_QUERY_READY OR SS_SUSPEND_PENDING OR
      SS_SHUTDOWN_PENDING OR SS_ROLLBACK OR SS_FORCE)"
proof -
  let ?m = "SS_READY OR SS_QUERY_READY OR SS_SUSPEND_PENDING OR SS_SHUTDOWN_PENDING OR SS_FORCE"
  have f: "txnid_file s' = file_write 8 (le_bytes 4 (uint (systemState s' AND NOT ?m))) (txnid_file s)"
    using assms by (auto simp: sm_setSystemState_def sm_saveSystemState_def Let_def)
  have "take_bit 32 (uint x) = uint x" for x :: "32 word"
    using uint_bounded [of x] by (simp add: take_bit_int_eq_self_iff)
  then show ?thesis
    by (intro bit_word_eqI)
      (auto simp: newSessionManagerServer_def sm_loadState_def f sm_load_word_write Let_def bit_simps)
qed

text \<open>Two callers of the same session that wait at the same time both start a transaction when they
  are woken. The second overwrites the first in \<^verbatim>\<open>activeTxns\<close>, the first can no longer be
  finished, and one slot of the semaphore is lost.\<close>

lemma sm_same_session_loses_slot:
  assumes wf: "sm_wf (activeTxns s)" and new: "map_of (activeTxns s) session = None"
    and ids: "\<forall>x \<in> set (activeTxns s). snd x \<le> verID s"
    and r: "sm_startTxn io session d s = Some (Inr t, s1)" "sm_startTxn io' session d' s1 = Some (r2, s2)"
  shows "semValue s2 + int (length (activeTxns s2)) = semValue s + int (length (activeTxns s)) - 1"
    and "sm_finishTransaction t s2 = Some (Inl (Invalid_argument
      ''SessionManagerServer::finishTransaction(): transaction doesn't exist''), s2)"
proof -
  let ?v = "verID s + 1"
  have s1: "activeTxns s1 = sm_put session ?v (activeTxns s)" "semValue s1 = semValue s - 1" "verID s1 = ?v"
      "t = \<lparr>txn_id = ?v, txn_valid = True\<rparr>"
    using r(1) by (auto simp: sm_startTxn_def Let_def split: if_splits)
  have s2: "activeTxns s2 = sm_put session (?v + 1) (activeTxns s1)" "semValue s2 = semValue s1 - 1"
    using r(2) s1(3) by (auto simp: sm_startTxn_def Let_def split: if_splits)
  obtain ys zs where yz: "activeTxns s = ys @ zs" "activeTxns s1 = ys @ (session, ?v) # zs"
    using sm_put_new [OF new, of ?v] s1(1) by auto
  have wf1: "sm_wf (activeTxns s1)" using wf s1(1) by simp
  then have "\<forall>y \<in> set ys. fst y < session"
    unfolding yz(2) by (induction ys) (auto simp: sm_wf_Cons)
  then have "sm_put session (?v + 1) (ys @ (session, ?v) # zs) = ys @ (session, ?v + 1) # zs"
    by (induction ys) auto
  then have a2: "activeTxns s2 = ys @ (session, ?v + 1) # zs" unfolding s2 yz(2) .
  then show "semValue s2 + int (length (activeTxns s2)) = semValue s + int (length (activeTxns s)) - 1"
    using yz(1) s1(2) s2(2) by simp
  have ne: "\<forall>x \<in> set (activeTxns s2). snd x \<noteq> ?v" using ids a2 yz(1) by force
  then have "filter (\<lambda>x. snd x \<noteq> ?v) (activeTxns s2) = activeTxns s2" by (simp add: filter_id_conv)
  with ne show "sm_finishTransaction t s2 = Some (Inl (Invalid_argument
      ''SessionManagerServer::finishTransaction(): transaction doesn't exist''), s2)"
    by (simp add: s1(4) sm_finishTransaction_def list_ex_iff Let_def)
qed

section \<open>Properties\<close>



text \<open>After a transaction was started and its write succeeded, a session manager that starts
  from the file resumes with the same last transaction id and catalog version, so ids handed out
  before a restart are not handed out again.\<close>

lemma sm_restart_keeps_ids:
  assumes "sm_startTxn True session isDDL s = Some (r, s')"
    and "-(2 ^ 31) \<le> verID s'" "verID s' < 2 ^ 31" "-(2 ^ 31) \<le> sysCatVerID s'" "sysCatVerID s' < 2 ^ 31"
  shows "verID (newSessionManagerServer cfg (txnid_file s')) = verID s' \<and>
    sysCatVerID (newSessionManagerServer cfg (txnid_file s')) = sysCatVerID s'"
  using assms by (rule sm_restart_ids)

lemma sm_restart_keeps_ids_witness:
  "\<exists>r s'. sm_startTxn True 7 True (newSessionManagerServer (Some 2) []) = Some (r, s') \<and> verID s' = 1 \<and>
    verID (newSessionManagerServer None (txnid_file s')) = verID s' \<and>
    sysCatVerID (newSessionManagerServer None (txnid_file s')) = sysCatVerID s'"
proof -
  obtain r s' where s': "sm_startTxn True 7 True (newSessionManagerServer (Some 2) []) = Some (r, s')"
      "verID s' = 1" "sysCatVerID s' = 1"
    by (simp add: sm_startTxn_def newSessionManagerServer_def sm_loadState_def
        sm_load_word_def file_read_def s32_id u32_id Let_def)
  from sm_restart_keeps_ids [OF s'(1)] s' show ?thesis by auto
qed

end
