(* ===== verification/Table_Lock.thy ===== *)
theory Table_Lock
  imports Session_Manager
begin

text \<open>
  Table locks, \<^verbatim>\<open>src/versioning/BRM/tablelockserver.cpp\<close> and the \<^verbatim>\<open>TableLockInfo\<close>
  part of \<^verbatim>\<open>brmtypes.cpp\<close>: a session locks a table on a list of DBRoots; two locks of a
  table conflict when their lists share a DBRoot. The locks are kept in a map by id and saved to a
  file after every change; a change whose save fails is taken back.

  Lock ids come from the session manager's \<^verbatim>\<open>getUnique64\<close>. \<open>io\<close> says whether the save
  file can be opened. The file is modelled by its bytes. \<^verbatim>\<open>dbrootList\<close> holds 16-bit numbers
  but each is written and read with a length of 4 bytes: \<open>beyond\<close> stands for the two bytes
  that follow the vector in memory.
\<close>

section \<open>Data\<close>

datatype LockState = LOADING | CLEANUP

record TableLockInfo =
  tl_id :: int
  tableOID :: int
  ownerName :: "byte list"
  ownerPID :: int
  ownerSessionID :: int
  ownerTxnID :: int
  tl_state :: LockState
  creationTime :: int
  dbrootList :: "int list"

record TableLockServer =
  tl_locks :: "TableLockInfo std_map"
  tl_sms :: SessionManagerServer
  tl_file :: "byte list"

definition overlaps :: "TableLockInfo \<Rightarrow> TableLockInfo \<Rightarrow> int set \<Rightarrow> bool" where
  "overlaps a t sDbrootList \<longleftrightarrow>
    (if tableOID a \<noteq> tableOID t then False else list_ex (\<lambda>d. d \<in> sDbrootList) (dbrootList a))"

section \<open>Serialization\<close>

primrec state_word :: "LockState \<Rightarrow> int" where
  "state_word LOADING = 0"
| "state_word CLEANUP = 1"

definition state_of_word :: "int \<Rightarrow> LockState option" where
  "state_of_word n = (if n = 0 then Some LOADING else if n = 1 then Some CLEANUP else None)"

text \<open>The loop over \<^verbatim>\<open>dbrootList\<close>: element \<open>j\<close> goes out together with what follows it in
  memory.\<close>

fun write_dbroots :: "byte list \<Rightarrow> int list \<Rightarrow> byte list" where
  "write_dbroots beyond [] = []"
| "write_dbroots beyond [d] = le_bytes 2 d @ beyond"
| "write_dbroots beyond (d # e # ds) = le_bytes 2 d @ le_bytes 2 e @ write_dbroots beyond (e # ds)"

definition tli_serialize :: "byte list \<Rightarrow> TableLockInfo \<Rightarrow> byte list" where
  "tli_serialize beyond t =
    le_bytes 8 (tl_id t) @ le_bytes 4 (tableOID t) @ le_bytes 4 (ownerPID t) @
    le_bytes 4 (state_word (tl_state t)) @ le_bytes 4 (ownerSessionID t) @ le_bytes 4 (ownerTxnID t) @
    le_bytes 8 (creationTime t) @
    (let nameLen = length (ownerName t) mod 2 ^ 16
     in le_bytes 2 (int nameLen) @ take nameLen (ownerName t)) @
    (let n = length (dbrootList t) mod 2 ^ 16
     in le_bytes 2 (int n) @ write_dbroots beyond (take n (dbrootList t)))"

text \<open>The reading loop writes four bytes at element \<open>j\<close>: the element and its successor, which
  the next round overwrites. The last round writes two bytes past the end of the vector; they are
  the second result.\<close>

fun read_dbroots :: "nat \<Rightarrow> byte list \<Rightarrow> (int list \<times> byte list \<times> byte list) option" where
  "read_dbroots 0 bs = Some ([], [], bs)"
| "read_dbroots (Suc n) bs = do {
     (d, bs1) \<leftarrow> read_int 2 bs;
     if 2 \<le> length bs1 then do {
       (ds, over, bs2) \<leftarrow> read_dbroots n (drop 2 bs1);
       Some (d # ds, if n = 0 then take 2 bs1 else over, bs2)
     } else None
   }"

definition read_bytes :: "nat \<Rightarrow> byte list \<Rightarrow> (byte list \<times> byte list) option" where
  "read_bytes n bs = (if n \<le> length bs then Some (take n bs, drop n bs) else None)"

definition tli_deserialize :: "byte list \<Rightarrow> (TableLockInfo \<times> byte list \<times> byte list) option" where
  "tli_deserialize bs = do {
     (i, bs) \<leftarrow> read_int 8 bs;
     (oid, bs) \<leftarrow> read_int 4 bs;
     (pid, bs) \<leftarrow> read_int 4 bs;
     (stw, bs) \<leftarrow> read_int 4 bs;
     st \<leftarrow> state_of_word stw;
     (sid, bs) \<leftarrow> read_int 4 bs;
     (txn, bs) \<leftarrow> read_int 4 bs;
     (ct, bs) \<leftarrow> read_int 8 bs;
     (nameLen, bs) \<leftarrow> read_int 2 bs;
     (name, bs) \<leftarrow> read_bytes (nat nameLen) bs;
     (n, bs) \<leftarrow> read_int 2 bs;
     (ds, over, bs) \<leftarrow> read_dbroots (nat n) bs;
     Some (\<lparr>tl_id = i, tableOID = oid, ownerName = name, ownerPID = pid, ownerSessionID = s32 sid,
            ownerTxnID = s32 txn, tl_state = st, creationTime = signed_take_bit 63 ct, dbrootList = ds\<rparr>, over, bs)
   }"

section \<open>The server\<close>

definition tls_save :: "bool \<Rightarrow> byte list \<Rightarrow> TableLockServer \<Rightarrow> TableLockServer res" where
  "tls_save io beyond s =
    (if io then Inr (s\<lparr>tl_file := le_bytes 4 (int (length (tl_locks s))) @
       concat (map (\<lambda>x. tli_serialize beyond (snd x)) (tl_locks s))\<rparr>)
     else Inl (Runtime_error ''TableLockServer::save():  could not open save file''))"

text \<open>A fresh id, with the second call that skips 0.\<close>

definition tls_fresh_id :: "SessionManagerServer \<Rightarrow> int \<times> SessionManagerServer" where
  "tls_fresh_id sm =
    (let (u, sm1) = sm_getUnique64 sm
     in if u = 0 then (let (u', sm2) = sm_getUnique64 sm1 in (uint u', sm2)) else (uint u, sm1))"

fun tls_load_entries :: "nat \<Rightarrow> byte list \<Rightarrow> TableLockServer \<Rightarrow> TableLockServer option" where
  "tls_load_entries 0 bs s = Some s"
| "tls_load_entries (Suc n) bs s = do {
     (t, over, bs1) \<leftarrow> tli_deserialize bs;
     let (i, sm) = tls_fresh_id (tl_sms s);
     tls_load_entries n bs1 (s\<lparr>tl_sms := sm, tl_locks := sm_put i (t\<lparr>tl_id := i\<rparr>) (tl_locks s)\<rparr>)
   }"

text \<open>\<^verbatim>\<open>load\<close>, run by the constructor: \<open>None\<close> is an exception, and a file that cannot be
  opened leaves the server empty.\<close>

definition tls_load :: "bool \<Rightarrow> TableLockServer \<Rightarrow> TableLockServer option" where
  "tls_load io s =
    (if io then do {
       (n, bs) \<leftarrow> read_int 4 (tl_file s);
       tls_load_entries (nat n) bs s
     } else Some s)"

text \<open>\<^verbatim>\<open>lock\<close> returns 0 (\<^verbatim>\<open>false\<close>) when the table is locked already, and then hands back
  the owner of the first conflicting lock. An exception leaves the locks as they were.\<close>

definition tls_lock ::
  "bool \<Rightarrow> byte list \<Rightarrow> TableLockInfo \<Rightarrow> TableLockServer \<Rightarrow> int res \<times> TableLockInfo \<times> TableLockServer" where
  "tls_lock io beyond tli s =
    (let dbroots = set (dbrootList tli)
     in case find (\<lambda>x. overlaps (snd x) tli dbroots) (tl_locks s) of
          Some x \<Rightarrow>
            (Inr 0, tli\<lparr>ownerName := ownerName (snd x), ownerPID := ownerPID (snd x),
                        ownerSessionID := ownerSessionID (snd x), ownerTxnID := ownerTxnID (snd x)\<rparr>, s)
        | None \<Rightarrow>
            let (i, sm) = tls_fresh_id (tl_sms s);
                tli' = tli\<lparr>tl_id := i\<rparr>;
                s1 = s\<lparr>tl_sms := sm, tl_locks := sm_put i tli' (tl_locks s)\<rparr>
            in case tls_save io beyond s1 of
                 Inr s2 \<Rightarrow> (Inr i, tli', s2)
               | Inl err \<Rightarrow> (Inl err, tli', s1\<lparr>tl_locks := sm_erase i (tl_locks s1)\<rparr>))"

definition tls_unlock :: "bool \<Rightarrow> byte list \<Rightarrow> int \<Rightarrow> TableLockServer \<Rightarrow> bool res \<times> TableLockServer" where
  "tls_unlock io beyond i s =
    (case map_of (tl_locks s) i of
       Some tli \<Rightarrow>
         let s1 = s\<lparr>tl_locks := sm_erase i (tl_locks s)\<rparr>
         in (case tls_save io beyond s1 of
               Inr s2 \<Rightarrow> (Inr True, s2)
             | Inl err \<Rightarrow> (Inl err, s1\<lparr>tl_locks := sm_put (tl_id tli) tli (tl_locks s1)\<rparr>))
     | None \<Rightarrow> (Inr False, s))"

text \<open>\<^verbatim>\<open>changeState\<close> and \<^verbatim>\<open>changeOwner\<close> write through the iterator and put the old fields
  back when the save fails.\<close>

definition tls_update ::
  "(TableLockInfo \<Rightarrow> TableLockInfo) \<Rightarrow> bool \<Rightarrow> byte list \<Rightarrow> int \<Rightarrow> TableLockServer \<Rightarrow> bool res \<times> TableLockServer" where
  "tls_update f io beyond i s =
    (case map_of (tl_locks s) i of
       None \<Rightarrow> (Inr False, s)
     | Some tli \<Rightarrow>
         let s1 = s\<lparr>tl_locks := sm_put i (f tli) (tl_locks s)\<rparr>
         in (case tls_save io beyond s1 of
               Inr s2 \<Rightarrow> (Inr True, s2)
             | Inl err \<Rightarrow> (Inl err, s1\<lparr>tl_locks := sm_put i tli (tl_locks s1)\<rparr>)))"

definition tls_changeState ::
  "bool \<Rightarrow> byte list \<Rightarrow> int \<Rightarrow> LockState \<Rightarrow> TableLockServer \<Rightarrow> bool res \<times> TableLockServer" where
  "tls_changeState io beyond i st s = tls_update (\<lambda>t. t\<lparr>tl_state := st\<rparr>) io beyond i s"

definition tls_changeOwner ::
  "bool \<Rightarrow> byte list \<Rightarrow> int \<Rightarrow> byte list \<Rightarrow> int \<Rightarrow> int \<Rightarrow> int \<Rightarrow> TableLockServer \<Rightarrow> bool res \<times> TableLockServer" where
  "tls_changeOwner io beyond i name pid session txnID s =
    tls_update (\<lambda>t. t\<lparr>ownerName := name, ownerPID := pid, ownerSessionID := session, ownerTxnID := txnID\<rparr>)
      io beyond i s"

definition tls_getAllLocks :: "TableLockServer \<Rightarrow> TableLockInfo list" where
  "tls_getAllLocks s = map snd (tl_locks s)"

definition tls_releaseAllLocks :: "bool \<Rightarrow> byte list \<Rightarrow> TableLockServer \<Rightarrow> unit res \<times> TableLockServer" where
  "tls_releaseAllLocks io beyond s =
    (case tls_save io beyond (s\<lparr>tl_locks := []\<rparr>) of
       Inr s1 \<Rightarrow> (Inr (), s1)
     | Inl err \<Rightarrow> (Inl err, s))"

definition tls_getLockInfo :: "int \<Rightarrow> TableLockServer \<Rightarrow> TableLockInfo option" where
  "tls_getLockInfo i s = map_of (tl_locks s) i"

section \<open>Round trip\<close>

lemma length_write_dbroots: "length beyond = 2 \<Longrightarrow> length (write_dbroots beyond ds) = 4 * length ds"
  by (induction beyond ds rule: write_dbroots.induct) auto

lemma read_write_dbroots:
  assumes "length beyond = 2"
  shows "read_dbroots (length ds) (write_dbroots beyond ds @ bs) =
    Some (map (take_bit 16) ds, if ds = [] then [] else beyond, bs)"
  using assms
proof (induction beyond ds rule: write_dbroots.induct)
  case (2 beyond d)
  then show ?case by (simp del: le_bytes.simps)
next
  case (3 beyond d e ds)
  then have "read_dbroots (length (e # ds)) (write_dbroots beyond (e # ds) @ bs) =
      Some (map (take_bit 16) (e # ds), beyond, bs)" by simp
  with 3(2) show ?case
    by (simp del: le_bytes.simps)
qed simp

definition tli_ok :: "TableLockInfo \<Rightarrow> bool" where
  "tli_ok t \<longleftrightarrow> 0 \<le> tl_id t \<and> tl_id t < 2 ^ 64 \<and> 0 \<le> tableOID t \<and> tableOID t < 2 ^ 32 \<and>
    0 \<le> ownerPID t \<and> ownerPID t < 2 ^ 32 \<and>
    -(2 ^ 31) \<le> ownerSessionID t \<and> ownerSessionID t < 2 ^ 31 \<and>
    -(2 ^ 31) \<le> ownerTxnID t \<and> ownerTxnID t < 2 ^ 31 \<and>
    -(2 ^ 63) \<le> creationTime t \<and> creationTime t < 2 ^ 63 \<and>
    length (ownerName t) < 2 ^ 16 \<and> length (dbrootList t) < 2 ^ 16 \<and>
    (\<forall>d \<in> set (dbrootList t). 0 \<le> d \<and> d < 2 ^ 16)"

lemma state_of_state_word [simp]: "state_of_word (take_bit 32 (state_word st)) = Some st"
  by (cases st) (simp_all add: state_of_word_def)

lemma read_bytes_append [simp]: "read_bytes (length xs) (xs @ bs) = Some (xs, bs)"
  by (simp add: read_bytes_def)

lemma tli_roundtrip:
  assumes ok: "tli_ok t" and beyond: "length beyond = 2"
  shows "tli_deserialize (tli_serialize beyond t @ bs) =
    Some (t, if dbrootList t = [] then [] else beyond, bs)"
proof -
  have ds: "map (take_bit 16) (dbrootList t) = dbrootList t"
    using ok by (intro map_idI) (simp add: tli_ok_def take_bit_int_eq_self)
  have small: "nat (take_bit 16 (int n)) = n" if "n < 2 ^ 16" for n
    using that by (simp add: take_bit_int_eq_self)
  have ids: "take_bit 64 (tl_id t) = tl_id t" "take_bit 32 (tableOID t) = tableOID t"
      "take_bit 32 (ownerPID t) = ownerPID t" "s32 (ownerSessionID t) = ownerSessionID t"
      "s32 (ownerTxnID t) = ownerTxnID t" "signed_take_bit 63 (creationTime t) = creationTime t"
    using ok by (simp_all add: tli_ok_def take_bit_int_eq_self s32_id signed_take_bit_int_eq_self)
  have ct: "signed_take_bit 63 (take_bit 64 (creationTime t)) = creationTime t"
    using ids(6) by (simp add: signed_take_bit_take_bit)
  have len: "length (ownerName t) < 2 ^ 16" "length (dbrootList t) < 2 ^ 16" using ok by (simp_all add: tli_ok_def)
  note rd = read_write_dbroots [OF beyond, of "dbrootList t" bs]
  show ?thesis
    unfolding tli_serialize_def tli_deserialize_def append_assoc
    using len by (simp add: ids ct small rd ds s32_take_bit Let_def del: le_bytes.simps)
qed

section \<open>Mutual exclusion\<close>

definition tl_exclusive :: "(int \<rightharpoonup> TableLockInfo) \<Rightarrow> bool" where
  "tl_exclusive m \<longleftrightarrow>
    (\<forall>i j t u. m i = Some t \<longrightarrow> m j = Some u \<longrightarrow> i \<noteq> j \<longrightarrow> tableOID t = tableOID u \<longrightarrow>
      set (dbrootList t) \<inter> set (dbrootList u) = {})"

definition tls_inv :: "TableLockServer \<Rightarrow> bool" where
  "tls_inv s \<longleftrightarrow> sm_wf (tl_locks s) \<and>
    (\<forall>i t. map_of (tl_locks s) i = Some t \<longrightarrow> tl_id t = i) \<and> tl_exclusive (map_of (tl_locks s))"

inductive tls_step :: "TableLockServer \<Rightarrow> TableLockServer \<Rightarrow> bool" where
  lock: "tls_lock io beyond tli s = (r, tli', s') \<Longrightarrow> tls_step s s'"
| unlock: "tls_unlock io beyond i s = (r, s') \<Longrightarrow> tls_step s s'"
| changeState: "tls_changeState io beyond i st s = (r, s') \<Longrightarrow> tls_step s s'"
| changeOwner: "tls_changeOwner io beyond i name pid session txn s = (r, s') \<Longrightarrow> tls_step s s'"
| releaseAll: "tls_releaseAllLocks io beyond s = (r, s') \<Longrightarrow> tls_step s s'"

lemma tls_save_locks: "tls_save io beyond s = Inr s' \<Longrightarrow> tl_locks s' = tl_locks s"
  by (auto simp: tls_save_def split: if_splits)

lemma tls_inv_cong: "tl_locks s' = tl_locks s \<Longrightarrow> tls_inv s \<Longrightarrow> tls_inv s'"
  by (simp add: tls_inv_def)

lemma overlaps_None:
  assumes "find (\<lambda>x. overlaps (snd x) tli (set (dbrootList tli))) xs = None" "sm_wf xs" "map_of xs j = Some u"
    "tableOID u = tableOID tli"
  shows "set (dbrootList u) \<inter> set (dbrootList tli) = {}"
proof -
  have "(j, u) \<in> set xs" using assms(2,3) by (simp add: sm_in_iff)
  with assms(1) have "\<not> overlaps u tli (set (dbrootList tli))" by (force simp: find_None_iff)
  with assms(4) show ?thesis by (auto simp: overlaps_def list_ex_iff)
qed

lemma tl_exclusive_put:
  assumes "tl_exclusive m"
    and "\<And>j u. m j = Some u \<Longrightarrow> j \<noteq> i \<Longrightarrow> tableOID u = tableOID t \<Longrightarrow>
      set (dbrootList u) \<inter> set (dbrootList t) = {}"
  shows "tl_exclusive (m(i \<mapsto> t))"
  unfolding tl_exclusive_def
proof (intro allI impI)
  fix k j u v
  assume uv: "(m(i \<mapsto> t)) k = Some u" "(m(i \<mapsto> t)) j = Some v" "k \<noteq> j" "tableOID u = tableOID v"
  show "set (dbrootList u) \<inter> set (dbrootList v) = {}"
  proof (cases "k = i")
    case True
    with uv have "u = t" "m j = Some v" "j \<noteq> i" by auto
    with assms(2) [of j v] uv(4) show ?thesis by auto
  next
    case k: False
    show ?thesis
    proof (cases "j = i")
      case True
      with uv k assms(2) [of k u] show ?thesis by auto
    next
      case False
      with uv k assms(1) show ?thesis unfolding tl_exclusive_def by auto
    qed
  qed
qed

lemma tls_inv_put:
  assumes inv: "tls_inv s" and i: "tl_id t = i"
    and free: "\<And>j u. map_of (tl_locks s) j = Some u \<Longrightarrow> j \<noteq> i \<Longrightarrow> tableOID u = tableOID t \<Longrightarrow>
      set (dbrootList u) \<inter> set (dbrootList t) = {}"
  shows "tls_inv (s\<lparr>tl_locks := sm_put i t (tl_locks s)\<rparr>)"
proof -
  have "tl_exclusive ((map_of (tl_locks s))(i \<mapsto> t))"
    using inv free by (intro tl_exclusive_put) (simp_all add: tls_inv_def)
  with inv i show ?thesis by (simp add: tls_inv_def)
qed

lemma tls_inv_erase: "tls_inv s \<Longrightarrow> tls_inv (s\<lparr>tl_locks := sm_erase i (tl_locks s)\<rparr>)"
proof -
  assume inv: "tls_inv s"
  then have "tl_exclusive ((map_of (tl_locks s))(i := None))"
    unfolding tls_inv_def tl_exclusive_def fun_upd_apply by (metis option.distinct(1))
  with inv show ?thesis by (simp add: tls_inv_def)
qed

lemma tls_update_cases:
  assumes "tls_update f io beyond i s = (r, s')" "tls_inv s"
    and "\<And>t. tl_id (f t) = tl_id t \<and> tableOID (f t) = tableOID t \<and> dbrootList (f t) = dbrootList t"
  shows "tls_inv s' \<and> (\<forall>e. r = Inl e \<longrightarrow> tl_locks s' = tl_locks s)"
proof (cases "map_of (tl_locks s) i")
  case None
  with assms show ?thesis by (auto simp: tls_update_def)
next
  case (Some t)
  have wf: "sm_wf (tl_locks s)" using assms(2) by (simp add: tls_inv_def)
  let ?s1 = "s\<lparr>tl_locks := sm_put i (f t) (tl_locks s)\<rparr>"
  have "set (dbrootList u) \<inter> set (dbrootList (f t)) = {}"
    if "map_of (tl_locks s) j = Some u" "j \<noteq> i" "tableOID u = tableOID (f t)" for j u
    using that assms(2,3) Some unfolding tls_inv_def tl_exclusive_def by metis
  moreover have "tl_id (f t) = i" using assms(2,3) Some by (simp add: tls_inv_def)
  ultimately have inv1: "tls_inv ?s1" using assms(2) by (intro tls_inv_put)
  show ?thesis
  proof (cases "tls_save io beyond ?s1")
    case (Inl e)
    with assms(1) Some have "tl_locks s' = sm_put i t (sm_put i (f t) (tl_locks s))"
      by (auto simp: tls_update_def Let_def)
    also have "\<dots> = tl_locks s" using wf Some by (rule sm_put_put)
    finally show ?thesis using tls_inv_cong [OF _ assms(2)] by auto
  next
    case (Inr s2)
    with assms(1) Some have "s' = s2" "r = Inr True" by (auto simp: tls_update_def Let_def)
    with tls_inv_cong [OF tls_save_locks [OF Inr] inv1] show ?thesis by simp
  qed
qed

lemma tls_unlock_cases:
  assumes "tls_unlock io beyond i s = (r, s')" "tls_inv s"
  shows "tls_inv s' \<and> (\<forall>e. r = Inl e \<longrightarrow> tl_locks s' = tl_locks s) \<and>
    (r = Inr True \<longrightarrow> map_of (tl_locks s') = (map_of (tl_locks s))(i := None))"
proof (cases "map_of (tl_locks s) i")
  case None
  with assms show ?thesis by (auto simp: tls_unlock_def)
next
  case (Some t)
  have wf: "sm_wf (tl_locks s)" and i: "tl_id t = i" using assms(2) Some by (simp_all add: tls_inv_def)
  let ?s1 = "s\<lparr>tl_locks := sm_erase i (tl_locks s)\<rparr>"
  show ?thesis
  proof (cases "tls_save io beyond ?s1")
    case (Inl e)
    with assms(1) Some i have "tl_locks s' = sm_put i t (sm_erase i (tl_locks s))" "r = Inl e"
      by (auto simp: tls_unlock_def Let_def)
    then have "tl_locks s' = tl_locks s" using sm_put_erase [OF wf Some] by simp
    with tls_inv_cong [OF _ assms(2)] \<open>r = Inl e\<close> show ?thesis by simp
  next
    case (Inr s2)
    with assms(1) Some have "s' = s2" "r = Inr True" by (auto simp: tls_unlock_def Let_def)
    with tls_inv_cong [OF tls_save_locks [OF Inr] tls_inv_erase [OF assms(2)]] tls_save_locks [OF Inr]
    show ?thesis by simp
  qed
qed

lemma tls_fresh_id_nonzero: "tls_fresh_id sm = (i, sm') \<Longrightarrow> 0 < i"
  by (auto simp: tls_fresh_id_def sm_getUnique64_def Let_def uint_0_iff less_le
      simp del: uint_0_iff split: if_splits) (simp_all add: uint_0_iff)

lemma tls_lock_cases:
  assumes l: "tls_lock io beyond tli s = (r, tli', s')" and inv: "tls_inv s"
  shows "tls_inv s' \<and>
    (\<forall>e. r = Inl e \<longrightarrow> map_of (tl_locks s') = (map_of (tl_locks s))(tl_id tli' := None)) \<and>
    (r = Inr 0 \<longrightarrow> s' = s \<and> (\<exists>j u. map_of (tl_locks s) j = Some u \<and> tableOID u = tableOID tli \<and>
      set (dbrootList u) \<inter> set (dbrootList tli) \<noteq> {} \<and> ownerName tli' = ownerName u \<and>
      ownerTxnID tli' = ownerTxnID u)) \<and>
    (\<forall>i. r = Inr i \<and> i \<noteq> 0 \<longrightarrow> 0 < i \<and> tli' = tli\<lparr>tl_id := i\<rparr> \<and>
      map_of (tl_locks s') = (map_of (tl_locks s))(i \<mapsto> tli'))"
proof (cases "find (\<lambda>x. overlaps (snd x) tli (set (dbrootList tli))) (tl_locks s)")
  case (Some x)
  have wf: "sm_wf (tl_locks s)" using inv by (simp add: tls_inv_def)
  from Some have x: "x \<in> set (tl_locks s)" "overlaps (snd x) tli (set (dbrootList tli))"
    by (auto simp: find_Some_iff)
  then have "map_of (tl_locks s) (fst x) = Some (snd x)" using sm_in_iff [OF wf, of "fst x" "snd x"] by simp
  moreover have "tableOID (snd x) = tableOID tli" "set (dbrootList (snd x)) \<inter> set (dbrootList tli) \<noteq> {}"
    using x(2) by (auto simp: overlaps_def list_ex_iff split: if_splits)
  moreover have "r = Inr 0" "s' = s" "ownerName tli' = ownerName (snd x)" "ownerTxnID tli' = ownerTxnID (snd x)"
    using l Some by (auto simp: tls_lock_def)
  ultimately show ?thesis using inv by auto
next
  case None
  have wf: "sm_wf (tl_locks s)" using inv by (simp add: tls_inv_def)
  obtain i sm where id: "tls_fresh_id (tl_sms s) = (i, sm)" by fastforce
  let ?t = "tli\<lparr>tl_id := i\<rparr>"
  let ?s0 = "s\<lparr>tl_sms := sm\<rparr>"
  let ?s1 = "s\<lparr>tl_sms := sm, tl_locks := sm_put i ?t (tl_locks s)\<rparr>"
  have "tls_inv ?s0" using inv by (rule tls_inv_cong [rotated]) simp
  then have "tls_inv (?s0\<lparr>tl_locks := sm_put i ?t (tl_locks ?s0)\<rparr>)"
    by (rule tls_inv_put) (use overlaps_None [OF None wf] in simp_all)
  then have inv1: "tls_inv ?s1" by simp
  show ?thesis
  proof (cases "tls_save io beyond ?s1")
    case (Inl e)
    with l None id have s': "s' = ?s1\<lparr>tl_locks := sm_erase i (tl_locks ?s1)\<rparr>" "r = Inl e" "tli' = ?t"
      by (auto simp: tls_lock_def Let_def)
    with tls_inv_erase [OF inv1, of i] wf show ?thesis by simp
  next
    case (Inr s2)
    with l None id have s': "s' = s2" "r = Inr i" "tli' = ?t" by (auto simp: tls_lock_def Let_def)
    with tls_inv_cong [OF tls_save_locks [OF Inr] inv1] tls_save_locks [OF Inr] wf tls_fresh_id_nonzero [OF id]
    show ?thesis by simp
  qed
qed

lemma tls_step_inv: "tls_step s s' \<Longrightarrow> tls_inv s \<Longrightarrow> tls_inv s'"
proof (induction rule: tls_step.induct)
  case (lock io beyond tli s r tli' s')
  then show ?case using tls_lock_cases by blast
next
  case (unlock io beyond i s r s')
  then show ?case using tls_unlock_cases by blast
next
  case (changeState io beyond i st s r s')
  show ?case
    using tls_update_cases [OF changeState.hyps [unfolded tls_changeState_def] changeState.prems] by simp
next
  case (changeOwner io beyond i name pid session txn s r s')
  show ?case
    using tls_update_cases [OF changeOwner.hyps [unfolded tls_changeOwner_def] changeOwner.prems] by simp
next
  case (releaseAll io beyond s r s')
  then show ?case
    by (auto simp: tls_releaseAllLocks_def tls_save_def tls_inv_def tl_exclusive_def split: if_splits)
qed

lemma tls_steps_inv:
  assumes "tls_step\<^sup>*\<^sup>* s s'" "tls_inv s"
  shows "tls_inv s'"
  using assms by induction (auto intro: tls_step_inv)

section \<open>Properties\<close>

text \<open>An empty server, and a lock of table 3000 on two DBRoots.\<close>

definition tls_ex :: TableLockServer where
  "tls_ex = \<lparr>tl_locks = [], tl_sms = newSessionManagerServer None [], tl_file = []\<rparr>"

definition tli_ex :: TableLockInfo where
  "tli_ex = \<lparr>tl_id = 0, tableOID = 3000, ownerName = [100, 109, 108], ownerPID = 77, ownerSessionID = 4,
    ownerTxnID = -1, tl_state = LOADING, creationTime = 1700000000, dbrootList = [1, 2]\<rparr>"

lemma tls_ex_inv: "tls_inv tls_ex"
  by (simp add: tls_inv_def tl_exclusive_def tls_ex_def)

text \<open>C10: No sequence of lock, unlock, state and owner changes and releases, with or without failing
  saves, leads from an empty server to two locks of the same table that share a DBRoot.\<close>

theorem tls_mutual_exclusion:
  assumes "tl_locks s0 = []" "tls_step\<^sup>*\<^sup>* s0 s"
    and "tls_getLockInfo i s = Some t" "tls_getLockInfo j s = Some u" "i \<noteq> j" "tableOID t = tableOID u"
  shows "set (dbrootList t) \<inter> set (dbrootList u) = {}"
proof -
  have "tls_inv s0" using assms(1) by (simp add: tls_inv_def tl_exclusive_def)
  then have "tls_inv s" using assms(2) tls_steps_inv by blast
  with assms(3-) show ?thesis by (simp add: tls_inv_def tl_exclusive_def tls_getLockInfo_def)
qed

theorem tls_mutual_exclusion_witness:
  "\<exists>s i j t u. tls_step\<^sup>*\<^sup>* tls_ex s \<and> tls_getLockInfo i s = Some t \<and> tls_getLockInfo j s = Some u \<and>
    tableOID t = 3000 \<and> tableOID u = 3000 \<and> i \<noteq> j \<and> set (dbrootList t) \<inter> set (dbrootList u) = {}"
proof -
  let ?l1 = "tls_lock True [0, 0] tli_ex tls_ex"
  let ?s1 = "snd (snd ?l1)"
  let ?l2 = "tls_lock True [0, 0] (tli_ex\<lparr>dbrootList := [3]\<rparr>) ?s1"
  let ?s2 = "snd (snd ?l2)"
  have "tls_step tls_ex ?s1" by (rule tls_step.lock [of True "[0, 0]" tli_ex _ "fst ?l1" "fst (snd ?l1)"]) simp
  moreover have "tls_step ?s1 ?s2"
    by (rule tls_step.lock [of True "[0, 0]" "tli_ex\<lparr>dbrootList := [3]\<rparr>" _ "fst ?l2" "fst (snd ?l2)"]) simp
  ultimately have step: "tls_step\<^sup>*\<^sup>* tls_ex ?s2" by simp
  have locks: "tl_locks ?s2 = [(1, tli_ex\<lparr>tl_id := 1\<rparr>), (2, tli_ex\<lparr>tl_id := 2, dbrootList := [3]\<rparr>)]"
    by (simp add: tls_lock_def tls_fresh_id_def sm_getUnique64_def tls_save_def tls_ex_def overlaps_def
        newSessionManagerServer_def sm_loadState_def tli_ex_def Let_def)
  have "set (dbrootList (tli_ex\<lparr>tl_id := 1\<rparr>)) \<inter>
      set (dbrootList (tli_ex\<lparr>tl_id := 2, dbrootList := [3]\<rparr>)) = {}"
    by (rule tls_mutual_exclusion [OF _ step, of 1 _ 2])
      (simp_all add: tls_getLockInfo_def locks, simp add: tls_ex_def)
  with step show ?thesis
    by (intro exI [of _ ?s2] exI [of _ 1] exI [of _ 2])
      (simp add: tls_getLockInfo_def locks, simp add: tli_ex_def)
qed

text \<open>Unlocking, and a change of state or owner, whose save fails leaves the locks as they were;
  a successful unlock removes exactly the lock named.\<close>

lemma tls_unlock_atomic:
  assumes "tls_inv s" "tls_unlock io beyond i s = (r, s')"
  shows "case r of
      Inl err \<Rightarrow> tl_locks s' = tl_locks s
    | Inr True \<Rightarrow> tls_getLockInfo i s \<noteq> None \<and> map_of (tl_locks s') = (map_of (tl_locks s))(i := None)
    | Inr False \<Rightarrow> tls_getLockInfo i s = None \<and> s' = s"
proof (cases "map_of (tl_locks s) i")
  case None
  with assms(2) have "r = Inr False" "s' = s" by (auto simp: tls_unlock_def)
  with None show ?thesis by (simp add: tls_getLockInfo_def)
next
  case (Some t)
  with assms(2) have "r \<noteq> Inr False" by (auto simp: tls_unlock_def Let_def split: sum.splits)
  with tls_unlock_cases [OF assms(2,1)] Some show ?thesis
    by (cases r) (auto simp: tls_getLockInfo_def split: bool.splits)
qed

lemma tls_unlock_atomic_witness:
  "case tls_unlock True [0, 0] 5 tls_ex of (r, s') \<Rightarrow> r = Inr False \<and> tls_getLockInfo 5 tls_ex = None \<and> s' = tls_ex"
proof -
  obtain r s' where u: "tls_unlock True [0, 0] 5 tls_ex = (r, s')" by fastforce
  moreover from this have "r = Inr False" by (auto simp: tls_unlock_def tls_ex_def)
  ultimately show ?thesis using tls_unlock_atomic [OF tls_ex_inv u] by simp
qed

text \<open>C34: Reading back a saved lock yields the lock and consumes exactly its bytes. If it names a
  DBRoot, the last read also writes the two bytes that followed the list in memory when it was
  saved past the end of the new list.\<close>

theorem tli_load_save:
  assumes "tli_ok t" "length beyond = 2"
  shows "tli_deserialize (tli_serialize beyond t @ bs) =
    Some (t, if dbrootList t = [] then [] else beyond, bs)"
  using assms by (rule tli_roundtrip)

theorem tli_load_save_witness:
  "tli_deserialize (tli_serialize [171, 205] tli_ex @ [9]) = Some (tli_ex, [171, 205], [9])"
  using tli_load_save [of tli_ex "[171, 205]" "[9]"] by (simp add: tli_ok_def tli_ex_def)

end
