(* ===== verification/Auto_Increment.thy ===== *)
theory Auto_Increment
  imports Std_Map
begin

text \<open>
  The auto-increment sequences, \<^verbatim>\<open>src/versioning/BRM/autoincrementmanager.cpp\<close>. A sequence
  is a 64-bit counter with an overflow bound computed from the column's width and signedness; the
  arithmetic wraps as \<^verbatim>\<open>uint64_t\<close> does. The advisory lock of a sequence is its mutex as a
  flag: \<^verbatim>\<open>getLock\<close> returns once it holds the mutex or, after thirty seconds, takes it over, so
  in either case the mutex is locked afterwards; \<^verbatim>\<open>releaseLock\<close> unlocks it whoever holds it.
\<close>

record sequence =
  seq_value :: "64 word"
  seq_overflow :: "64 word"
  seq_lock :: bool

type_synonym AutoincrementManager = "sequence std_map"

text \<open>The bound, \<open>None\<close> when a shift count leaves the range of the type.\<close>

definition ai_overflow :: "nat \<Rightarrow> bool \<Rightarrow> (64 word) option" where
  "ai_overflow colWidth isUnsigned =
    (if 0 < colWidth \<and> colWidth \<le> 8 then
       Some (if isUnsigned then drop_bit (64 - colWidth * 8) (- 1) - 1 else push_bit (colWidth * 8 - 1) 1)
     else None)"

definition ai_startSequence ::
  "int \<Rightarrow> 64 word \<Rightarrow> nat \<Rightarrow> bool \<Rightarrow> AutoincrementManager \<Rightarrow> AutoincrementManager option" where
  "ai_startSequence oid firstNum colWidth isUnsigned m =
    (case map_of m oid of
       Some _ \<Rightarrow> Some m
     | None \<Rightarrow> do {
         ov \<leftarrow> ai_overflow colWidth isUnsigned;
         Some (sm_put oid \<lparr>seq_value = firstNum, seq_overflow = ov, seq_lock = False\<rparr> m)
       })"

text \<open>\<open>Inr (Some firstNum)\<close> is a return of true, \<open>Inr None\<close> of false.\<close>

definition ai_getAIRange ::
  "int \<Rightarrow> 64 word \<Rightarrow> AutoincrementManager \<Rightarrow> (64 word) option res \<times> AutoincrementManager" where
  "ai_getAIRange oid cnt m =
    (case map_of m oid of
       None \<Rightarrow> (Inl (Runtime_error ''There is no sequence with that lock''), m)
     | Some s \<Rightarrow>
         if (cnt \<ge> seq_overflow s \<or> cnt + seq_value s > seq_overflow s \<or>
             cnt + seq_value s \<le> seq_value s) \<and> cnt \<noteq> 0
         then (Inr None, m)
         else (Inr (Some (seq_value s)), sm_put oid (s\<lparr>seq_value := seq_value s + cnt\<rparr>) m))"

definition ai_resetSequence :: "int \<Rightarrow> 64 word \<Rightarrow> AutoincrementManager \<Rightarrow> AutoincrementManager" where
  "ai_resetSequence oid value m =
    (case map_of m oid of None \<Rightarrow> m | Some s \<Rightarrow> sm_put oid (s\<lparr>seq_value := value\<rparr>) m)"

definition ai_getLock :: "int \<Rightarrow> AutoincrementManager \<Rightarrow> unit res \<times> AutoincrementManager" where
  "ai_getLock oid m =
    (case map_of m oid of
       None \<Rightarrow> (Inl (Runtime_error ''There is no sequence with that lock''), m)
     | Some s \<Rightarrow> (Inr (), sm_put oid (s\<lparr>seq_lock := True\<rparr>) m))"

definition ai_releaseLock :: "int \<Rightarrow> AutoincrementManager \<Rightarrow> AutoincrementManager" where
  "ai_releaseLock oid m =
    (case map_of m oid of None \<Rightarrow> m | Some s \<Rightarrow> sm_put oid (s\<lparr>seq_lock := False\<rparr>) m)"

definition ai_deleteSequence :: "int \<Rightarrow> AutoincrementManager \<Rightarrow> AutoincrementManager" where
  "ai_deleteSequence oid m = sm_erase oid m"

section \<open>Ranges\<close>

lemma ai_getAIRange_granted:
  assumes wf: "sm_wf m" and r: "ai_getAIRange oid cnt m = (Inr (Some first), m')" and s: "map_of m oid = Some s"
  shows "first = seq_value s" "sm_wf m'" "map_of m' = (map_of m)(oid \<mapsto> s\<lparr>seq_value := first + cnt\<rparr>)"
    and "cnt \<noteq> 0 \<Longrightarrow> unat first + unat cnt \<le> unat (seq_overflow s)"
    and "unat (first + cnt) = unat first + unat cnt"
proof -
  from r s have nov: "cnt = 0 \<or> seq_value s < cnt + seq_value s \<and> cnt + seq_value s \<le> seq_overflow s"
    and f: "first = seq_value s" "m' = sm_put oid (s\<lparr>seq_value := seq_value s + cnt\<rparr>) m"
    by (auto simp: ai_getAIRange_def not_le not_less split: if_splits)
  then show "first = seq_value s" "sm_wf m'" "map_of m' = (map_of m)(oid \<mapsto> s\<lparr>seq_value := first + cnt\<rparr>)"
    using wf by simp_all
  have "unat (first + cnt) = unat first + unat cnt \<and>
      (cnt \<noteq> 0 \<longrightarrow> unat first + unat cnt \<le> unat (seq_overflow s))"
  proof (cases "cnt = 0")
    case False
    with nov f have "first \<le> first + cnt" "first + cnt \<le> seq_overflow s"
      by (simp_all add: add.commute less_imp_le)
    then show ?thesis using unat_plus_simple [of first cnt] by (simp add: word_le_nat_alt)
  qed simp
  then show "cnt \<noteq> 0 \<Longrightarrow> unat first + unat cnt \<le> unat (seq_overflow s)"
      "unat (first + cnt) = unat first + unat cnt"
    by blast+
qed

text \<open>A run of requests on one sequence: the ranges granted, as pairs of first number and count.\<close>

fun ai_run :: "int \<Rightarrow> (64 word) list \<Rightarrow> AutoincrementManager \<Rightarrow> (nat \<times> nat) list" where
  "ai_run oid [] m = []"
| "ai_run oid (c # cs) m =
    (case ai_getAIRange oid c m of
       (Inr (Some first), m') \<Rightarrow> (unat first, unat c) # ai_run oid cs m'
     | (_, m') \<Rightarrow> ai_run oid cs m')"

lemma ai_run_bounds:
  assumes "sm_wf m" "map_of m oid = Some s" "(a, n) \<in> set (ai_run oid cs m)"
  shows "unat (seq_value s) \<le> a \<and> (n \<noteq> 0 \<longrightarrow> a + n \<le> unat (seq_overflow s))"
  using assms
proof (induction cs arbitrary: m s)
  case (Cons c cs)
  obtain r m' where r: "ai_getAIRange oid c m = (r, m')" by fastforce
  show ?case
  proof (cases "\<exists>first. r = Inr (Some first)")
    case True
    then obtain first where first: "r = Inr (Some first)" by blast
    note g = ai_getAIRange_granted [OF Cons.prems(1) r [unfolded first] Cons.prems(2)]
    from Cons.prems(3) r first have "(a, n) = (unat first, unat c) \<or> (a, n) \<in> set (ai_run oid cs m')" by simp
    then show ?thesis
    proof
      assume "(a, n) \<in> set (ai_run oid cs m')"
      from Cons.IH [OF g(2) _ this] g(3) have "unat (first + c) \<le> a \<and> (n \<noteq> 0 \<longrightarrow> a + n \<le> unat (seq_overflow s))"
        by simp
      with g(1,5) show ?thesis by simp
    qed (use g(1,4) in \<open>auto simp: unat_gt_0\<close>)
  next
    case False
    with r Cons.prems(2) have "m' = m" by (auto simp: ai_getAIRange_def split: if_splits)
    moreover have "ai_run oid (c # cs) m = ai_run oid cs m'"
      using False r by (auto split: sum.splits option.splits)
    ultimately show ?thesis using Cons.IH [OF Cons.prems(1,2)] Cons.prems(3) by simp
  qed
qed simp

lemma ai_run_disjoint:
  assumes "sm_wf m" "map_of m oid = Some s"
  shows "sorted_wrt (\<lambda>x y. fst x + snd x \<le> fst y) (ai_run oid cs m)"
  using assms
proof (induction cs arbitrary: m s)
  case (Cons c cs)
  obtain r m' where r: "ai_getAIRange oid c m = (r, m')" by fastforce
  show ?case
  proof (cases "\<exists>first. r = Inr (Some first)")
    case True
    then obtain first where first: "r = Inr (Some first)" by blast
    note g = ai_getAIRange_granted [OF Cons.prems(1) r [unfolded first] Cons.prems(2)]
    have s': "map_of m' oid = Some (s\<lparr>seq_value := first + c\<rparr>)" using g(3) by simp
    have "unat first + unat c \<le> fst x" if "x \<in> set (ai_run oid cs m')" for x
      using ai_run_bounds [OF g(2) s', of "fst x" "snd x" cs] that g(5) by simp
    with Cons.IH [OF g(2) s'] r first show ?thesis by simp
  next
    case False
    with r Cons.prems(2) have "m' = m" by (auto simp: ai_getAIRange_def split: if_splits)
    moreover have "ai_run oid (c # cs) m = ai_run oid cs m'"
      using False r by (auto split: sum.splits option.splits)
    ultimately show ?thesis using Cons.IH [OF Cons.prems] by simp
  qed
qed simp

lemma ai_overflow_bound:
  assumes "ai_overflow w isUnsigned = Some ov"
  shows "unat ov = (if isUnsigned then 2 ^ (8 * w) - 2 else 2 ^ (8 * w - 1))"
proof -
  have w: "0 < w" "w \<le> 8" using assms by (auto simp: ai_overflow_def split: if_splits)
  then have "w = 1 \<or> w = 2 \<or> w = 3 \<or> w = 4 \<or> w = 5 \<or> w = 6 \<or> w = 7 \<or> w = 8" by presburger
  then have "unat (drop_bit (64 - w * 8) (- 1) - 1 :: 64 word) = 2 ^ (8 * w) - 2 \<and>
      unat (push_bit (w * 8 - 1) 1 :: 64 word) = 2 ^ (8 * w - 1)"
    by (elim disjE) (simp_all add: mask_eq_exp_minus_1)
  with w assms show ?thesis by (auto simp: ai_overflow_def)
qed

lemma ai_started:
  assumes "sm_wf m" "map_of m oid = None" "ai_startSequence oid firstNum w isUnsigned m = Some m'"
  obtains s where "sm_wf m'" "map_of m' oid = Some s" "seq_value s = firstNum"
    "ai_overflow w isUnsigned = Some (seq_overflow s)"
proof -
  from assms obtain ov where ov: "ai_overflow w isUnsigned = Some ov"
    and m': "m' = sm_put oid \<lparr>seq_value = firstNum, seq_overflow = ov, seq_lock = False\<rparr> m"
    by (auto simp: ai_startSequence_def split: bind_splits)
  show ?thesis by (rule that [of "\<lparr>seq_value = firstNum, seq_overflow = ov, seq_lock = False\<rparr>"])
      (use assms(1) ov m' in simp_all)
qed

section \<open>The properties\<close>

text \<open>C20: The numbers handed out for a column never repeat and always fit it. Whatever requests follow the
  start of a sequence, each granted range begins at or after the end of all the ranges granted before
  it, the first at or after the starting number, and no number of a range exceeds the column's maximum:
  \<open>2 ^ (8 w - 1) - 1\<close> for a signed column of \<open>w\<close> bytes and, the two topmost values being reserved,
  \<open>2 ^ (8 w) - 3\<close> for an unsigned one. No wrap-around of the 64-bit counter can break this.\<close>

theorem ai_ranges_disjoint:
  assumes "sm_wf m" "map_of m oid = None" "ai_startSequence oid firstNum w isUnsigned m = Some m'"
  shows "sorted_wrt (\<lambda>x y. fst x + snd x \<le> fst y) (ai_run oid cs m') \<and>
    (\<forall>(a, n) \<in> set (ai_run oid cs m'). n \<noteq> 0 \<longrightarrow>
      unat firstNum \<le> a \<and> a + n \<le> (if isUnsigned then 2 ^ (8 * w) - 2 else 2 ^ (8 * w - 1)))"
proof -
  obtain s where s: "sm_wf m'" "map_of m' oid = Some s" "seq_value s = firstNum"
      "ai_overflow w isUnsigned = Some (seq_overflow s)"
    using ai_started [OF assms] by blast
  have "unat firstNum \<le> a \<and> a + n \<le> (if isUnsigned then 2 ^ (8 * w) - 2 else 2 ^ (8 * w - 1))"
    if "(a, n) \<in> set (ai_run oid cs m')" "n \<noteq> 0" for a n
    using ai_run_bounds [OF s(1,2) that(1)] that(2) s(3) ai_overflow_bound [OF s(4)] by simp
  then show ?thesis using ai_run_disjoint [OF s(1,2), of cs] by blast
qed

theorem ai_ranges_disjoint_witness:
  "\<exists>m'. ai_startSequence 7 100 1 False [] = Some m' \<and> ai_run 7 [10, 20, 8] m' = [(100, 10), (110, 8)] \<and>
    sorted_wrt (\<lambda>x y. fst x + snd x \<le> fst y) (ai_run 7 [10, 20, 8] m') \<and> (110 :: nat) + 8 \<le> 2 ^ (8 * 1 - 1)"
proof -
  define m' :: AutoincrementManager where "m' = [(7, \<lparr>seq_value = 100, seq_overflow = 128, seq_lock = False\<rparr>)]"
  have st: "ai_startSequence 7 100 1 False [] = Some m'"
    by (simp add: ai_startSequence_def ai_overflow_def m'_def sm_put_def)
  have run: "ai_run 7 [10, 20, 8] m' = [(100, 10), (110, 8)]"
    by (simp add: m'_def ai_getAIRange_def sm_put_def)
  have wf: "sm_wf ([] :: AutoincrementManager)" "map_of ([] :: AutoincrementManager) 7 = None" by (simp_all add: sm_wf_def)
  show ?thesis
    using st run ai_ranges_disjoint [OF wf st, of "[10, 20, 8]"] by simp
qed

text \<open>A request is refused exactly when it has to be. For a sequence whose counter is within its bound, a
  non-empty request below the bound is granted if and only if the counter plus the request stays within
  the bound, computed without wrap-around; a refused request leaves every sequence as it was.\<close>

lemma ai_getAIRange_decides:
  assumes "map_of m oid = Some s" "cnt \<noteq> 0" "cnt < seq_overflow s"
  shows "ai_getAIRange oid cnt m =
    (if unat (seq_value s) + unat cnt \<le> unat (seq_overflow s)
     then (Inr (Some (seq_value s)), sm_put oid (s\<lparr>seq_value := seq_value s + cnt\<rparr>) m)
     else (Inr None, m))"
proof -
  let ?v = "seq_value s" and ?o = "seq_overflow s"
  have ov: "(cnt + ?v \<le> ?o \<and> ?v < cnt + ?v) = (unat ?v + unat cnt \<le> unat ?o)"
  proof (cases "?v \<le> ?v + cnt")
    case True
    then have "unat (cnt + ?v) = unat ?v + unat cnt" 
      using unat_plus_simple [of ?v cnt] by (simp add: add.commute)
    then show ?thesis using assms(2) by (simp add: word_le_nat_alt word_less_nat_alt unat_gt_0)
  next
    case False
    then have "\<not> unat ?v + unat cnt < 2 ^ LENGTH(64)" by (simp only: no_olen_add_nat not_False_eq_True)
    moreover have "unat ?o < 2 ^ LENGTH(64)" by (rule unsigned_less)
    ultimately have "\<not> unat ?v + unat cnt \<le> unat ?o" by linarith
    moreover have "\<not> ?v < cnt + ?v" using False by (metis add.commute less_imp_le)
    ultimately show ?thesis by blast
  qed
  show ?thesis
  proof (cases "unat ?v + unat cnt \<le> unat ?o")
    case True
    with ov assms show ?thesis by (simp add: ai_getAIRange_def not_le not_less)
  next
    case False
    with ov have "\<not> cnt + ?v \<le> ?o \<or> \<not> ?v < cnt + ?v" by blast
    with False assms show ?thesis by (auto simp: ai_getAIRange_def not_le not_less)
  qed
qed

lemma ai_getAIRange_decides_witness:
  "ai_getAIRange 7 20 [(7, \<lparr>seq_value = 110, seq_overflow = 128, seq_lock = False\<rparr>)] =
    (Inr None, [(7, \<lparr>seq_value = 110, seq_overflow = 128, seq_lock = False\<rparr>)])"
  using ai_getAIRange_decides [of "[(7, \<lparr>seq_value = 110, seq_overflow = 128, seq_lock = False\<rparr>)]" 7
    "\<lparr>seq_value = 110, seq_overflow = 128, seq_lock = False\<rparr>" 20] by simp

end
