(* ===== verification/Oid_Server.thy ===== *)
theory Oid_Server
  imports Byte_Stream
begin

text \<open>
  The object ids, \<^verbatim>\<open>src/versioning/BRM/oidserver.cpp\<close>: a counter of type \<^verbatim>\<open>int\<close> that is
  written to a file at each allocation. The state is the counter with the bytes of the file. What the
  operating system does to a write is its argument \<open>k\<close>, the number of bytes written before the
  retries are used up: a write of more bytes throws and leaves the file with the first \<open>k\<close> of them. The
  branches for HDFS, the retries themselves and a failure to open the file are not modelled.

  The constructor reads two of the four bytes back into the counter, which was set to 0. The theory shows
  what this does: a restart continues with the counter modulo $2^{16}$.
\<close>

section \<open>Operations\<close>

datatype oid_exn = OID_runtime_error | OID_ios_failure | OID_EOFException

record OIDServer =
  currentOID :: int
  oid_file :: "byte list"

definition HeaderSize :: nat where
  "HeaderSize = 4"

definition USER_OBJECT_ID :: int where
  "USER_OBJECT_ID = 10240 + 2000"

text \<open>The result says whether all bytes were written.\<close>

definition oid_writeData :: "nat \<Rightarrow> byte list \<Rightarrow> nat \<Rightarrow> byte list \<Rightarrow> bool \<times> byte list" where
  "oid_writeData k buf offset f =
    (if buf = [] then (True, f) else (length buf \<le> k, if k = 0 then f else file_write offset (take k buf) f))"

definition oid_readData :: "nat \<Rightarrow> nat \<Rightarrow> byte list \<Rightarrow> oid_exn + byte list" where
  "oid_readData offset n f =
    (if length (file_read offset n f) = n then Inr (file_read offset n f) else Inl OID_EOFException)"

text \<open>The configured \<^verbatim>\<open>FirstOID\<close> is \<open>None\<close> when it is missing or empty.\<close>

definition oid_firstOID :: "int option \<Rightarrow> int" where
  "oid_firstOID cfg =
    (let ltmp = (case cfg of None \<Rightarrow> USER_OBJECT_ID | Some n \<Rightarrow> n)
     in if ltmp > 2 ^ 31 - 1 \<or> ltmp < USER_OBJECT_ID then USER_OBJECT_ID else ltmp)"

definition oid_initializeBitmap :: "int option \<Rightarrow> nat \<Rightarrow> byte list \<Rightarrow> bool \<times> byte list" where
  "oid_initializeBitmap cfg k f = oid_writeData k (le_bytes HeaderSize (oid_firstOID cfg)) 0 f"

text \<open>The constructor, on the file if there is one; \<open>emEmpty\<close> is the answer of
  \<^verbatim>\<open>isEMEmpty\<close>. The second component is the file afterwards.\<close>

definition oid_load :: "byte list \<Rightarrow> oid_exn + OIDServer" where
  "oid_load f =
    (case oid_readData 0 2 f of
       Inl e \<Rightarrow> Inl e
     | Inr bs \<Rightarrow> Inr \<lparr>currentOID = int_of_bytes bs, oid_file = f\<rparr>)"

definition oid_construct ::
  "int option \<Rightarrow> bool \<Rightarrow> nat \<Rightarrow> byte list option \<Rightarrow> (oid_exn + OIDServer) \<times> byte list option" where
  "oid_construct cfg emEmpty k fo =
    (case fo of
       None \<Rightarrow>
         if \<not> emEmpty then (Inl OID_runtime_error, None)
         else (case oid_initializeBitmap cfg k [] of
             (False, f) \<Rightarrow> (Inl OID_ios_failure, Some f)
           | (True, f) \<Rightarrow> (oid_load f, Some f))
     | Some f \<Rightarrow> (oid_load f, Some f))"

text \<open>The counter is advanced before it is written. The addition wraps.\<close>

definition oid_allocOIDs :: "nat \<Rightarrow> int \<Rightarrow> OIDServer \<Rightarrow> (oid_exn + int) \<times> OIDServer" where
  "oid_allocOIDs k num s =
    (let bestMatchBegin = currentOID s;
         cur = s32 (currentOID s + num);
         (ok, f) = oid_writeData k (le_bytes HeaderSize cur) 0 (oid_file s)
     in (if ok then Inr bestMatchBegin else Inl OID_ios_failure, s\<lparr>currentOID := cur, oid_file := f\<rparr>))"

definition oid_returnOIDs :: "int \<Rightarrow> int \<Rightarrow> OIDServer \<Rightarrow> OIDServer" where
  "oid_returnOIDs start end' s = s"

definition oid_size :: "OIDServer \<Rightarrow> int" where
  "oid_size s = currentOID s"

text \<open>A sequence of requests, each with the outcome of its write: the ranges handed out, as first id and
  length, and the server afterwards.\<close>

fun oid_run :: "(nat \<times> int) list \<Rightarrow> OIDServer \<Rightarrow> (int \<times> int) list \<times> OIDServer" where
  "oid_run [] s = ([], s)"
| "oid_run ((k, num) # rs) s =
    (case oid_allocOIDs k num s of
       (r, s1) \<Rightarrow> (case oid_run rs s1 of
         (xs, s2) \<Rightarrow> ((case r of Inl e \<Rightarrow> xs | Inr a \<Rightarrow> (a, num) # xs), s2)))"

section \<open>Allocation\<close>

text \<open>The file holds the counter.\<close>

definition oid_stored :: "OIDServer \<Rightarrow> bool" where
  "oid_stored s \<longleftrightarrow> HeaderSize \<le> length (oid_file s) \<and>
    take HeaderSize (oid_file s) = le_bytes HeaderSize (currentOID s)"

lemma le_bytes_4: "le_bytes HeaderSize x \<noteq> []"
  by (simp add: HeaderSize_def flip: length_0_conv)

lemma oid_alloc_result:
  assumes "oid_allocOIDs k num s = (r, s')" "0 \<le> currentOID s" "0 \<le> num" "currentOID s + num < 2 ^ 31"
  shows "currentOID s' = currentOID s + num" "r = Inr a \<Longrightarrow> a = currentOID s"
  using assms by (auto simp: oid_allocOIDs_def Let_def s32_id split: prod.splits if_splits)

lemma oid_alloc_stored:
  assumes "oid_allocOIDs k num s = (Inr a, s')"
  shows "oid_stored s'"
  using assms length_file_write [of 0 "le_bytes HeaderSize (s32 (currentOID s + num))" "oid_file s"]
    file_read_write_same [of 0 "le_bytes HeaderSize (s32 (currentOID s + num))" "oid_file s"]
  by (auto simp: oid_allocOIDs_def oid_writeData_def oid_stored_def Let_def le_bytes_4 file_read_def split: if_splits)

lemma oid_run_ranges:
  assumes "oid_run rs s = (xs, s')" "0 \<le> currentOID s" "\<forall>(k, n) \<in> set rs. 0 \<le> n"
    "currentOID s + (\<Sum>(k, n) \<leftarrow> rs. n) < 2 ^ 31"
  shows "currentOID s' = currentOID s + (\<Sum>(k, n) \<leftarrow> rs. n) \<and>
    sorted_wrt (\<lambda>x y. fst x + snd x \<le> fst y) xs \<and>
    (\<forall>(a, n) \<in> set xs. currentOID s \<le> a \<and> 0 \<le> n \<and> a + n \<le> currentOID s')"
  using assms
proof (induction rs s arbitrary: xs s' rule: oid_run.induct)
  case (2 k num rs s)
  let ?S = "\<Sum>(k, n) \<leftarrow> rs. n"
  obtain r s1 where a: "oid_allocOIDs k num s = (r, s1)" by fastforce
  obtain ys where y: "oid_run rs s1 = (ys, s')" and xs: "xs = (case r of Inl e \<Rightarrow> ys | Inr a \<Rightarrow> (a, num) # ys)"
    using "2.prems"(1) a by (auto split: prod.splits)
  have n: "0 \<le> num" "\<forall>(k, n) \<in> set rs. 0 \<le> n" using "2.prems"(3) by auto
  have S: "0 \<le> ?S" using n(2) by (induction rs) auto
  have s1: "currentOID s1 = currentOID s + num" "\<And>a. r = Inr a \<Longrightarrow> a = currentOID s"
    using oid_alloc_result [OF a] "2.prems"(2,4) n(1) S by simp_all
  have IH: "currentOID s' = currentOID s1 + ?S \<and> sorted_wrt (\<lambda>x y. fst x + snd x \<le> fst y) ys \<and>
      (\<forall>(a, n) \<in> set ys. currentOID s1 \<le> a \<and> 0 \<le> n \<and> a + n \<le> currentOID s')"
    using "2.IH" [OF a [symmetric] y] "2.prems"(2,4) s1(1) n by auto
  show ?case using IH s1 n(1) S xs by (cases r) fastforce+
qed simp

section \<open>Restart\<close>

lemma take_2_le_bytes: "take 2 (le_bytes HeaderSize x) = le_bytes 2 x"
  by (simp add: HeaderSize_def numeral_eq_Suc)

lemma oid_load_stored:
  assumes "oid_stored s"
  shows "oid_load (oid_file s) = Inr (s\<lparr>currentOID := currentOID s mod 2 ^ 16\<rparr>)"
proof -
  have "take 2 (oid_file s) = take 2 (take HeaderSize (oid_file s))" by (simp add: HeaderSize_def)
  also have "\<dots> = le_bytes 2 (currentOID s)" using assms by (simp add: oid_stored_def take_2_le_bytes)
  finally have t: "take 2 (oid_file s) = le_bytes 2 (currentOID s)" .
  then have "oid_readData 0 2 (oid_file s) = Inr (le_bytes 2 (currentOID s))"
    by (simp add: oid_readData_def file_read_def)
  then show ?thesis by (simp add: oid_load_def int_of_le_bytes take_bit_eq_mod)
qed

lemma oid_first_bounds: "USER_OBJECT_ID \<le> oid_firstOID cfg" "oid_firstOID cfg < 2 ^ 31"
  by (auto simp: oid_firstOID_def USER_OBJECT_ID_def Let_def)

text \<open>Also a new file is read back with two bytes: a configured \<^verbatim>\<open>FirstOID\<close> is taken modulo
  $2^{16}$, although it was tested to be no system id.\<close>

lemma oid_construct_new:
  assumes "HeaderSize \<le> k"
  shows "fst (oid_construct cfg True k None) =
    Inr \<lparr>currentOID = oid_firstOID cfg mod 2 ^ 16, oid_file = le_bytes HeaderSize (oid_firstOID cfg)\<rparr>"
proof -
  let ?s = "\<lparr>currentOID = oid_firstOID cfg, oid_file = le_bytes HeaderSize (oid_firstOID cfg)\<rparr>"
  have "oid_stored ?s" by (simp add: oid_stored_def)
  moreover have "0 < k" using assms by (simp add: HeaderSize_def)
  ultimately show ?thesis
    using assms oid_load_stored [of ?s] by (simp add: oid_construct_def oid_initializeBitmap_def oid_writeData_def le_bytes_4 file_write_def)
qed

text \<open>C21: As long as the controller runs, the ranges of object ids it hands out are disjoint and
  ascending, whichever of the writes fail. When the last write succeeded, the constructor of the next run
  continues with the counter modulo 65536: where the last run stopped if that was below 65536, and
  otherwise at ids below it, which may have been handed out before.\<close>

theorem oid_restart_low_bits:
  assumes "oid_run rs s = (xs, s1)" "0 \<le> currentOID s" "\<forall>(k, n) \<in> set rs. 0 \<le> n" "0 \<le> num"
    "currentOID s + (\<Sum>(k, n) \<leftarrow> rs. n) + num < 2 ^ 31" "oid_allocOIDs k num s1 = (Inr a, s2)"
  shows "sorted_wrt (\<lambda>x y. fst x + snd x \<le> fst y) (xs @ [(a, num)]) \<and> currentOID s2 = a + num \<and>
    (\<exists>s3. oid_construct cfg emEmpty k' (Some (oid_file s2)) = (Inr s3, Some (oid_file s2)) \<and>
      currentOID s3 = currentOID s2 mod 65536 \<and>
      (currentOID s3 = currentOID s2 \<longleftrightarrow> currentOID s2 < 65536) \<and>
      (65536 \<le> currentOID s2 \<longrightarrow> currentOID s3 < currentOID s2))"
proof -
  have run: "currentOID s1 = currentOID s + (\<Sum>(k, n) \<leftarrow> rs. n)" "sorted_wrt (\<lambda>x y. fst x + snd x \<le> fst y) xs"
      "\<forall>(b, n) \<in> set xs. currentOID s \<le> b \<and> 0 \<le> n \<and> b + n \<le> currentOID s1"
    using oid_run_ranges [OF assms(1-3)] assms(4,5) by auto
  have "0 \<le> (\<Sum>(k, n) \<leftarrow> rs. n)" using assms(3) by (induction rs) auto
  then have s2: "0 \<le> currentOID s1" "a = currentOID s1" "currentOID s2 = currentOID s1 + num"
    using oid_alloc_result [OF assms(6)] run(1) assms(2,4,5) by simp_all
  have load: "oid_load (oid_file s2) = Inr (s2\<lparr>currentOID := currentOID s2 mod 65536\<rparr>)"
    using oid_load_stored [OF oid_alloc_stored [OF assms(6)]] by simp
  have m: "0 \<le> currentOID s2" "currentOID s2 mod 65536 < 65536" using s2 assms(4) by simp_all
  then have "currentOID s2 mod 65536 = currentOID s2 \<longleftrightarrow> currentOID s2 < 65536" by (metis mod_pos_pos_trivial)
  moreover have "65536 \<le> currentOID s2 \<longrightarrow> currentOID s2 mod 65536 < currentOID s2" using m(2) by linarith
  moreover have "sorted_wrt (\<lambda>x y. fst x + snd x \<le> fst y) (xs @ [(a, num)])"
    using run(2,3) s2(2) by (auto simp: sorted_wrt_append)
  ultimately show ?thesis using load m s2 by (simp add: oid_construct_def)
qed

theorem oid_restart_low_bits_witness:
  "\<exists>s1 s2 s3. oid_run [(4, 50000), (0, 5)] \<lparr>currentOID = USER_OBJECT_ID, oid_file = []\<rparr> = ([(12240, 50000)], s1) \<and>
    oid_allocOIDs 4 10000 s1 = (Inr 62245, s2) \<and> currentOID s2 = 72245 \<and>
    oid_construct None True 4 (Some (oid_file s2)) = (Inr s3, Some (oid_file s2)) \<and> currentOID s3 = 6709"
proof -
  let ?s = "\<lparr>currentOID = USER_OBJECT_ID, oid_file = []\<rparr>"
  define s1 where "s1 = \<lparr>currentOID = 62245, oid_file = le_bytes HeaderSize 62240\<rparr>"
  define s2 where "s2 = \<lparr>currentOID = 72245, oid_file = le_bytes HeaderSize 72245\<rparr>"
  have f: "file_write 0 bs f = bs" if "length f \<le> length bs" for bs f :: "byte list"
    using that by (simp add: file_write_def)
  have run: "oid_run [(4, 50000), (0, 5)] ?s = ([(12240, 50000)], s1)"
    by (simp add: oid_allocOIDs_def oid_writeData_def le_bytes_4 s32_id USER_OBJECT_ID_def s1_def f)
      (simp add: HeaderSize_def)
  have al: "oid_allocOIDs 4 10000 s1 = (Inr 62245, s2)"
    by (simp add: oid_allocOIDs_def oid_writeData_def le_bytes_4 s32_id s1_def s2_def f)
      (simp add: HeaderSize_def)
  have c: "currentOID s2 = 72245" by (simp add: s2_def)
  obtain s3 where "oid_construct None True 4 (Some (oid_file s2)) = (Inr s3, Some (oid_file s2))"
      "currentOID s3 = currentOID s2 mod 65536"
    using oid_restart_low_bits [OF run _ _ _ _ al, of None True 4] by (auto simp: USER_OBJECT_ID_def)
  then show ?thesis using run al c by auto
qed

end
