(* ===== verification/Copy_Locks.thy ===== *)
theory Copy_Locks
  imports Undo_Log Shm_Keys Byte_Stream
begin

text \<open>
  The copy locks, \<^verbatim>\<open>src/versioning/BRM/copylocks.h\<close> and \<^verbatim>\<open>copylocks.cpp\<close>: the ranges
  of blocks that are being copied to the version buffer, one entry per range and transaction. An
  entry of size 0 is free.

  \<open>cl_segment\<close> is the entry array together with the descriptor of the master segment
  table that counts it; \<open>CopyLocks\<close> is the object with its undo log. A record of the
  descriptor stays valid when the array is remapped, a record of an entry does not.
\<close>

section \<open>Data\<close>

record CopyLockEntry =
  cl_start :: LBID_t
  cl_size :: int
  cl_txnID :: VER_t

record cl_segment =
  cl_entries :: "CopyLockEntry list"
  cl_shminfo :: MSTEntry

datatype cl_image =
    ClEntryImage nat CopyLockEntry
  | ClInfoImage MSTEntry

record CopyLocks =
  cl_shm :: cl_segment
  cl_attached :: bool
  cl_mapping :: nat
  cl_undoRecords :: "(nat \<times> cl_image) list"

definition sizeof_CopyLockEntry :: int where
  "sizeof_CopyLockEntry = 16"

definition CL_INITIAL_SIZE :: int where
  "CL_INITIAL_SIZE = 50 * sizeof_CopyLockEntry"

definition CL_INCREMENT :: int where
  "CL_INCREMENT = 50 * sizeof_CopyLockEntry"

definition newCopyLockEntry :: CopyLockEntry where
  "newCopyLockEntry = \<lparr>cl_start = 0, cl_size = 0, cl_txnID = 0\<rparr>"

definition cl_used :: "CopyLockEntry \<Rightarrow> bool" where
  "cl_used e \<longleftrightarrow> cl_size e \<noteq> 0"

definition cl_numEntries :: "cl_segment \<Rightarrow> nat" where
  "cl_numEntries g = nat (mst_allocdSize (cl_shminfo g) div sizeof_CopyLockEntry)"

section \<open>Undo records\<close>

primrec cl_restore_image :: "cl_image \<Rightarrow> cl_segment \<Rightarrow> cl_segment" where
  "cl_restore_image (ClEntryImage i e) g = g\<lparr>cl_entries := (cl_entries g)[i := e]\<rparr>"
| "cl_restore_image (ClInfoImage m) g = g\<lparr>cl_shminfo := m\<rparr>"

primrec cl_info_image :: "cl_image \<Rightarrow> bool" where
  "cl_info_image (ClEntryImage i e) = False"
| "cl_info_image (ClInfoImage m) = True"

definition cl_restore :: "nat \<times> cl_image \<Rightarrow> CopyLocks \<Rightarrow> CopyLocks option" where
  "cl_restore r s =
    (if fst r = cl_mapping s \<or> cl_info_image (snd r)
     then Some (s\<lparr>cl_shm := cl_restore_image (snd r) (cl_shm s)\<rparr>) else None)"

definition cl_set_undo :: "(nat \<times> cl_image) list \<Rightarrow> CopyLocks \<Rightarrow> CopyLocks" where
  "cl_set_undo l s = s\<lparr>cl_undoRecords := l\<rparr>"

definition cl_undoChanges :: "CopyLocks \<Rightarrow> CopyLocks option" where
  "cl_undoChanges = undoChanges cl_restore cl_undoRecords cl_set_undo"

definition cl_confirmChanges :: "CopyLocks \<Rightarrow> CopyLocks" where
  "cl_confirmChanges = confirmChanges cl_set_undo"

definition cl_on ::
  "(cl_segment \<Rightarrow> (cl_segment \<times> cl_image list) option) \<Rightarrow> CopyLocks \<Rightarrow> CopyLocks option" where
  "cl_on f s = do {
     (g, imgs) \<leftarrow> f (cl_shm s);
     Some (s\<lparr>cl_shm := g, cl_undoRecords := cl_undoRecords s @ map (Pair (cl_mapping s)) imgs\<rparr>)
   }"

interpretation cl_log: undoable cl_restore cl_undoRecords cl_set_undo
  by unfold_locales (auto simp: cl_restore_def cl_set_undo_def)

section \<open>Operations\<close>

definition cl_growCL :: "CopyLocks \<Rightarrow> CopyLocks option" where
  "cl_growCL s = do {
     let info = cl_shminfo (cl_shm s);
     let allocSize = (if mst_allocdSize info = 0 then CL_INITIAL_SIZE
                      else mst_allocdSize info + CL_INCREMENT);
     let newshmkey = chooseShmkey KEYRANGE_CL_BASE (mst_tableShmkey info);
     let n = nat (allocSize div sizeof_CopyLockEntry);
     es \<leftarrow> (if cl_attached s then
               shm_grow (mst_tableShmkey info) newshmkey n newCopyLockEntry (cl_entries (cl_shm s))
             else if allocSize = CL_INITIAL_SIZE then Some (replicate n newCopyLockEntry)
             else None);
     Some (cl_confirmChanges (s\<lparr>
       cl_shm := \<lparr>cl_entries = es,
                  cl_shminfo = info\<lparr>mst_tableShmkey := newshmkey, mst_allocdSize := allocSize\<rparr>\<rparr>,
       cl_attached := True, cl_mapping := cl_mapping s + 1\<rparr>))
   }"

text \<open>The two journalled writes of every update: the entry and the descriptor's size.\<close>

definition cl_write ::
  "nat \<Rightarrow> CopyLockEntry \<Rightarrow> int \<Rightarrow> cl_segment \<Rightarrow> cl_segment \<times> cl_image list" where
  "cl_write i e d g =
    (let info = cl_shminfo g
     in (\<lparr>cl_entries = (cl_entries g)[i := e],
          cl_shminfo = info\<lparr>mst_currentSize := mst_currentSize info + d\<rparr>\<rparr>,
         [ClEntryImage i (cl_entries g ! i), ClInfoImage info]))"

text \<open>\<^verbatim>\<open>lockRange\<close> after the check for growth: the scan for an empty entry.\<close>

definition cl_lockRange_seg ::
  "LBIDRange \<Rightarrow> VER_t \<Rightarrow> cl_segment \<Rightarrow> (cl_segment \<times> cl_image list) res option" where
  "cl_lockRange_seg l txnID g =
    (if cl_numEntries g \<le> length (cl_entries g) then
       (case free_from cl_used (take (cl_numEntries g) (cl_entries g)) 0 of
          Some i \<Rightarrow> Some (Inr (cl_write i
            \<lparr>cl_start = range_start l, cl_size = s32 (range_size l), cl_txnID = txnID\<rparr>
            sizeof_CopyLockEntry g))
        | None \<Rightarrow> Some (Inl (Logic_error
            ''CopyLocks::lockRange(): shm metadata problem: could not find an empty copylock entry'')))
     else None)"

definition cl_lockRange :: "LBIDRange \<Rightarrow> VER_t \<Rightarrow> CopyLocks \<Rightarrow> CopyLocks res option" where
  "cl_lockRange l txnID s = do {
     s1 \<leftarrow> (let info = cl_shminfo (cl_shm s)
            in if mst_currentSize info = mst_allocdSize info then cl_growCL s else Some s);
     r \<leftarrow> cl_lockRange_seg l txnID (cl_shm s1);
     (case r of
        Inl err \<Rightarrow> Some (Inl err)
      | Inr p \<Rightarrow> map_option Inr (cl_on (\<lambda>_. Some p) s1))
   }"

text \<open>The overlap test of \<^verbatim>\<open>releaseRange\<close>, \<^verbatim>\<open>forceRelease\<close> and
  \<^verbatim>\<open>isLocked\<close>.\<close>

definition cl_overlaps :: "LBIDRange \<Rightarrow> CopyLockEntry \<Rightarrow> bool" where
  "cl_overlaps l e \<longleftrightarrow>
    (let lastBlock = range_start l + range_size l - 1; eLastBlock = cl_start e + cl_size e - 1
     in range_start l \<le> eLastBlock \<and> lastBlock \<ge> cl_start e)"

text \<open>The loop body those operations and \<^verbatim>\<open>rollback\<close> share: an entry in use that
  passes the test is freed.\<close>

definition cl_free_if ::
  "(CopyLockEntry \<Rightarrow> bool) \<Rightarrow> nat \<Rightarrow> cl_segment \<Rightarrow> (cl_segment \<times> cl_image list) option" where
  "cl_free_if test i g =
    (if i < length (cl_entries g) then
       let e = cl_entries g ! i
       in Some (if cl_used e \<and> test e then cl_write i (e\<lparr>cl_size := 0\<rparr>) (- sizeof_CopyLockEntry) g
                else (g, []))
     else None)"

definition cl_releaseRange :: "LBIDRange \<Rightarrow> CopyLocks \<Rightarrow> CopyLocks option" where
  "cl_releaseRange l = cl_on (\<lambda>g. for_each (cl_free_if (cl_overlaps l)) [0 ..< cl_numEntries g] g)"

definition cl_forceRelease :: "LBIDRange \<Rightarrow> CopyLocks \<Rightarrow> CopyLocks option" where
  "cl_forceRelease l = cl_on (\<lambda>g. for_each (cl_free_if (cl_overlaps l)) [0 ..< cl_numEntries g] g)"

definition cl_rollback :: "VER_t \<Rightarrow> CopyLocks \<Rightarrow> CopyLocks option" where
  "cl_rollback txnID =
    cl_on (\<lambda>g. for_each (cl_free_if (\<lambda>e. cl_txnID e = txnID)) [0 ..< cl_numEntries g] g)"

definition cl_isLocked :: "LBIDRange \<Rightarrow> cl_segment \<Rightarrow> bool option" where
  "cl_isLocked l g =
    (if cl_numEntries g \<le> length (cl_entries g)
     then Some (\<exists>e \<in> set (take (cl_numEntries g) (cl_entries g)). cl_used e \<and> cl_overlaps l e)
     else None)"

definition cl_getCurrentTxnIDs :: "cl_segment \<Rightarrow> VER_t set option" where
  "cl_getCurrentTxnIDs g =
    (if cl_numEntries g \<le> length (cl_entries g)
     then Some (cl_txnID ` set (filter cl_used (take (cl_numEntries g) (cl_entries g))))
     else None)"

section \<open>The invariant and the abstract lock set\<close>

definition cl_wf :: "cl_segment \<Rightarrow> bool" where
  "cl_wf g \<longleftrightarrow> mst_allocdSize (cl_shminfo g) = sizeof_CopyLockEntry * int (length (cl_entries g)) \<and>
    mst_currentSize (cl_shminfo g) = sizeof_CopyLockEntry * int (length (filter cl_used (cl_entries g)))"

definition cl_inv :: "CopyLocks \<Rightarrow> bool" where
  "cl_inv s \<longleftrightarrow> cl_wf (cl_shm s) \<and> cl_attached s"

text \<open>What the table stands for: the multiset of the locks held.\<close>

definition cl_locks :: "cl_segment \<Rightarrow> CopyLockEntry multiset" where
  "cl_locks g = mset (filter cl_used (cl_entries g))"

lemma cl_wf_numEntries [simp]: "cl_wf g \<Longrightarrow> cl_numEntries g = length (cl_entries g)"
  by (simp add: cl_wf_def cl_numEntries_def sizeof_CopyLockEntry_def)

lemma cl_isLocked_iff:
  "cl_wf g \<Longrightarrow> cl_isLocked l g = Some (\<exists>e. e \<in># cl_locks g \<and> cl_overlaps l e)"
  by (auto simp: cl_isLocked_def cl_locks_def)

lemma cl_getCurrentTxnIDs_eq:
  "cl_wf g \<Longrightarrow> cl_getCurrentTxnIDs g = Some (cl_txnID ` set_mset (cl_locks g))"
  by (simp add: cl_getCurrentTxnIDs_def cl_locks_def)

section \<open>Freeing loops\<close>

definition cl_freed :: "(CopyLockEntry \<Rightarrow> bool) \<Rightarrow> CopyLockEntry \<Rightarrow> CopyLockEntry" where
  "cl_freed test e = (if cl_used e \<and> test e then e\<lparr>cl_size := 0\<rparr> else e)"

lemma cl_used_freed: "cl_used (cl_freed test e) \<longleftrightarrow> cl_used e \<and> \<not> test e"
  by (simp add: cl_freed_def cl_used_def)

lemma filter_cl_freed: "filter cl_used (map (cl_freed test) es) = filter (\<lambda>e. \<not> test e) (filter cl_used es)"
  by (induction es) (auto simp: cl_freed_def cl_used_def)

lemma cl_free_loop:
  assumes "n \<le> length (cl_entries g)"
  shows "\<exists>imgs. for_each (cl_free_if test) [0 ..< n] g = Some (\<lparr>
      cl_entries = map (cl_freed test) (take n (cl_entries g)) @ drop n (cl_entries g),
      cl_shminfo = (cl_shminfo g)\<lparr>mst_currentSize := mst_currentSize (cl_shminfo g) -
        sizeof_CopyLockEntry * int (length (filter (\<lambda>e. cl_used e \<and> test e) (take n (cl_entries g))))\<rparr>\<rparr>, imgs)"
  using assms
proof (induction n)
  case (Suc n)
  then have n: "n < length (cl_entries g)" by simp
  let ?g1 = "\<lparr>cl_entries = map (cl_freed test) (take n (cl_entries g)) @ drop n (cl_entries g),
      cl_shminfo = (cl_shminfo g)\<lparr>mst_currentSize := mst_currentSize (cl_shminfo g) -
        sizeof_CopyLockEntry * int (length (filter (\<lambda>e. cl_used e \<and> test e) (take n (cl_entries g))))\<rparr>\<rparr>"
  let ?e = "cl_entries g ! n"
  have split: "drop n (cl_entries g) = ?e # drop (Suc n) (cl_entries g)" using n by (simp add: Cons_nth_drop_Suc)
  have len: "length (map (cl_freed test) (take n (cl_entries g))) = n" using n by simp
  obtain imgs where loop: "for_each (cl_free_if test) [0 ..< n] g = Some (?g1, imgs)" using Suc by auto
  have body: "cl_free_if test n ?g1 = Some
      (if cl_used ?e \<and> test ?e then cl_write n (?e\<lparr>cl_size := 0\<rparr>) (- sizeof_CopyLockEntry) ?g1 else (?g1, []))"
    using n by (simp add: cl_free_if_def nth_append Let_def)
  have upd: "(cl_entries ?g1)[n := x] = map (cl_freed test) (take n (cl_entries g)) @ x # drop (Suc n) (cl_entries g)" for x
    using len by (simp add: split list_update_append)
  show ?case
  proof (cases "cl_used ?e \<and> test ?e")
    case True
    then show ?thesis using loop body upd n
      by (simp add: for_each_append cl_write_def Let_def cl_freed_def take_Suc_conv_app_nth
          sizeof_CopyLockEntry_def)
  next
    case False
    then have "cl_freed test ?e = ?e" by (auto simp: cl_freed_def)
    then have "map (cl_freed test) (take n (cl_entries g)) @ drop n (cl_entries g) =
        map (cl_freed test) (take (Suc n) (cl_entries g)) @ drop (Suc n) (cl_entries g)"
        "filter (\<lambda>e. cl_used e \<and> test e) (take (Suc n) (cl_entries g)) =
         filter (\<lambda>e. cl_used e \<and> test e) (take n (cl_entries g))"
      using n False by (simp_all add: take_Suc_conv_app_nth split)
    moreover have "cl_free_if test n ?g1 = Some (?g1, [])" using body False by (simp only: if_False)
    then have "for_each (cl_free_if test) [0 ..< Suc n] g = Some (?g1, imgs)"
      using loop by (simp add: for_each_append)
    ultimately show ?thesis by simp
  qed
qed (simp add: sizeof_CopyLockEntry_def)

lemma cl_on_free:
  assumes "cl_wf (cl_shm s)"
  obtains s' where
    "cl_on (\<lambda>g. for_each (cl_free_if test) [0 ..< cl_numEntries g] g) s = Some s'"
    "cl_wf (cl_shm s')" "cl_attached s' = cl_attached s"
    "cl_locks (cl_shm s') = filter_mset (\<lambda>e. \<not> test e) (cl_locks (cl_shm s))"
proof -
  let ?g = "cl_shm s"
  let ?es = "map (cl_freed test) (cl_entries ?g)"
  let ?info = "(cl_shminfo ?g)\<lparr>mst_currentSize := mst_currentSize (cl_shminfo ?g) -
        sizeof_CopyLockEntry * int (length (filter (\<lambda>e. cl_used e \<and> test e) (cl_entries ?g)))\<rparr>"
  obtain imgs where loop: "for_each (cl_free_if test) [0 ..< cl_numEntries ?g] ?g =
      Some (\<lparr>cl_entries = ?es, cl_shminfo = ?info\<rparr>, imgs)"
    using cl_free_loop [of "length (cl_entries ?g)" ?g test] assms by auto
  have len: "int (length (filter cl_used ?es)) =
      int (length (filter cl_used (cl_entries ?g))) - int (length (filter (\<lambda>e. cl_used e \<and> test e) (cl_entries ?g)))"
    using sum_length_filter_compl [of test "filter cl_used (cl_entries ?g)"]
    unfolding filter_cl_freed by (simp add: conj_commute)
  show ?thesis
  proof (rule that)
    show "cl_on (\<lambda>g. for_each (cl_free_if test) [0 ..< cl_numEntries g] g) s = Some (s\<lparr>
        cl_shm := \<lparr>cl_entries = ?es, cl_shminfo = ?info\<rparr>,
        cl_undoRecords := cl_undoRecords s @ map (Pair (cl_mapping s)) imgs\<rparr>)"
      using loop by (simp add: cl_on_def)
  qed (use assms len in \<open>simp_all add: cl_wf_def cl_locks_def filter_cl_freed sizeof_CopyLockEntry_def
      filter_filter_mset [symmetric] conj_commute\<close>)
qed

section \<open>Locking\<close>

lemma cl_growCL_ok:
  assumes "cl_inv s"
  obtains s' where "cl_growCL s = Some s'" "cl_inv s'" "cl_locks (cl_shm s') = cl_locks (cl_shm s)"
    "length (cl_entries (cl_shm s')) = length (cl_entries (cl_shm s)) + 50"
proof -
  let ?g = "cl_shm s" and ?info = "cl_shminfo (cl_shm s)"
  let ?key = "chooseShmkey KEYRANGE_CL_BASE (mst_tableShmkey ?info)"
  let ?alloc = "mst_allocdSize ?info + CL_INCREMENT"
  let ?es = "cl_entries ?g @ replicate 50 newCopyLockEntry"
  have wf: "mst_allocdSize ?info = 16 * int (length (cl_entries ?g))" "cl_attached s"
    using assms by (simp_all add: cl_inv_def cl_wf_def sizeof_CopyLockEntry_def)
  have key: "?key \<noteq> mst_tableShmkey ?info" by (rule chooseShmkey_fresh) (simp_all add: KEYRANGE_CL_BASE_def)
  have alloc: "(if mst_allocdSize ?info = 0 then CL_INITIAL_SIZE else ?alloc) = ?alloc"
      "nat (?alloc div sizeof_CopyLockEntry) = length (cl_entries ?g) + 50"
    using wf by (simp_all add: CL_INITIAL_SIZE_def CL_INCREMENT_def sizeof_CopyLockEntry_def)
  have grow: "shm_grow (mst_tableShmkey ?info) ?key (length (cl_entries ?g) + 50) newCopyLockEntry (cl_entries ?g) = Some ?es"
    using key by (simp add: shm_grow_def)
  have unused: "filter cl_used ?es = filter cl_used (cl_entries ?g)"
    by (simp add: newCopyLockEntry_def cl_used_def)
  let ?s = "cl_confirmChanges (s\<lparr>cl_shm := \<lparr>cl_entries = ?es,
       cl_shminfo = ?info\<lparr>mst_tableShmkey := ?key, mst_allocdSize := ?alloc\<rparr>\<rparr>,
       cl_attached := True, cl_mapping := cl_mapping s + 1\<rparr>)"
  have "cl_growCL s = Some ?s"
    unfolding cl_growCL_def Let_def alloc if_P [OF wf(2)] grow bind.bind_lunit by (rule refl)
  moreover have "cl_inv ?s" "cl_locks (cl_shm ?s) = cl_locks ?g"
      "length (cl_entries (cl_shm ?s)) = length (cl_entries ?g) + 50"
    using assms unused
    by (simp_all add: cl_confirmChanges_def confirmChanges_def cl_set_undo_def cl_inv_def cl_wf_def cl_locks_def
        CL_INCREMENT_def sizeof_CopyLockEntry_def)
  ultimately show thesis by (rule that)
qed

lemma cl_lockRange_seg_ok:
  assumes wf: "cl_wf g" and room: "length (filter cl_used (cl_entries g)) < length (cl_entries g)"
    and size: "0 < range_size l" "range_size l < 2 ^ 31"
  obtains g' imgs where "cl_lockRange_seg l txnID g = Some (Inr (g', imgs))" "cl_wf g'"
    "cl_locks g' = add_mset \<lparr>cl_start = range_start l, cl_size = range_size l, cl_txnID = txnID\<rparr> (cl_locks g)"
proof -
  let ?es = "cl_entries g"
  let ?e = "\<lparr>cl_start = range_start l, cl_size = range_size l, cl_txnID = txnID\<rparr>"
  obtain i where i: "free_from cl_used ?es 0 = Some i" "i < length ?es" "\<not> cl_used (?es ! i)"
    by (rule free_slot [of 0 cl_used ?es]) (use room in auto)
  have e: "s32 (range_size l) = range_size l" "cl_used ?e" using size by (simp_all add: s32_id cl_used_def)
  have "cl_lockRange_seg l txnID g = Some (Inr (cl_write i ?e sizeof_CopyLockEntry g))"
    using i wf e by (simp add: cl_lockRange_seg_def)
  moreover have "cl_wf (fst (cl_write i ?e sizeof_CopyLockEntry g))"
    using wf e i length_filter_update [OF i(2), of cl_used ?e]
    by (simp add: cl_wf_def cl_write_def Let_def sizeof_CopyLockEntry_def)
  moreover have "cl_locks (fst (cl_write i ?e sizeof_CopyLockEntry g)) = add_mset ?e (cl_locks g)"
    using mset_filter_update [OF i(2), of id cl_used ?e] e i
    by (simp add: cl_locks_def cl_write_def Let_def)
  ultimately show thesis by (intro that [of "fst (cl_write i ?e sizeof_CopyLockEntry g)"
        "snd (cl_write i ?e sizeof_CopyLockEntry g)"]) simp_all
qed

section \<open>Undo\<close>

lemma cl_write_undo: "cl_write i e d g = (g', imgs) \<Longrightarrow> foldr cl_restore_image imgs g' = g"
  by (auto simp: cl_write_def Let_def)

lemma cl_free_if_undo: "cl_free_if test i g = Some (g', imgs) \<Longrightarrow> foldr cl_restore_image imgs g' = g"
  by (auto simp: cl_free_if_def Let_def cl_write_undo split: if_splits)

lemma cl_undo_all_images:
  "undo_all cl_restore (map (Pair (cl_mapping s)) imgs) s =
    Some (s\<lparr>cl_shm := foldr cl_restore_image imgs (cl_shm s)\<rparr>)"
  by (induction imgs) (simp_all add: cl_restore_def)

lemma cl_on_journalled:
  assumes "cl_on f s = Some s'" "\<And>g' imgs. f (cl_shm s) = Some (g', imgs) \<Longrightarrow> foldr cl_restore_image imgs g' = cl_shm s"
  shows "journalled cl_restore cl_undoRecords cl_set_undo s s'"
proof -
  obtain g' imgs where f: "f (cl_shm s) = Some (g', imgs)"
    and s': "s' = s\<lparr>cl_shm := g', cl_undoRecords := cl_undoRecords s @ map (Pair (cl_mapping s)) imgs\<rparr>"
    using assms(1) by (auto simp: cl_on_def Option.bind_eq_Some_conv)
  have "undo_all cl_restore (map (Pair (cl_mapping s)) imgs) (cl_set_undo [] s') = Some (cl_set_undo [] s)"
    using cl_undo_all_images [of "cl_set_undo [] s'" imgs] assms(2) [OF f] s' by (simp add: cl_set_undo_def)
  then show ?thesis using s' by (auto simp: journalled_def)
qed

text \<open>The updates between two confirmations. A lock that would grow the table confirms what was done
  before it, so it is not among them.\<close>

inductive cl_step :: "CopyLocks \<Rightarrow> CopyLocks \<Rightarrow> bool" where
  lock_range: "mst_currentSize (cl_shminfo (cl_shm s)) \<noteq> mst_allocdSize (cl_shminfo (cl_shm s)) \<Longrightarrow>
    cl_lockRange l txnID s = Some (Inr s') \<Longrightarrow> cl_step s s'"
| release_range: "cl_releaseRange l s = Some s' \<Longrightarrow> cl_step s s'"
| force_release: "cl_forceRelease l s = Some s' \<Longrightarrow> cl_step s s'"
| roll_back: "cl_rollback txnID s = Some s' \<Longrightarrow> cl_step s s'"

lemma cl_free_journalled:
  "cl_on (\<lambda>g. for_each (cl_free_if test) [0 ..< cl_numEntries g] g) s = Some s' \<Longrightarrow>
    journalled cl_restore cl_undoRecords cl_set_undo s s'"
  by (erule cl_on_journalled) (erule for_each_undo, erule cl_free_if_undo)

lemma cl_step_journalled: "cl_step s s' \<Longrightarrow> journalled cl_restore cl_undoRecords cl_set_undo s s'"
proof (induction rule: cl_step.induct)
  case (lock_range s l txnID s')
  then obtain r where r: "cl_lockRange_seg l txnID (cl_shm s) = Some r"
      "(case r of Inl err \<Rightarrow> Some (Inl err) | Inr p \<Rightarrow> map_option Inr (cl_on (\<lambda>_. Some p) s)) = Some (Inr s')"
    by (auto simp: cl_lockRange_def Let_def Option.bind_eq_Some_conv)
  then obtain p where p: "cl_lockRange_seg l txnID (cl_shm s) = Some (Inr p)" "cl_on (\<lambda>_. Some p) s = Some s'"
    by (cases r) auto
  from p(1) have "foldr cl_restore_image (snd p) (fst p) = cl_shm s"
    by (auto simp: cl_lockRange_seg_def cl_write_undo split: if_splits option.splits)
  then show ?case by (intro cl_on_journalled [OF p(2)]) simp
qed (auto simp: cl_releaseRange_def cl_forceRelease_def cl_rollback_def intro: cl_free_journalled)

section \<open>Locking\<close>

lemma cl_lockRange_ok:
  assumes "cl_inv s" "0 < range_size l" "range_size l < 2 ^ 31"
  shows "\<exists>s'. cl_lockRange l txnID s = Some (Inr s') \<and> cl_inv s' \<and>
    cl_locks (cl_shm s') =
      add_mset \<lparr>cl_start = range_start l, cl_size = range_size l, cl_txnID = txnID\<rparr> (cl_locks (cl_shm s))"
proof -
  let ?info = "cl_shminfo (cl_shm s)"
  let ?grown = "if mst_currentSize ?info = mst_allocdSize ?info then cl_growCL s else Some s"
  obtain s1 where s1: "?grown = Some s1" "cl_inv s1" "cl_locks (cl_shm s1) = cl_locks (cl_shm s)"
      "length (filter cl_used (cl_entries (cl_shm s1))) < length (cl_entries (cl_shm s1))"
  proof (cases "mst_currentSize ?info = mst_allocdSize ?info")
    case True
    obtain s2 where s2: "cl_growCL s = Some s2" "cl_inv s2" "cl_locks (cl_shm s2) = cl_locks (cl_shm s)"
        "length (cl_entries (cl_shm s2)) = length (cl_entries (cl_shm s)) + 50"
      by (rule cl_growCL_ok [OF assms(1)])
    have "length (filter cl_used (cl_entries (cl_shm s2))) = length (filter cl_used (cl_entries (cl_shm s)))"
      using arg_cong [OF s2(3), of size] by (simp only: cl_locks_def size_mset)
    also have "\<dots> \<le> length (cl_entries (cl_shm s))" by (rule length_filter_le)
    finally show thesis using True s2 by (intro that [of s2]) simp_all
  next
    case False
    then have "length (filter cl_used (cl_entries (cl_shm s))) \<noteq> length (cl_entries (cl_shm s))"
      using assms(1) by (auto simp: cl_inv_def cl_wf_def)
    then have "length (filter cl_used (cl_entries (cl_shm s))) < length (cl_entries (cl_shm s))"
      using length_filter_le [of cl_used "cl_entries (cl_shm s)"] by linarith
    then show thesis using False assms(1) by (intro that [of s]) simp_all
  qed
  obtain g' imgs where g': "cl_lockRange_seg l txnID (cl_shm s1) = Some (Inr (g', imgs))" "cl_wf g'"
      "cl_locks g' = add_mset \<lparr>cl_start = range_start l, cl_size = range_size l, cl_txnID = txnID\<rparr> (cl_locks (cl_shm s1))"
    using cl_lockRange_seg_ok [OF _ s1(4) assms(2,3)] s1(2) unfolding cl_inv_def by metis
  let ?s' = "s1\<lparr>cl_shm := g', cl_undoRecords := cl_undoRecords s1 @ map (Pair (cl_mapping s1)) imgs\<rparr>"
  have "cl_lockRange l txnID s = Some (Inr ?s')"
    unfolding cl_lockRange_def Let_def s1(1) by (simp add: g'(1) cl_on_def)
  then show ?thesis using g' s1(2,3) by (intro exI [of _ ?s']) (simp add: cl_inv_def)
qed

section \<open>The properties\<close>

text \<open>C27: Locking a range always succeeds and refines the addition of one lock to the multiset of locks held.
  A full table grows by fifty entries first, so the exception for a missing empty entry is never
  thrown; the table's invariant is kept.\<close>

theorem cl_lockRange_refines:
  assumes "cl_inv s" "0 < range_size l" "range_size l < 2 ^ 31"
  shows "\<exists>s'. cl_lockRange l txnID s = Some (Inr s') \<and> cl_inv s' \<and>
    cl_locks (cl_shm s') =
      add_mset \<lparr>cl_start = range_start l, cl_size = range_size l, cl_txnID = txnID\<rparr> (cl_locks (cl_shm s))"
  by (rule cl_lockRange_ok [OF assms])

definition cl_full :: CopyLocks where
  "cl_full = \<lparr>cl_shm = \<lparr>cl_entries = [\<lparr>cl_start = 0, cl_size = 8, cl_txnID = 3\<rparr>],
      cl_shminfo = \<lparr>mst_tableShmkey = 0x50001, mst_allocdSize = 16, mst_currentSize = 16\<rparr>\<rparr>,
    cl_attached = True, cl_mapping = 0, cl_undoRecords = []\<rparr>"

theorem cl_lockRange_refines_witness:
  "\<exists>s'. cl_lockRange \<lparr>range_start = 8, range_size = 4\<rparr> 5 cl_full = Some (Inr s') \<and> cl_inv s' \<and>
    cl_locks (cl_shm s') = {#\<lparr>cl_start = 8, cl_size = 4, cl_txnID = 5\<rparr>, \<lparr>cl_start = 0, cl_size = 8, cl_txnID = 3\<rparr>#}"
  using cl_lockRange_refines [of cl_full "\<lparr>range_start = 8, range_size = 4\<rparr>" 5]
  by (simp add: cl_full_def cl_inv_def cl_wf_def cl_locks_def cl_used_def sizeof_CopyLockEntry_def)

text \<open>C28: Releasing a range frees exactly the locks that overlap it: the table then reports the range as
  not locked, every other lock is still held, and the invariant is kept. Rolling a transaction back
  frees exactly the locks the transaction holds.\<close>

theorem cl_release_refines:
  assumes "cl_inv s"
  shows "(\<exists>s'. cl_releaseRange l s = Some s' \<and> cl_inv s' \<and> cl_isLocked l (cl_shm s') = Some False \<and>
      cl_locks (cl_shm s') = filter_mset (\<lambda>e. \<not> cl_overlaps l e) (cl_locks (cl_shm s))) \<and>
    (\<exists>s'. cl_rollback txnID s = Some s' \<and> cl_inv s' \<and> cl_getCurrentTxnIDs (cl_shm s') =
        Some (cl_txnID ` set_mset (cl_locks (cl_shm s)) - {txnID}) \<and>
      cl_locks (cl_shm s') = filter_mset (\<lambda>e. cl_txnID e \<noteq> txnID) (cl_locks (cl_shm s)))"
proof (intro conjI)
  have wf: "cl_wf (cl_shm s)" "cl_attached s" using assms by (simp_all add: cl_inv_def)
  obtain s1 where "cl_releaseRange l s = Some s1" "cl_wf (cl_shm s1)" "cl_attached s1 = cl_attached s"
      "cl_locks (cl_shm s1) = filter_mset (\<lambda>e. \<not> cl_overlaps l e) (cl_locks (cl_shm s))"
    unfolding cl_releaseRange_def by (rule cl_on_free [OF wf(1)])
  then show "\<exists>s'. cl_releaseRange l s = Some s' \<and> cl_inv s' \<and> cl_isLocked l (cl_shm s') = Some False \<and>
      cl_locks (cl_shm s') = filter_mset (\<lambda>e. \<not> cl_overlaps l e) (cl_locks (cl_shm s))"
    using wf(2) by (intro exI [of _ s1]) (simp add: cl_inv_def cl_isLocked_iff)
  obtain s2 where "cl_rollback txnID s = Some s2" "cl_wf (cl_shm s2)" "cl_attached s2 = cl_attached s"
      "cl_locks (cl_shm s2) = filter_mset (\<lambda>e. cl_txnID e \<noteq> txnID) (cl_locks (cl_shm s))"
    unfolding cl_rollback_def by (rule cl_on_free [OF wf(1)])
  then show "\<exists>s'. cl_rollback txnID s = Some s' \<and> cl_inv s' \<and> cl_getCurrentTxnIDs (cl_shm s') =
        Some (cl_txnID ` set_mset (cl_locks (cl_shm s)) - {txnID}) \<and>
      cl_locks (cl_shm s') = filter_mset (\<lambda>e. cl_txnID e \<noteq> txnID) (cl_locks (cl_shm s))"
    using wf(2) by (intro exI [of _ s2]) (auto simp: cl_inv_def cl_getCurrentTxnIDs_eq)
qed

theorem cl_release_refines_witness:
  "\<exists>s'. cl_releaseRange \<lparr>range_start = 7, range_size = 4\<rparr> cl_full = Some s' \<and> cl_locks (cl_shm s') = {#}"
  using cl_release_refines [of cl_full "\<lparr>range_start = 7, range_size = 4\<rparr>"]
  by (auto simp: cl_full_def cl_inv_def cl_wf_def cl_locks_def cl_used_def cl_overlaps_def sizeof_CopyLockEntry_def)

text \<open>Undoing the changes of a message restores the copy locks: after any sequence of locks that do not grow
  the table, releases and rollbacks on a confirmed table, \<^verbatim>\<open>undoChanges\<close> gives back the table the
  sequence started from.\<close>

lemma cl_undo_restores:
  assumes "cl_undoRecords s = []" "cl_step\<^sup>*\<^sup>* s s'"
  shows "cl_undoChanges s' = Some s"
  unfolding cl_undoChanges_def
  by (rule cl_log.undo_to_confirmed [OF assms(1) cl_log.journalled_rtranclp [OF assms(2) cl_step_journalled]])

lemma cl_undo_restores_witness:
  "\<exists>s'. cl_releaseRange \<lparr>range_start = 7, range_size = 4\<rparr> cl_full = Some s' \<and> s' \<noteq> cl_full \<and>
    cl_undoChanges s' = Some cl_full"
proof -
  let ?l = "\<lparr>range_start = 7, range_size = 4\<rparr>"
  obtain s' where s': "cl_releaseRange ?l cl_full = Some s'" "cl_entries (cl_shm s') = [\<lparr>cl_start = 0, cl_size = 0, cl_txnID = 3\<rparr>]"
    by (simp add: cl_releaseRange_def cl_on_def cl_full_def cl_numEntries_def cl_free_if_def cl_write_def
        cl_used_def cl_overlaps_def sizeof_CopyLockEntry_def)
  have "cl_step\<^sup>*\<^sup>* cl_full s'" using s'(1) by (blast intro: cl_step.release_range)
  from cl_undo_restores [OF _ this] s' show ?thesis by (auto simp: cl_full_def)
qed

end
