(* ===== verification/Extent_Map.thy ===== *)
theory Extent_Map
  imports Undo_Log Shm_Keys Byte_Stream Logical_Partition Std_Map
begin

text \<open>
  The extent map, \<^verbatim>\<open>src/versioning/BRM/extentmap.h\<close> and \<^verbatim>\<open>extentmap.cpp\<close>: which
  range of block numbers (LBIDs) each extent of a column or dictionary file occupies, and the free
  list of the ranges no extent occupies. Sizes of ranges are in units of 1024 blocks.

  This theory has the data, the undo log, the growth of the two tables and the casual partitioning
  information of an extent (the minimum and maximum of its values with a sequence number). The
  state is \<open>ExtentMap\<close>: the mapped entries of both tables, the \<^verbatim>\<open>currentSize\<close> and
  key of their descriptors (\<^verbatim>\<open>allocdSize\<close> is the size of the mapped array), and the log.
  \<open>em_mapping\<close> and \<open>fl_mapping\<close> number the mapped segments; a record is tagged with both.

  An operation that can throw returns its result and the state at that point, since what it wrote
  before the exception stays until \<^verbatim>\<open>undoChanges\<close>. The model is of the build without
  \<^verbatim>\<open>BRM_DEBUG\<close> and \<^verbatim>\<open>BRM_INFO\<close>.
\<close>

section \<open>Data\<close>

type_synonym HWM_t = int

datatype ColDataType =
    BIT | TINYINT | CHAR_T | SMALLINT | DECIMAL | MEDINT | INT_T | FLOAT | DATE | BIGINT | DOUBLE
  | DATETIME | VARCHAR | VARBINARY | CLOB | BLOB | UTINYINT | USMALLINT | UDECIMAL | UMEDINT | UINT
  | UFLOAT | UBIGINT | UDOUBLE | NUM_OF_COL_DATA_TYPE | LONGDOUBLE | STRINT

definition isCharType :: "ColDataType \<Rightarrow> bool" where
  "isCharType t \<longleftrightarrow> t = VARCHAR \<or> t = CHAR_T"

definition isUnsigned :: "ColDataType \<Rightarrow> bool" where
  "isUnsigned t = (case t of UTINYINT \<Rightarrow> True | USMALLINT \<Rightarrow> True | UMEDINT \<Rightarrow> True | UINT \<Rightarrow> True
    | UBIGINT \<Rightarrow> True | _ \<Rightarrow> False)"

record InlineLBIDRange =
  il_start :: LBID_t
  il_size :: int

text \<open>\<^verbatim>\<open>isValid\<close> of a casual partition.\<close>

definition CP_INVALID :: int where "CP_INVALID = 0"
definition CP_UPDATING :: int where "CP_UPDATING = 1"
definition CP_VALID :: int where "CP_VALID = 2"

record EMCasualPartition =
  hi_val :: "64 word"
  lo_val :: "64 word"
  sequenceNum :: int
  isValid :: int

definition EXTENTAVAILABLE :: int where "EXTENTAVAILABLE = 0"
definition EXTENTUNAVAILABLE :: int where "EXTENTUNAVAILABLE = 1"
definition EXTENTOUTOFSERVICE :: int where "EXTENTOUTOFSERVICE = 2"

record EMEntry =
  em_range :: InlineLBIDRange
  em_fileID :: OID_t
  em_blockOffset :: int
  em_dbRoots :: DBROOTS_struct
  em_HWM :: int
  em_partitionNum :: int
  em_segmentNum :: int
  em_colWid :: int
  em_status :: int
  em_cprange :: EMCasualPartition

text \<open>Sizes on LP64.\<close>

definition sizeof_EMEntry :: int where "sizeof_EMEntry = 72"
definition sizeof_InlineLBIDRange :: int where "sizeof_InlineLBIDRange = 16"
definition sizeof_MSTEntry :: int where "sizeof_MSTEntry = 12"

definition EM_INCREMENT_ROWS :: nat where "EM_INCREMENT_ROWS = 100"
definition EM_INITIAL_ROWS :: nat where "EM_INITIAL_ROWS = EM_INCREMENT_ROWS * 10"
definition EM_FREELIST_INITIAL_ROWS :: nat where "EM_FREELIST_INITIAL_ROWS = 50"
definition EM_FREELIST_INCREMENT_ROWS :: nat where "EM_FREELIST_INCREMENT_ROWS = 50"
definition MAX_LBID_SIZE :: int where "MAX_LBID_SIZE = 0xFFFFFFFF"

datatype em_image =
    EmEntryImage nat EMEntry
  | FlEntryImage nat InlineLBIDRange
  | EmSizeImage int
  | FlSizeImage int
  | PointerImage

record ExtentMap =
  em_entries :: "EMEntry list"
  em_currentSize :: int
  em_tableShmkey :: int
  em_attached :: bool
  fl_entries :: "InlineLBIDRange list"
  fl_currentSize :: int
  fl_tableShmkey :: int
  fl_attached :: bool
  em_mapping :: nat
  fl_mapping :: nat
  em_undoRecords :: "((nat \<times> nat) \<times> em_image) list"

abbreviation em_start :: "EMEntry \<Rightarrow> LBID_t" where
  "em_start e \<equiv> il_start (em_range e)"

abbreviation em_size :: "EMEntry \<Rightarrow> int" where
  "em_size e \<equiv> il_size (em_range e)"

definition em_used :: "EMEntry \<Rightarrow> bool" where
  "em_used e \<longleftrightarrow> em_size e \<noteq> 0"

definition fl_used :: "InlineLBIDRange \<Rightarrow> bool" where
  "fl_used r \<longleftrightarrow> il_size r \<noteq> 0"

text \<open>The first index at which a scan finds what it looks for.\<close>

definition index_of :: "('e \<Rightarrow> bool) \<Rightarrow> 'e list \<Rightarrow> nat option" where
  "index_of P es = free_from (\<lambda>e. \<not> P e) es 0"

lemma index_of_SomeD:
  "index_of P es = Some i \<Longrightarrow> i < length es \<and> P (es ! i) \<and> (\<forall>k < i. \<not> P (es ! k))"
  unfolding index_of_def by (drule free_from_SomeD) simp

lemma index_of_None: "index_of P es = None \<longleftrightarrow> (\<forall>e \<in> set es. \<not> P e)"
proof
  assume none: "index_of P es = None"
  show "\<forall>e \<in> set es. \<not> P e"
  proof (rule ballI, rule notI)
    fix e assume "e \<in> set es" "P e"
    then obtain j where j: "j < length es" "\<not> \<not> P (es ! j)" by (auto simp: in_set_conv_nth)
    from free_from_Some [of 0 j es "\<lambda>e. \<not> P e", OF _ j] none show False by (auto simp: index_of_def)
  qed
next
  assume "\<forall>e \<in> set es. \<not> P e"
  then show "index_of P es = None" by (metis index_of_SomeD nth_mem option.exhaust)
qed

section \<open>Undo records\<close>

text \<open>A record of a table's cell or descriptor is copied back while the table is still mapped where
  it was. A record of the descriptor restores its \<^verbatim>\<open>currentSize\<close>: key and size of the
  mapping are what they were, if the mapping is. \<open>PointerImage\<close> is the record that
  \<^verbatim>\<open>makeUndoRecord(&fFLShminfo, sizeof(MSTEntry))\<close> and the like for \<^verbatim>\<open>fEMShminfo\<close>
  make: it holds the bytes of the pointer member of the object, not of the descriptor it points
  to, and copying them back changes nothing.\<close>

definition em_restore :: "(nat \<times> nat) \<times> em_image \<Rightarrow> ExtentMap \<Rightarrow> ExtentMap option" where
  "em_restore r s =
    (case snd r of
       EmEntryImage i e \<Rightarrow>
         if fst (fst r) = em_mapping s then Some (s\<lparr>em_entries := (em_entries s)[i := e]\<rparr>) else None
     | FlEntryImage i e \<Rightarrow>
         if snd (fst r) = fl_mapping s then Some (s\<lparr>fl_entries := (fl_entries s)[i := e]\<rparr>) else None
     | EmSizeImage n \<Rightarrow>
         if fst (fst r) = em_mapping s then Some (s\<lparr>em_currentSize := n\<rparr>) else None
     | FlSizeImage n \<Rightarrow>
         if snd (fst r) = fl_mapping s then Some (s\<lparr>fl_currentSize := n\<rparr>) else None
     | PointerImage \<Rightarrow> Some s)"

definition em_set_undo :: "((nat \<times> nat) \<times> em_image) list \<Rightarrow> ExtentMap \<Rightarrow> ExtentMap" where
  "em_set_undo l s = s\<lparr>em_undoRecords := l\<rparr>"

definition em_undoChanges :: "ExtentMap \<Rightarrow> ExtentMap option" where
  "em_undoChanges = undoChanges em_restore em_undoRecords em_set_undo"

definition em_confirmChanges :: "ExtentMap \<Rightarrow> ExtentMap" where
  "em_confirmChanges = confirmChanges em_set_undo"

interpretation em_log: undoable em_restore em_undoRecords em_set_undo
  by unfold_locales (auto simp: em_restore_def em_set_undo_def split: em_image.splits)

definition em_record :: "em_image \<Rightarrow> ExtentMap \<Rightarrow> ExtentMap" where
  "em_record m s = s\<lparr>em_undoRecords := em_undoRecords s @ [((em_mapping s, fl_mapping s), m)]\<rparr>"

text \<open>The journalled writes: record, then assign.\<close>

definition em_put :: "nat \<Rightarrow> EMEntry \<Rightarrow> ExtentMap \<Rightarrow> ExtentMap" where
  "em_put i e s = em_record (EmEntryImage i (em_entries s ! i)) (s\<lparr>em_entries := (em_entries s)[i := e]\<rparr>)"

definition fl_put :: "nat \<Rightarrow> InlineLBIDRange \<Rightarrow> ExtentMap \<Rightarrow> ExtentMap" where
  "fl_put i r s = em_record (FlEntryImage i (fl_entries s ! i)) (s\<lparr>fl_entries := (fl_entries s)[i := r]\<rparr>)"

definition em_count :: "int \<Rightarrow> ExtentMap \<Rightarrow> ExtentMap" where
  "em_count d s = em_record (EmSizeImage (em_currentSize s)) (s\<lparr>em_currentSize := em_currentSize s + d\<rparr>)"

definition fl_count :: "int \<Rightarrow> ExtentMap \<Rightarrow> ExtentMap" where
  "fl_count d s = em_record (FlSizeImage (fl_currentSize s)) (s\<lparr>fl_currentSize := fl_currentSize s + d\<rparr>)"

text \<open>The same with the wrong address recorded.\<close>

definition em_count_unlogged :: "int \<Rightarrow> ExtentMap \<Rightarrow> ExtentMap" where
  "em_count_unlogged d s = em_record PointerImage (s\<lparr>em_currentSize := em_currentSize s + d\<rparr>)"

definition fl_count_unlogged :: "int \<Rightarrow> ExtentMap \<Rightarrow> ExtentMap" where
  "fl_count_unlogged d s = em_record PointerImage (s\<lparr>fl_currentSize := fl_currentSize s + d\<rparr>)"

lemmas em_writes = em_record_def em_put_def fl_put_def em_count_def fl_count_def em_count_unlogged_def
  fl_count_unlogged_def

abbreviation em_journalled :: "ExtentMap \<Rightarrow> ExtentMap \<Rightarrow> bool" where
  "em_journalled \<equiv> journalled em_restore em_undoRecords em_set_undo"

lemma em_put_journalled: "em_journalled s (em_put i e s)"
  by (auto simp: journalled_def em_writes em_restore_def em_set_undo_def intro!: exI)

lemma fl_put_journalled: "em_journalled s (fl_put i r s)"
  by (auto simp: journalled_def em_writes em_restore_def em_set_undo_def intro!: exI)

lemma em_count_journalled: "em_journalled s (em_count d s)"
  by (auto simp: journalled_def em_writes em_restore_def em_set_undo_def intro!: exI)

lemma fl_count_journalled: "em_journalled s (fl_count d s)"
  by (auto simp: journalled_def em_writes em_restore_def em_set_undo_def intro!: exI)

section \<open>Growth\<close>

definition em_zero_entry :: EMEntry where
  "em_zero_entry = \<lparr>em_range = \<lparr>il_start = 0, il_size = 0\<rparr>, em_fileID = 0, em_blockOffset = 0,
     em_dbRoots = dbr_zero, em_HWM = 0, em_partitionNum = 0, em_segmentNum = 0, em_colWid = 0, em_status = 0,
     em_cprange = \<lparr>hi_val = 0, lo_val = 0, sequenceNum = 0, isValid = CP_INVALID\<rparr>\<rparr>"

definition fl_zero_entry :: InlineLBIDRange where
  "fl_zero_entry = \<lparr>il_start = 0, il_size = 0\<rparr>"

definition em_growEMShmseg :: "nat \<Rightarrow> ExtentMap \<Rightarrow> ExtentMap option" where
  "em_growEMShmseg nrows s = do {
     let n0 = (if em_entries s = [] then EM_INITIAL_ROWS else length (em_entries s) + EM_INCREMENT_ROWS);
     let newshmkey = chooseShmkey KEYRANGE_EXTENTMAP_BASE (em_tableShmkey s);
     let n = max n0 nrows;
     es \<leftarrow> (if em_attached s then shm_grow (em_tableShmkey s) newshmkey n em_zero_entry (em_entries s)
            else if n0 = EM_INITIAL_ROWS then Some (replicate n em_zero_entry) else None);
     Some (s\<lparr>em_entries := es, em_tableShmkey := newshmkey, em_attached := True, em_mapping := em_mapping s + 1\<rparr>)
   }"

definition em_growFLShmseg :: "ExtentMap \<Rightarrow> ExtentMap option" where
  "em_growFLShmseg s = do {
     let n = (if fl_entries s = [] then EM_FREELIST_INITIAL_ROWS
              else length (fl_entries s) + EM_FREELIST_INCREMENT_ROWS);
     let newshmkey = chooseShmkey KEYRANGE_EMFREELIST_BASE (fl_tableShmkey s);
     rs \<leftarrow> (if fl_attached s then shm_grow (fl_tableShmkey s) newshmkey n fl_zero_entry (fl_entries s)
            else if n = EM_FREELIST_INITIAL_ROWS then Some (replicate n fl_zero_entry) else None);
     Some (s\<lparr>fl_entries := (if fl_entries s = [] then rs[0 := (rs ! 0)\<lparr>il_size := MAX_LBID_SIZE\<rparr>] else rs),
             fl_currentSize := (if fl_entries s = [] then sizeof_InlineLBIDRange else fl_currentSize s),
             fl_tableShmkey := newshmkey, fl_attached := True, fl_mapping := fl_mapping s + 1\<rparr>)
   }"

text \<open>\<^verbatim>\<open>currentSize == allocdSize\<close>.\<close>

definition em_full :: "ExtentMap \<Rightarrow> bool" where
  "em_full s \<longleftrightarrow> em_currentSize s = sizeof_EMEntry * int (length (em_entries s))"

definition fl_full :: "ExtentMap \<Rightarrow> bool" where
  "fl_full s \<longleftrightarrow> fl_currentSize s = sizeof_InlineLBIDRange * int (length (fl_entries s))"

end
