(* ===== verification/Extent_Space.thy ===== *)
theory Extent_Space
  imports Extent_Map
begin

text \<open>
  The block space of the extent map: \<^verbatim>\<open>getLBIDsFromFreeList\<close> takes a range from the free
  list, \<^verbatim>\<open>deleteExtent\<close> gives the range of an extent back and merges it with its
  neighbours, and \<^verbatim>\<open>reserveLBIDRange\<close> cuts a given range out of the free list while an image
  is loaded. The invariant \<open>em_inv\<close> says that the extents and the free ranges together hold
  every block exactly once, as an equation of multisets, and that the descriptors count the entries
  in use.
\<close>

section \<open>Operations\<close>

definition fl_log :: "nat \<Rightarrow> ExtentMap \<Rightarrow> ExtentMap" where
  "fl_log i s = em_record (FlEntryImage i (fl_entries s ! i)) s"

definition fl_assign :: "nat \<Rightarrow> InlineLBIDRange \<Rightarrow> ExtentMap \<Rightarrow> ExtentMap" where
  "fl_assign i r s = s\<lparr>fl_entries := (fl_entries s)[i := r]\<rparr>"

definition em_getLBIDsFromFreeList :: "int \<Rightarrow> ExtentMap \<Rightarrow> LBID_t res \<times> ExtentMap" where
  "em_getLBIDsFromFreeList sz s =
    (case index_of (\<lambda>r. sz \<le> il_size r) (fl_entries s) of
       None \<Rightarrow> (Inl (Runtime_error ''ExtentMap::getLBIDsFromFreeList(): out of LBID space''), s)
     | Some i \<Rightarrow>
         let r = fl_entries s ! i;
             r' = \<lparr>il_start = il_start r + u32 (sz * 1024), il_size = u32 (il_size r - sz)\<rparr>;
             s1 = fl_put i r' s
         in (Inr (il_start r), if il_size r' = 0 then fl_count (- sizeof_InlineLBIDRange) s1 else s1))"

text \<open>The free ranges that touch the range \<open>x\<close>, and a free slot: the last index of each kind.\<close>

definition fl_neighbour_step ::
  "InlineLBIDRange \<Rightarrow> InlineLBIDRange list \<Rightarrow> nat \<Rightarrow> nat option \<times> nat option \<times> nat option
    \<Rightarrow> nat option \<times> nat option \<times> nat option" where
  "fl_neighbour_step x rs i pqf =
    (let (p, q, f) = pqf; r = rs ! i
     in if il_size r = 0 then (p, q, Some i)
        else if il_start x + il_size x * 1024 = il_start r then (p, Some i, f)
        else if il_start r + il_size r * 1024 = il_start x then (Some i, q, f)
        else (p, q, f))"

definition fl_neighbours ::
  "InlineLBIDRange \<Rightarrow> InlineLBIDRange list \<Rightarrow> nat option \<times> nat option \<times> nat option" where
  "fl_neighbours x rs = fold (fl_neighbour_step x rs) [0 ..< length rs] (None, None, None)"

text \<open>Migrate the entry upward if there is a space; the entry itself has been recorded.\<close>

definition fl_migrate :: "nat \<Rightarrow> nat option \<Rightarrow> ExtentMap \<Rightarrow> nat \<times> ExtentMap" where
  "fl_migrate p f s =
    (case f of
       Some j \<Rightarrow>
         if j < p then
           let r = fl_entries s ! p
           in (j, fl_assign p (r\<lparr>il_size := 0\<rparr>) (fl_assign j r (fl_log j s)))
         else (p, s)
     | None \<Rightarrow> (p, s))"

text \<open>\<^verbatim>\<open>deleteExtent\<close> up to the comment "invalidate the entry": the range goes back to the
  free list.\<close>

definition fl_give_back :: "InlineLBIDRange \<Rightarrow> ExtentMap \<Rightarrow> ExtentMap option" where
  "fl_give_back x s =
    (let (prec, succ, f) = fl_neighbours x (fl_entries s)
     in case prec of
          Some p \<Rightarrow>
            (case succ of
               Some q \<Rightarrow>
                 let (p', s2) = fl_migrate p f (fl_log p s);
                     r = fl_entries s2 ! p'; r' = fl_entries s2 ! q;
                     s3 = fl_assign p' (r\<lparr>il_size := u32 (il_size r + (il_size r' + il_size x))\<rparr>) s2;
                     s4 = fl_put q ((fl_entries s3 ! q)\<lparr>il_size := 0\<rparr>) s3
                 in Some (fl_count (- sizeof_InlineLBIDRange) s4)
             | None \<Rightarrow>
                 let (p', s2) = fl_migrate p f (fl_log p s); r = fl_entries s2 ! p'
                 in Some (fl_assign p' (r\<lparr>il_size := u32 (il_size r + il_size x)\<rparr>) s2))
        | None \<Rightarrow>
            (case succ of
               Some q \<Rightarrow>
                 let (q', s2) = fl_migrate q f (fl_log q s); r = fl_entries s2 ! q'
                 in Some (fl_assign q' \<lparr>il_start = il_start x, il_size = u32 (il_size r + il_size x)\<rparr> s2)
             | None \<Rightarrow> do {
                 (j, s1) \<leftarrow> (if fl_full s then map_option (Pair (length (fl_entries s))) (em_growFLShmseg s)
                            else map_option (\<lambda>j. (j, s)) f);
                 Some (fl_count_unlogged sizeof_InlineLBIDRange (fl_put j x s1))
               }))"

definition em_deleteExtent :: "nat \<Rightarrow> ExtentMap \<Rightarrow> ExtentMap option" where
  "em_deleteExtent i s = do {
     let e = em_entries s ! i;
     s1 \<leftarrow> fl_give_back (em_range e) s;
     Some (em_count_unlogged (- sizeof_EMEntry)
       (em_put i (e\<lparr>em_range := (em_range e)\<lparr>il_size := 0\<rparr>\<rparr>) s1))
   }"

text \<open>\<^verbatim>\<open>reserveLBIDRange\<close>: its parameter \<^verbatim>\<open>size\<close> is an 8-bit number.\<close>

definition fl_hit :: "LBID_t \<Rightarrow> int \<Rightarrow> InlineLBIDRange \<Rightarrow> bool" where
  "fl_hit start sz r \<longleftrightarrow>
    (let lastLBID = start + sz * 1024 - 1; eLastLBID = il_start r + il_size r * 1024 - 1
     in il_size r \<noteq> 0 \<and>
        (start = il_start r \<or> eLastLBID = lastLBID \<or> il_start r < start \<and> eLastLBID > lastLBID))"

definition em_reserveLBIDRange :: "LBID_t \<Rightarrow> int \<Rightarrow> ExtentMap \<Rightarrow> ExtentMap option" where
  "em_reserveLBIDRange start size0 s =
    (let sz = take_bit 8 size0; lastLBID = start + sz * 1024 - 1
     in case index_of (fl_hit start sz) (fl_entries s) of
          None \<Rightarrow> Some s
        | Some i \<Rightarrow>
            let r = fl_entries s ! i; eLastLBID = il_start r + il_size r * 1024 - 1
            in if start = il_start r then
                 let r' = \<lparr>il_start = il_start r + sz * 1024, il_size = u32 (il_size r - sz)\<rparr>; s1 = fl_put i r' s
                 in Some (if il_size r' = 0 then fl_count (- sizeof_InlineLBIDRange) s1 else s1)
               else if eLastLBID = lastLBID then
                 let r' = r\<lparr>il_size := u32 (il_size r - sz)\<rparr>; s1 = fl_put i r' s
                 in Some (if il_size r' = 0 then fl_count (- sizeof_InlineLBIDRange) s1 else s1)
               else do {
                 (j, s1) \<leftarrow>
                   (case index_of (\<lambda>r. \<not> fl_used r) (take i (fl_entries s)) of
                      Some j \<Rightarrow> Some (j, s)
                    | None \<Rightarrow>
                        if fl_full s then map_option (Pair (length (fl_entries s))) (em_growFLShmseg s)
                        else map_option (\<lambda>j. (j, s)) (free_from fl_used (fl_entries s) (Suc i)));
                 let s2 = fl_put i (r\<lparr>il_size := u32 ((start - il_start r) div 1024)\<rparr>) s1;
                 let s3 = fl_put j \<lparr>il_start = start + sz * 1024,
                                    il_size = u32 ((eLastLBID - lastLBID) div 1024)\<rparr> s2;
                 Some (fl_count sizeof_InlineLBIDRange s3)
               })"

section \<open>The invariant\<close>

definition range_ok :: "InlineLBIDRange \<Rightarrow> bool" where
  "range_ok r \<longleftrightarrow> 0 \<le> il_start r \<and> il_start r mod 1024 = 0 \<and> 0 \<le> il_size r"

text \<open>The units of 1024 blocks of a range.\<close>

definition units :: "InlineLBIDRange \<Rightarrow> int set" where
  "units r = {il_start r div 1024 ..< il_start r div 1024 + il_size r}"

definition blk :: "InlineLBIDRange \<Rightarrow> int multiset" where
  "blk r = mset_set (units r)"

definition em_space :: "ExtentMap \<Rightarrow> int multiset" where
  "em_space s = sum_list (map (\<lambda>e. blk (em_range e)) (em_entries s)) + sum_list (map blk (fl_entries s))"

definition em_counted :: "ExtentMap \<Rightarrow> bool" where
  "em_counted s \<longleftrightarrow> em_currentSize s = sizeof_EMEntry * int (length (filter em_used (em_entries s))) \<and>
    fl_currentSize s = sizeof_InlineLBIDRange * int (length (filter fl_used (fl_entries s)))"

definition em_wf :: "ExtentMap \<Rightarrow> bool" where
  "em_wf s \<longleftrightarrow> em_attached s \<and> fl_attached s \<and> em_entries s \<noteq> [] \<and> fl_entries s \<noteq> [] \<and>
    (\<forall>e \<in> set (em_entries s). range_ok (em_range e)) \<and> (\<forall>r \<in> set (fl_entries s). range_ok r)"

definition em_inv :: "ExtentMap \<Rightarrow> bool" where
  "em_inv s \<longleftrightarrow> em_wf s \<and> em_counted s \<and> em_space s = mset_set {0 ..< MAX_LBID_SIZE}"

lemma units_empty [simp]: "il_size r = 0 \<Longrightarrow> units r = {}"
  by (simp add: units_def)

lemma blk_empty [simp]: "il_size r = 0 \<Longrightarrow> blk r = {#}"
  by (simp add: blk_def)

lemma finite_units [simp]: "finite (units r)"
  by (simp add: units_def)

lemma set_blk [simp]: "set_mset (blk r) = units r"
  by (simp add: blk_def)

lemma blk_split:
  assumes "0 \<le> m" "m \<le> n"
  shows "blk \<lparr>il_start = a, il_size = n\<rparr> =
    blk \<lparr>il_start = a, il_size = m\<rparr> + blk \<lparr>il_start = a + m * 1024, il_size = n - m\<rparr>"
proof -
  have d: "(a + m * 1024) div 1024 = a div 1024 + m" by simp
  have "{a div 1024 ..< a div 1024 + n} = {a div 1024 ..< a div 1024 + m} \<union> {a div 1024 + m ..< a div 1024 + n}"
    using assms by auto
  then show ?thesis by (simp add: blk_def units_def d mset_set_Union)
qed

lemma blk_join:
  assumes "il_start r' = il_start r + il_size r * 1024" "0 \<le> il_size r" "0 \<le> il_size r'"
  shows "blk r + blk r' = blk (r\<lparr>il_size := il_size r + il_size r'\<rparr>)"
  using blk_split [of "il_size r" "il_size r + il_size r'" "il_start r"] assms by (cases r; cases r') simp

lemma sum_list_map_update:
  fixes f :: "'a \<Rightarrow> 'b multiset"
  assumes "i < length xs"
  shows "sum_list (map f (xs[i := x])) + f (xs ! i) = sum_list (map f xs) + f x"
  using assms
proof (induction xs arbitrary: i)
  case (Cons y ys)
  then show ?case by (cases i) (simp_all add: ac_simps)
qed simp

lemma sum_list_map_part: "i < length xs \<Longrightarrow> f (xs ! i) \<subseteq># sum_list (map f xs)"
proof (induction xs arbitrary: i)
  case (Cons y ys)
  show ?case
  proof (cases i)
    case (Suc j)
    with Cons have "f (ys ! j) \<subseteq># sum_list (map f ys)" by simp
    with Suc show ?thesis by (simp add: subset_mset.add_increasing)
  qed simp
qed simp

lemma sum_list_map_two:
  fixes f :: "'a \<Rightarrow> 'b multiset"
  assumes "i < length xs" "j < length xs" "i \<noteq> j"
  shows "f (xs ! i) + f (xs ! j) \<subseteq># sum_list (map f xs)"
  using assms
proof (induction xs arbitrary: i j)
  case (Cons x xs)
  show ?case
  proof (cases i)
    case 0
    with Cons.prems obtain j' where "j = Suc j'" "j' < length xs" by (cases j) auto
    with 0 sum_list_map_part [of j' xs f] show ?thesis by simp
  next
    case (Suc i')
    show ?thesis
    proof (cases j)
      case 0
      with Suc Cons.prems sum_list_map_part [of i' xs f] show ?thesis by (simp add: add.commute)
    next
      case (Suc j')
      with \<open>i = Suc i'\<close> Cons have "f (xs ! i') + f (xs ! j') \<subseteq># sum_list (map f xs)" by simp
      with Suc \<open>i = Suc i'\<close> show ?thesis by (simp add: subset_mset.add_increasing)
    qed
  qed
qed simp

lemma em_inv_total: "em_inv s \<Longrightarrow> em_space s = mset_set {0 ..< MAX_LBID_SIZE}"
  by (simp add: em_inv_def)

lemma units_bound:
  assumes "blk r \<subseteq># mset_set {0 ..< MAX_LBID_SIZE}" "range_ok r"
  shows "il_size r = 0 \<or> il_start r div 1024 + il_size r \<le> MAX_LBID_SIZE"
proof (rule disjCI)
  assume le: "\<not> il_start r div 1024 + il_size r \<le> MAX_LBID_SIZE"
  have "units r \<subseteq> {0 ..< MAX_LBID_SIZE}"
    using set_mset_mono [OF assms(1)] by simp
  show "il_size r = 0"
  proof (rule ccontr)
    assume "il_size r \<noteq> 0"
    then have "il_start r div 1024 + il_size r - 1 \<in> units r"
      using assms(2) by (simp add: units_def range_ok_def)
    with \<open>units r \<subseteq> {0 ..< MAX_LBID_SIZE}\<close> le show False by auto
  qed
qed

lemma em_part_of_space:
  assumes "em_inv s"
  shows "i < length (em_entries s) \<Longrightarrow> blk (em_range (em_entries s ! i)) \<subseteq># mset_set {0 ..< MAX_LBID_SIZE}"
    and "j < length (fl_entries s) \<Longrightarrow> blk (fl_entries s ! j) \<subseteq># mset_set {0 ..< MAX_LBID_SIZE}"
  using sum_list_map_part [of i "em_entries s" "\<lambda>e. blk (em_range e)"]
    sum_list_map_part [of j "fl_entries s" blk] em_inv_total [OF assms]
  by (metis em_space_def mset_subset_eq_add_left mset_subset_eq_add_right subset_mset.trans)+

lemma em_inv_range_ok:
  assumes "em_inv s"
  shows "i < length (em_entries s) \<Longrightarrow> range_ok (em_range (em_entries s ! i))"
    and "j < length (fl_entries s) \<Longrightarrow> range_ok (fl_entries s ! j)"
  using assms by (simp_all add: em_inv_def em_wf_def)

text \<open>What a range taken from the free list, or given back to it, leaves to be shown: the rest of the
  space.\<close>

definition em_lacks :: "InlineLBIDRange \<Rightarrow> ExtentMap \<Rightarrow> bool" where
  "em_lacks x s \<longleftrightarrow> em_wf s \<and> em_counted s \<and> range_ok x \<and> em_space s + blk x = mset_set {0 ..< MAX_LBID_SIZE}"

lemma fl_update_space:
  assumes "i < length (fl_entries s)"
  shows "em_space (s\<lparr>fl_entries := (fl_entries s)[i := r]\<rparr>) + blk (fl_entries s ! i) = em_space s + blk r"
  using sum_list_map_update [OF assms, of blk r] by (simp add: em_space_def ac_simps)

lemma em_update_space:
  assumes "i < length (em_entries s)"
  shows "em_space (s\<lparr>em_entries := (em_entries s)[i := e]\<rparr>) + blk (em_range (em_entries s ! i)) =
    em_space s + blk (em_range e)"
  using sum_list_map_update [OF assms, of "\<lambda>e. blk (em_range e)" e] by (simp add: em_space_def ac_simps)

lemma em_wf_put:
  assumes "em_wf s" "i < length (em_entries s)" "range_ok (em_range e)"
  shows "em_wf (s\<lparr>em_entries := (em_entries s)[i := e]\<rparr>)"
  using assms set_update_subset_insert [of "em_entries s" i e] by (auto simp: em_wf_def)

lemma fl_wf_put:
  assumes "em_wf s" "i < length (fl_entries s)" "range_ok r"
  shows "em_wf (s\<lparr>fl_entries := (fl_entries s)[i := r]\<rparr>)"
  using assms set_update_subset_insert [of "fl_entries s" i r] by (auto simp: em_wf_def)

section \<open>Taking a range\<close>

lemma em_getLBIDs_ok:
  assumes inv: "em_inv s" and sz: "0 < sz" "sz < 2 ^ 22" and r: "em_getLBIDsFromFreeList sz s = (Inr lbid, s')"
  shows "em_lacks \<lparr>il_start = lbid, il_size = sz\<rparr> s'" "em_entries s' = em_entries s"
    "em_mapping s' = em_mapping s" "fl_mapping s' = fl_mapping s"
proof -
  obtain i where i: "i < length (fl_entries s)" "sz \<le> il_size (fl_entries s ! i)"
    and idx: "index_of (\<lambda>r. sz \<le> il_size r) (fl_entries s) = Some i"
    using r index_of_SomeD [of "\<lambda>r. sz \<le> il_size r" "fl_entries s"]
    by (auto simp: em_getLBIDsFromFreeList_def split: option.splits)
  define old where "old = fl_entries s ! i"
  define new where "new = \<lparr>il_start = il_start old + sz * 1024, il_size = il_size old - sz\<rparr>"
  have ok: "range_ok old" using em_inv_range_ok(2) [OF inv i(1)] by (simp add: old_def)
  have sizes: "il_size old = 0 \<or> il_start old div 1024 + il_size old \<le> MAX_LBID_SIZE"
    using units_bound [OF em_part_of_space(2) [OF inv i(1)]] ok by (simp add: old_def)
  have u: "u32 (sz * 1024) = sz * 1024" "u32 (il_size old - sz) = il_size old - sz"
    using sz i(2) sizes ok by (auto simp: old_def MAX_LBID_SIZE_def range_ok_def intro!: u32_id)
  have blk: "blk old = blk \<lparr>il_start = il_start old, il_size = sz\<rparr> + blk new"
    using blk_split [of sz "il_size old" "il_start old"] sz i(2) by (cases old) (simp add: old_def [symmetric] new_def)
  let ?s1 = "s\<lparr>fl_entries := (fl_entries s)[i := new]\<rparr>"
  have s': "lbid = il_start old" "em_entries s' = em_entries s" "fl_entries s' = (fl_entries s)[i := new]"
      "em_currentSize s' = em_currentSize s" "em_attached s' = em_attached s" "fl_attached s' = fl_attached s"
      "fl_currentSize s' = fl_currentSize s - (if il_size new = 0 then sizeof_InlineLBIDRange else 0)"
      "em_mapping s' = em_mapping s" "fl_mapping s' = fl_mapping s"
    using r u by (auto simp: em_getLBIDsFromFreeList_def idx Let_def em_writes old_def [symmetric] new_def split: if_splits)
  have "em_wf ?s1"
    using inv i ok sz by (intro fl_wf_put) (simp_all add: em_inv_def range_ok_def new_def old_def)
  then have wf: "em_wf s'" using s' by (simp add: em_wf_def)
  have "em_space ?s1 + blk \<lparr>il_start = il_start old, il_size = sz\<rparr> = em_space s"
    using fl_update_space [OF i(1), of new] blk by (simp add: old_def [symmetric])
  moreover have "em_space s' = em_space ?s1" using s'(2,3) by (simp add: em_space_def)
  ultimately have space: "em_space s' + blk \<lparr>il_start = lbid, il_size = sz\<rparr> = mset_set {0 ..< MAX_LBID_SIZE}"
    using s'(1) em_inv_total [OF inv] by simp
  have "em_counted s'"
    using s' inv length_filter_update [OF i(1), of fl_used new] sz i(2)
    by (auto simp: em_inv_def em_counted_def fl_used_def old_def new_def sizeof_InlineLBIDRange_def)
  with wf space ok s'(1) sz show "em_lacks \<lparr>il_start = lbid, il_size = sz\<rparr> s'"
    by (simp add: em_lacks_def range_ok_def)
  show "em_entries s' = em_entries s" "em_mapping s' = em_mapping s" "fl_mapping s' = fl_mapping s"
    by (rule s')+
qed

section \<open>Giving a range back\<close>

lemma fl_neighbours_spec:
  assumes "fl_neighbours x rs = (prec, succ, f)"
  shows "prec = Some p \<Longrightarrow> p < length rs \<and> il_size (rs ! p) \<noteq> 0 \<and>
      il_start x + il_size x * 1024 \<noteq> il_start (rs ! p) \<and> il_start (rs ! p) + il_size (rs ! p) * 1024 = il_start x"
    and "succ = Some q \<Longrightarrow> q < length rs \<and> il_size (rs ! q) \<noteq> 0 \<and> il_start x + il_size x * 1024 = il_start (rs ! q)"
    and "f = Some j \<Longrightarrow> j < length rs \<and> il_size (rs ! j) = 0"
    and "f = None \<Longrightarrow> r \<in> set rs \<Longrightarrow> il_size r \<noteq> 0"
proof -
  define P where "P = (\<lambda>p. p < length rs \<and> il_size (rs ! p) \<noteq> 0 \<and>
      il_start x + il_size x * 1024 \<noteq> il_start (rs ! p) \<and> il_start (rs ! p) + il_size (rs ! p) * 1024 = il_start x)"
  define Q where "Q = (\<lambda>q. q < length rs \<and> il_size (rs ! q) \<noteq> 0 \<and> il_start x + il_size x * 1024 = il_start (rs ! q))"
  define F where "F = (\<lambda>j. j < length rs \<and> il_size (rs ! j) = 0)"
  define I where "I = (\<lambda>n t. pred_option P (fst t) \<and> pred_option Q (fst (snd t)) \<and> pred_option F (snd (snd t)) \<and>
      (snd (snd t) = None \<longrightarrow> (\<forall>k < n. \<not> F k)))"
  have step: "I (Suc n) (fl_neighbour_step x rs n t)" if "I n t" "n < length rs" for n t
  proof -
    obtain a b c where t: "t = (a, b, c)" by (cases t)
    consider "F n" | "Q n" "\<not> F n" | "P n" "\<not> F n" "\<not> Q n" | "\<not> P n" "\<not> Q n" "\<not> F n" by blast
    then have "fl_neighbour_step x rs n t = (if F n then (a, b, Some n) else if Q n then (a, Some n, c)
        else if P n then (Some n, b, c) else (a, b, c))"
      using that(2) by cases (simp_all add: fl_neighbour_step_def t P_def Q_def F_def)
    with that show ?thesis by (simp add: I_def t less_Suc_eq)
  qed
  have "I n (fold (fl_neighbour_step x rs) [0 ..< n] (None, None, None))" if "n \<le> length rs" for n
    using that by (induction n) (simp_all add: step, simp add: I_def)
  from this [of "length rs"] assms have I: "I (length rs) (prec, succ, f)" by (simp add: fl_neighbours_def)
  show "prec = Some p \<Longrightarrow> p < length rs \<and> il_size (rs ! p) \<noteq> 0 \<and>
      il_start x + il_size x * 1024 \<noteq> il_start (rs ! p) \<and> il_start (rs ! p) + il_size (rs ! p) * 1024 = il_start x"
    using I by (simp add: I_def P_def)
  show "succ = Some q \<Longrightarrow> q < length rs \<and> il_size (rs ! q) \<noteq> 0 \<and> il_start x + il_size x * 1024 = il_start (rs ! q)"
    using I by (simp add: I_def Q_def)
  show "f = Some j \<Longrightarrow> j < length rs \<and> il_size (rs ! j) = 0"
    using I by (simp add: I_def F_def)
  show "f = None \<Longrightarrow> r \<in> set rs \<Longrightarrow> il_size r \<noteq> 0"
    using I by (auto simp: I_def F_def in_set_conv_nth)
qed

text \<open>What the free-list part of a state contributes: its blocks and its entries in use.\<close>

definition fl_sum :: "InlineLBIDRange list \<Rightarrow> int multiset" where
  "fl_sum rs = sum_list (map blk rs)"

definition fl_uses :: "InlineLBIDRange list \<Rightarrow> int" where
  "fl_uses rs = int (length (filter fl_used rs))"

lemma fl_sum_update: "i < length rs \<Longrightarrow> fl_sum (rs[i := r]) + blk (rs ! i) = fl_sum rs + blk r"
  by (simp add: fl_sum_def sum_list_map_update)

lemma fl_uses_update: "i < length rs \<Longrightarrow> fl_uses (rs[i := r]) = fl_uses rs + of_bool (fl_used r) - of_bool (fl_used (rs ! i))"
  by (simp add: fl_uses_def length_filter_update)

text \<open>Everything but the free list and the log is the same.\<close>

definition fl_only :: "ExtentMap \<Rightarrow> ExtentMap \<Rightarrow> bool" where
  "fl_only s s' \<longleftrightarrow> em_entries s' = em_entries s \<and> em_currentSize s' = em_currentSize s \<and>
    em_attached s' = em_attached s \<and> em_mapping s' = em_mapping s \<and> fl_attached s' = fl_attached s \<and>
    fl_mapping s' = fl_mapping s"

lemma range_ok_update:
  "\<forall>r \<in> set rs. range_ok r \<Longrightarrow> range_ok v \<Longrightarrow> \<forall>r \<in> set (rs[i := v]). range_ok r"
  using set_update_subset_insert [of rs i v] by blast

text \<open>Migration moves an entry and changes neither the blocks nor the number in use.\<close>

lemma fl_migrate_spec:
  assumes m: "fl_migrate p f s = (p', s')" and p: "p < length (fl_entries s)"
    and f: "\<And>j. f = Some j \<Longrightarrow> j < length (fl_entries s) \<and> il_size (fl_entries s ! j) = 0"
    and ok: "\<forall>r \<in> set (fl_entries s). range_ok r"
  shows "fl_only s s' \<and> fl_currentSize s' = fl_currentSize s \<and> p' < length (fl_entries s') \<and>
    length (fl_entries s') = length (fl_entries s) \<and> fl_entries s' ! p' = fl_entries s ! p \<and>
    fl_sum (fl_entries s') = fl_sum (fl_entries s) \<and> fl_uses (fl_entries s') = fl_uses (fl_entries s) \<and>
    (\<forall>r \<in> set (fl_entries s'). range_ok r) \<and>
    (\<forall>k < length (fl_entries s). k \<noteq> p \<longrightarrow> il_size (fl_entries s ! k) \<noteq> 0 \<longrightarrow>
      k \<noteq> p' \<and> fl_entries s' ! k = fl_entries s ! k)"
proof (cases "\<exists>j. f = Some j \<and> j < p")
  case True
  then obtain j where j: "f = Some j" "j < p" by blast
  let ?rs = "fl_entries s" and ?r = "fl_entries s ! p"
  let ?new = "?rs[j := ?r, p := ?r\<lparr>il_size := 0\<rparr>]"
  have j': "j < length ?rs" "il_size (?rs ! j) = 0" "j \<noteq> p" using f [OF j(1)] j(2) by auto
  have s': "p' = j" "fl_entries s' = ?new" "fl_only s s'" "fl_currentSize s' = fl_currentSize s"
    using m j by (auto simp: fl_migrate_def Let_def fl_assign_def fl_log_def em_record_def fl_only_def)
  have sum: "fl_sum ?new = fl_sum ?rs"
    using fl_sum_update [of p "?rs[j := ?r]" "?r\<lparr>il_size := 0\<rparr>"] fl_sum_update [of j ?rs ?r] j' p
    by (simp add: nth_update_if)
  have uses: "fl_uses ?new = fl_uses ?rs"
    using fl_uses_update [of p "?rs[j := ?r]" "?r\<lparr>il_size := 0\<rparr>"] fl_uses_update [of j ?rs ?r] j' p
    by (simp add: nth_update_if fl_used_def)
  have r: "range_ok ?r" using ok p by simp
  then have "\<forall>r \<in> set ?new. range_ok r" using ok by (intro range_ok_update) (simp_all add: range_ok_def)
  with s' j' j(2) p sum uses show ?thesis
    by (auto simp: nth_update_if)
next
  case False
  with m have "p' = p" "s' = s" by (auto simp: fl_migrate_def split: option.splits if_splits)
  with p ok show ?thesis
    by (simp add: fl_only_def)
qed

text \<open>A free list that can take back the range \<open>x\<close>, and one that has.\<close>

definition fl_ready :: "InlineLBIDRange \<Rightarrow> ExtentMap \<Rightarrow> bool" where
  "fl_ready x s \<longleftrightarrow> fl_attached s \<and> fl_entries s \<noteq> [] \<and> (\<forall>r \<in> set (fl_entries s). range_ok r) \<and>
    fl_currentSize s = sizeof_InlineLBIDRange * fl_uses (fl_entries s) \<and>
    (\<forall>r \<in> set (fl_entries s). il_size r = 0 \<or> il_start r div 1024 + il_size r \<le> MAX_LBID_SIZE) \<and>
    range_ok x \<and> 0 < il_size x \<and> il_start x div 1024 + il_size x \<le> MAX_LBID_SIZE"

definition fl_gave :: "InlineLBIDRange \<Rightarrow> ExtentMap \<Rightarrow> ExtentMap \<Rightarrow> bool" where
  "fl_gave x s s' \<longleftrightarrow> em_entries s' = em_entries s \<and> em_currentSize s' = em_currentSize s \<and>
    em_attached s' = em_attached s \<and> em_mapping s' = em_mapping s \<and> fl_attached s' = fl_attached s \<and>
    fl_entries s' \<noteq> [] \<and> (\<forall>r \<in> set (fl_entries s'). range_ok r) \<and>
    fl_sum (fl_entries s') = fl_sum (fl_entries s) + blk x \<and>
    fl_currentSize s' = sizeof_InlineLBIDRange * fl_uses (fl_entries s')"

lemma fl_gaveI:
  assumes "fl_only s s'" "fl_entries s' \<noteq> []" "\<forall>r \<in> set (fl_entries s'). range_ok r"
    "fl_sum (fl_entries s') = fl_sum (fl_entries s) + blk x"
    "fl_currentSize s' = sizeof_InlineLBIDRange * fl_uses (fl_entries s')"
  shows "fl_gave x s s'"
  using assms unfolding fl_gave_def fl_only_def by blast

lemma u32_size: "0 \<le> a \<Longrightarrow> a \<le> MAX_LBID_SIZE \<Longrightarrow> u32 a = a"
  by (rule u32_id) (simp_all add: MAX_LBID_SIZE_def)

lemma range_okD: "range_ok r \<Longrightarrow> 0 \<le> il_start r div 1024 \<and> 0 \<le> il_size r \<and> il_start r mod 1024 = 0"
  by (simp add: range_ok_def pos_imp_zdiv_nonneg_iff)

lemma fl_log_spec:
  "fl_entries (fl_log p s) = fl_entries s" "fl_only s (fl_log p s)" "fl_currentSize (fl_log p s) = fl_currentSize s"
  by (simp_all add: fl_log_def em_record_def fl_only_def)

lemma fl_gave_assign:
  assumes "fl_only s s2" "fl_currentSize s2 = fl_currentSize s" "i < length (fl_entries s2)"
    and "fl_sum (fl_entries s2) = fl_sum (fl_entries s)" "fl_uses (fl_entries s2) = fl_uses (fl_entries s)"
    and "\<forall>r \<in> set (fl_entries s2). range_ok r" "fl_ready x s"
    and "range_ok v" "blk v = blk (fl_entries s2 ! i) + blk x" "fl_used (fl_entries s2 ! i)" "fl_used v"
  shows "fl_gave x s (fl_assign i v s2)"
proof -
  have "fl_sum ((fl_entries s2)[i := v]) = fl_sum (fl_entries s) + blk x"
    using fl_sum_update [OF assms(3), of v] assms(4,9) by simp
  moreover have "fl_uses ((fl_entries s2)[i := v]) = fl_uses (fl_entries s)"
    using fl_uses_update [OF assms(3), of v] assms(5,10,11) by simp
  moreover have "\<forall>r \<in> set ((fl_entries s2)[i := v]). range_ok r"
    by (rule range_ok_update [OF assms(6,8)])
  ultimately show ?thesis
    using assms(1,2,3,7) by (auto simp: fl_gave_def fl_assign_def fl_only_def fl_ready_def)
qed

lemma fl_ready_nth:
  assumes "fl_ready x s" "i < length (fl_entries s)" "il_size (fl_entries s ! i) \<noteq> 0"
  shows "range_ok (fl_entries s ! i)" "0 < il_size (fl_entries s ! i)" "0 \<le> il_start (fl_entries s ! i) div 1024"
    "il_start (fl_entries s ! i) div 1024 + il_size (fl_entries s ! i) \<le> MAX_LBID_SIZE"
proof -
  have "fl_entries s ! i \<in> set (fl_entries s)" using assms(2) by simp
  with assms show "range_ok (fl_entries s ! i)" "il_start (fl_entries s ! i) div 1024 + il_size (fl_entries s ! i) \<le> MAX_LBID_SIZE"
    unfolding fl_ready_def by blast+
  with range_okD [of "fl_entries s ! i"] assms(3)
  show "0 < il_size (fl_entries s ! i)" "0 \<le> il_start (fl_entries s ! i) div 1024" by auto
qed

lemma fl_ready_x:
  "fl_ready x s \<Longrightarrow> 0 \<le> il_start x div 1024 \<and> 0 < il_size x \<and> il_start x div 1024 + il_size x \<le> MAX_LBID_SIZE"
  using range_okD [of x] by (simp add: fl_ready_def)

lemma fl_merge_prec:
  assumes "fl_ready x s" "r = fl_entries s ! p" "p < length (fl_entries s)" "il_size r \<noteq> 0"
    and adj: "il_start r + il_size r * 1024 = il_start x"
  shows "u32 (il_size r + il_size x) = il_size r + il_size x" "range_ok (r\<lparr>il_size := il_size r + il_size x\<rparr>)"
    "blk (r\<lparr>il_size := il_size r + il_size x\<rparr>) = blk r + blk x"
proof -
  note r = fl_ready_nth [OF assms(1,3), folded assms(2), OF assms(4)] and x = fl_ready_x [OF assms(1)]
  have "il_start x div 1024 = il_start r div 1024 + il_size r" unfolding adj [symmetric] by simp
  with r x show "u32 (il_size r + il_size x) = il_size r + il_size x" by (intro u32_size) linarith+
  show "range_ok (r\<lparr>il_size := il_size r + il_size x\<rparr>)" using r x by (simp add: range_ok_def)
  show "blk (r\<lparr>il_size := il_size r + il_size x\<rparr>) = blk r + blk x"
    using blk_join [of x r] adj r x by simp
qed

lemma fl_merge_succ:
  assumes "fl_ready x s" "r = fl_entries s ! q" "q < length (fl_entries s)" "il_size r \<noteq> 0"
    and adj: "il_start x + il_size x * 1024 = il_start r"
  shows "u32 (il_size r + il_size x) = il_size r + il_size x"
    "range_ok \<lparr>il_start = il_start x, il_size = il_size r + il_size x\<rparr>"
    "blk \<lparr>il_start = il_start x, il_size = il_size r + il_size x\<rparr> = blk r + blk x"
proof -
  note r = fl_ready_nth [OF assms(1,3), folded assms(2), OF assms(4)] and x = fl_ready_x [OF assms(1)]
  have "il_start r div 1024 = il_start x div 1024 + il_size x" unfolding adj [symmetric] by simp
  with r x show "u32 (il_size r + il_size x) = il_size r + il_size x" by (intro u32_size) linarith+
  show "range_ok \<lparr>il_start = il_start x, il_size = il_size r + il_size x\<rparr>"
    using r x assms(1) by (simp add: range_ok_def fl_ready_def)
  show "blk \<lparr>il_start = il_start x, il_size = il_size r + il_size x\<rparr> = blk r + blk x"
    using blk_join [of r x] adj r x by (cases x) (simp add: add.commute)
qed

lemma fl_give_back_prec:
  assumes nb: "fl_neighbours x (fl_entries s) = (Some p, None, f)" and ready: "fl_ready x s"
  obtains s' where "fl_give_back x s = Some s'" "fl_gave x s s'" "fl_mapping s' = fl_mapping s"
proof -
  note p = fl_neighbours_spec(1) [OF nb refl] and f = fl_neighbours_spec(3) [OF nb]
  obtain p' s2 where m: "fl_migrate p f (fl_log p s) = (p', s2)" by fastforce
  have ok: "\<forall>r \<in> set (fl_entries (fl_log p s)). range_ok r" using ready by (simp add: fl_log_spec fl_ready_def)
  note sp = fl_migrate_spec [OF m, unfolded fl_log_spec, OF _ f ok [unfolded fl_log_spec]]
  have s2: "fl_only s s2" "fl_currentSize s2 = fl_currentSize s" "p' < length (fl_entries s2)"
      "fl_entries s2 ! p' = fl_entries s ! p" "fl_sum (fl_entries s2) = fl_sum (fl_entries s)"
      "fl_uses (fl_entries s2) = fl_uses (fl_entries s)" "\<forall>r \<in> set (fl_entries s2). range_ok r"
    using sp p fl_log_spec(2) [of s p] by (simp_all add: fl_only_def)
  let ?r = "fl_entries s ! p"
  have merge: "u32 (il_size ?r + il_size x) = il_size ?r + il_size x" "range_ok (?r\<lparr>il_size := il_size ?r + il_size x\<rparr>)"
      "blk (?r\<lparr>il_size := il_size ?r + il_size x\<rparr>) = blk ?r + blk x"
    using fl_merge_prec [OF ready refl] p by blast+
  let ?s' = "fl_assign p' (?r\<lparr>il_size := il_size ?r + il_size x\<rparr>) s2"
  have "fl_give_back x s = Some ?s'" by (simp add: fl_give_back_def nb m Let_def s2(4) merge(1))
  moreover have "fl_gave x s ?s'"
    using s2 merge p fl_ready_x [OF ready] fl_ready_nth(2) [OF ready, of p] ready
    by (intro fl_gave_assign) (simp_all add: fl_used_def)
  moreover have "fl_mapping ?s' = fl_mapping s" using s2(1) by (simp add: fl_assign_def fl_only_def)
  ultimately show thesis by (rule that)
qed

lemma fl_give_back_succ:
  assumes nb: "fl_neighbours x (fl_entries s) = (None, Some q, f)" and ready: "fl_ready x s"
  obtains s' where "fl_give_back x s = Some s'" "fl_gave x s s'" "fl_mapping s' = fl_mapping s"
proof -
  note q = fl_neighbours_spec(2) [OF nb refl] and f = fl_neighbours_spec(3) [OF nb]
  obtain q' s2 where m: "fl_migrate q f (fl_log q s) = (q', s2)" by fastforce
  have ok: "\<forall>r \<in> set (fl_entries (fl_log q s)). range_ok r" using ready by (simp add: fl_log_spec fl_ready_def)
  note sp = fl_migrate_spec [OF m, unfolded fl_log_spec, OF _ f ok [unfolded fl_log_spec]]
  have s2: "fl_only s s2" "fl_currentSize s2 = fl_currentSize s" "q' < length (fl_entries s2)"
      "fl_entries s2 ! q' = fl_entries s ! q" "fl_sum (fl_entries s2) = fl_sum (fl_entries s)"
      "fl_uses (fl_entries s2) = fl_uses (fl_entries s)" "\<forall>r \<in> set (fl_entries s2). range_ok r"
    using sp q fl_log_spec(2) [of s q] by (simp_all add: fl_only_def)
  let ?r = "fl_entries s ! q"
  let ?v = "\<lparr>il_start = il_start x, il_size = il_size ?r + il_size x\<rparr>"
  have merge: "u32 (il_size ?r + il_size x) = il_size ?r + il_size x" "range_ok ?v" "blk ?v = blk ?r + blk x"
    using fl_merge_succ [OF ready refl] q by blast+
  let ?s' = "fl_assign q' ?v s2"
  have "fl_give_back x s = Some ?s'" by (simp add: fl_give_back_def nb m Let_def s2(4) merge(1))
  moreover have "fl_gave x s ?s'"
    using s2 merge q fl_ready_x [OF ready] fl_ready_nth(2) [OF ready, of q] ready
    by (intro fl_gave_assign) (simp_all add: fl_used_def)
  moreover have "fl_mapping ?s' = fl_mapping s" using s2(1) by (simp add: fl_assign_def fl_only_def)
  ultimately show thesis by (rule that)
qed

lemma fl_merge_both:
  assumes ready: "fl_ready x s" and r: "r = fl_entries s ! p" "p < length (fl_entries s)" "il_size r \<noteq> 0"
      "il_start r + il_size r * 1024 = il_start x"
    and r': "r' = fl_entries s ! q" "q < length (fl_entries s)" "il_size r' \<noteq> 0" "il_start x + il_size x * 1024 = il_start r'"
  shows "u32 (il_size r + (il_size r' + il_size x)) = il_size r + (il_size r' + il_size x)"
    "range_ok (r\<lparr>il_size := il_size r + (il_size r' + il_size x)\<rparr>)"
    "blk (r\<lparr>il_size := il_size r + (il_size r' + il_size x)\<rparr>) = blk r + blk x + blk r'"
proof -
  note R = fl_ready_nth [OF ready r(2), folded r(1), OF r(3)] and R' = fl_ready_nth [OF ready r'(2), folded r'(1), OF r'(3)]
    and x = fl_ready_x [OF ready]
  have "il_start r' div 1024 = il_start r div 1024 + il_size r + il_size x"
    unfolding r'(4) [symmetric] r(4) [symmetric] by simp
  with R R' x show "u32 (il_size r + (il_size r' + il_size x)) = il_size r + (il_size r' + il_size x)"
    by (intro u32_size) linarith+
  show "range_ok (r\<lparr>il_size := il_size r + (il_size r' + il_size x)\<rparr>)" using R R' x by (simp add: range_ok_def)
  let ?m = "r\<lparr>il_size := il_size r + il_size x\<rparr>"
  have "blk r + blk x = blk ?m" using blk_join [of x r] r(4) R x by simp
  moreover have "blk ?m + blk r' = blk (?m\<lparr>il_size := il_size ?m + il_size r'\<rparr>)"
    using r(4) r'(4) R R' x by (intro blk_join) (simp_all add: distrib_right)
  ultimately show "blk (r\<lparr>il_size := il_size r + (il_size r' + il_size x)\<rparr>) = blk r + blk x + blk r'"
    by (simp add: ac_simps)
qed

lemma fl_give_back_both:
  assumes nb: "fl_neighbours x (fl_entries s) = (Some p, Some q, f)" and ready: "fl_ready x s"
  obtains s' where "fl_give_back x s = Some s'" "fl_gave x s s'" "fl_mapping s' = fl_mapping s"
proof -
  note p = fl_neighbours_spec(1) [OF nb refl] and q = fl_neighbours_spec(2) [OF nb refl] and f = fl_neighbours_spec(3) [OF nb]
  have pq: "q \<noteq> p" using p q by auto
  obtain p' s2 where m: "fl_migrate p f (fl_log p s) = (p', s2)" by fastforce
  have ok: "\<forall>r \<in> set (fl_entries (fl_log p s)). range_ok r" using ready by (simp add: fl_log_spec fl_ready_def)
  note sp = fl_migrate_spec [OF m, unfolded fl_log_spec, OF _ f ok [unfolded fl_log_spec]]
  have s2: "fl_only s s2" "fl_currentSize s2 = fl_currentSize s" "p' < length (fl_entries s2)"
      "fl_entries s2 ! p' = fl_entries s ! p" "fl_sum (fl_entries s2) = fl_sum (fl_entries s)"
      "fl_uses (fl_entries s2) = fl_uses (fl_entries s)" "\<forall>r \<in> set (fl_entries s2). range_ok r"
      "q \<noteq> p'" "q < length (fl_entries s2)" "fl_entries s2 ! q = fl_entries s ! q"
    using sp p q pq fl_log_spec(2) [of s p] by (simp_all add: fl_only_def)
  let ?r = "fl_entries s ! p" and ?r' = "fl_entries s ! q"
  let ?v = "?r\<lparr>il_size := il_size ?r + (il_size ?r' + il_size x)\<rparr>"
  have merge: "u32 (il_size ?r + (il_size ?r' + il_size x)) = il_size ?r + (il_size ?r' + il_size x)" "range_ok ?v"
      "blk ?v = blk ?r + blk x + blk ?r'"
    using fl_merge_both [OF ready refl _ _ _ refl] p q by blast+
  let ?rs = "(fl_entries s2)[p' := ?v]"
  let ?s' = "fl_count (- sizeof_InlineLBIDRange) (fl_put q (?r'\<lparr>il_size := 0\<rparr>) (fl_assign p' ?v s2))"
  have nthq: "?rs ! q = ?r'" using s2 by simp
  have "fl_give_back x s = Some ?s'"
    using s2(4,8,10) by (simp add: fl_give_back_def nb m Let_def merge(1)) (simp add: fl_assign_def)
  moreover have "fl_gave x s ?s'"
  proof -
    have "fl_sum (?rs[q := ?r'\<lparr>il_size := 0\<rparr>]) = fl_sum (fl_entries s) + blk x"
      using fl_sum_update [of p' "fl_entries s2" ?v] fl_sum_update [of q ?rs "?r'\<lparr>il_size := 0\<rparr>"] s2 merge(3) nthq
      by (simp add: ac_simps)
    moreover have "0 < il_size ?r" "0 < il_size ?r'" "range_ok ?r'"
      using fl_ready_nth [OF ready] p q by blast+
    then have "fl_uses (?rs[q := ?r'\<lparr>il_size := 0\<rparr>]) = fl_uses (fl_entries s) - 1"
      using fl_uses_update [of p' "fl_entries s2" ?v] fl_uses_update [of q ?rs "?r'\<lparr>il_size := 0\<rparr>"] s2 nthq
        fl_ready_x [OF ready] by (simp add: fl_used_def)
    moreover have "\<forall>r \<in> set (?rs[q := ?r'\<lparr>il_size := 0\<rparr>]). range_ok r"
      by (rule range_ok_update [OF range_ok_update [OF s2(7) merge(2)]])
        (use \<open>range_ok ?r'\<close> in \<open>simp add: range_ok_def\<close>)
    moreover have "fl_entries ?s' = ?rs[q := ?r'\<lparr>il_size := 0\<rparr>]" "fl_only s ?s'"
        "fl_currentSize ?s' = fl_currentSize s - sizeof_InlineLBIDRange"
      using s2(1,2) by (simp_all add: fl_count_def fl_put_def em_record_def fl_assign_def fl_only_def)
    moreover have "fl_currentSize s = sizeof_InlineLBIDRange * fl_uses (fl_entries s)"
      using ready by (simp add: fl_ready_def)
    moreover have "?rs[q := ?r'\<lparr>il_size := 0\<rparr>] \<noteq> []" using s2(3) by auto
    ultimately show ?thesis by (intro fl_gaveI) (simp_all only: right_diff_distrib mult_1_right not_False_eq_True)
  qed
  moreover have "fl_mapping ?s' = fl_mapping s"
    using s2(1) by (simp add: fl_count_def fl_put_def em_record_def fl_assign_def fl_only_def)
  ultimately show thesis by (rule that)
qed

lemma em_growFL_ok:
  assumes "fl_attached s" "fl_entries s \<noteq> []"
  obtains s' where "em_growFLShmseg s = Some s'" "fl_entries s' = fl_entries s @ replicate 50 fl_zero_entry"
    "em_entries s' = em_entries s" "em_currentSize s' = em_currentSize s" "em_attached s' = em_attached s"
    "em_mapping s' = em_mapping s" "fl_attached s'" "fl_currentSize s' = fl_currentSize s"
proof -
  have "chooseShmkey KEYRANGE_EMFREELIST_BASE (fl_tableShmkey s) \<noteq> fl_tableShmkey s"
    by (rule chooseShmkey_fresh) (simp_all add: KEYRANGE_EMFREELIST_BASE_def)
  then have "em_growFLShmseg s = Some (s\<lparr>fl_entries := fl_entries s @ replicate 50 fl_zero_entry,
      fl_tableShmkey := chooseShmkey KEYRANGE_EMFREELIST_BASE (fl_tableShmkey s),
      fl_attached := True, fl_mapping := fl_mapping s + 1\<rparr>)"
    using assms by (simp add: em_growFLShmseg_def Let_def shm_grow_def EM_FREELIST_INCREMENT_ROWS_def)
  then show thesis by (rule that) simp_all
qed

lemma fl_sum_zeros: "fl_sum (replicate n fl_zero_entry) = {#}"
  by (induction n) (simp_all add: fl_sum_def fl_zero_entry_def)

lemma fl_uses_zeros: "fl_uses (replicate n fl_zero_entry) = 0"
  by (simp add: fl_uses_def fl_zero_entry_def fl_used_def)

lemma fl_append:
  "fl_sum (xs @ ys) = fl_sum xs + fl_sum ys" "fl_uses (xs @ ys) = fl_uses xs + fl_uses ys"
  by (simp_all add: fl_sum_def fl_uses_def)

lemma fl_give_back_new:
  assumes nb: "fl_neighbours x (fl_entries s) = (None, None, f)" and ready: "fl_ready x s"
  obtains s' where "fl_give_back x s = Some s'" "fl_gave x s s'" "\<not> fl_full s \<Longrightarrow> fl_mapping s' = fl_mapping s"
proof -
  obtain j s1 where s1: "(if fl_full s then map_option (Pair (length (fl_entries s))) (em_growFLShmseg s)
        else map_option (\<lambda>j. (j, s)) f) = Some (j, s1)" "j < length (fl_entries s1)" "il_size (fl_entries s1 ! j) = 0"
      "fl_sum (fl_entries s1) = fl_sum (fl_entries s)" "fl_uses (fl_entries s1) = fl_uses (fl_entries s)"
      "\<forall>r \<in> set (fl_entries s1). range_ok r" "em_entries s1 = em_entries s" "em_currentSize s1 = em_currentSize s"
      "em_attached s1 = em_attached s" "em_mapping s1 = em_mapping s" "fl_attached s1" "fl_currentSize s1 = fl_currentSize s"
      "\<not> fl_full s \<Longrightarrow> fl_mapping s1 = fl_mapping s"
  proof (cases "fl_full s")
    case True
    obtain s1 where g: "em_growFLShmseg s = Some s1" "fl_entries s1 = fl_entries s @ replicate 50 fl_zero_entry"
        "em_entries s1 = em_entries s" "em_currentSize s1 = em_currentSize s" "em_attached s1 = em_attached s"
        "em_mapping s1 = em_mapping s" "fl_attached s1" "fl_currentSize s1 = fl_currentSize s"
      using ready by (auto simp: fl_ready_def intro: em_growFL_ok)
    have "fl_sum (fl_entries s1) = fl_sum (fl_entries s)" "fl_uses (fl_entries s1) = fl_uses (fl_entries s)"
      unfolding g(2) fl_append fl_sum_zeros fl_uses_zeros by simp_all
    moreover have "\<forall>r \<in> set (fl_entries s1). range_ok r"
      using g(2) ready by (auto simp: fl_ready_def fl_zero_entry_def range_ok_def)
    ultimately show thesis using True g by (intro that [of "length (fl_entries s)" s1]) (simp_all add: nth_append fl_zero_entry_def)
  next
    case False
    have "f \<noteq> None"
    proof
      assume "f = None"
      then have "\<forall>r \<in> set (fl_entries s). fl_used r" using fl_neighbours_spec(4) [OF nb] by (simp add: fl_used_def)
      then have "fl_uses (fl_entries s) = int (length (fl_entries s))" by (simp add: fl_uses_def)
      with False ready show False by (simp add: fl_full_def fl_ready_def)
    qed
    then obtain j where j: "f = Some j" by blast
    show thesis using False j fl_neighbours_spec(3) [OF nb j] ready
      by (intro that [of j s]) (simp_all add: fl_ready_def)
  qed
  let ?s' = "fl_count_unlogged sizeof_InlineLBIDRange (fl_put j x s1)"
  have "fl_give_back x s = Some ?s'" by (simp add: fl_give_back_def nb s1(1) del: map_option_eq_Some)
  moreover have "fl_gave x s ?s'"
  proof -
    have "fl_sum ((fl_entries s1)[j := x]) = fl_sum (fl_entries s) + blk x"
      using fl_sum_update [OF s1(2), of x] s1(3,4) by simp
    moreover have "fl_uses ((fl_entries s1)[j := x]) = fl_uses (fl_entries s) + 1"
      using fl_uses_update [OF s1(2), of x] s1(3,5) fl_ready_x [OF ready] by (simp add: fl_used_def)
    moreover have "\<forall>r \<in> set ((fl_entries s1)[j := x]). range_ok r"
      using ready by (intro range_ok_update [OF s1(6)]) (simp add: fl_ready_def)
    ultimately show ?thesis using s1 ready
      by (auto simp: fl_gave_def fl_count_unlogged_def fl_put_def em_record_def fl_ready_def sizeof_InlineLBIDRange_def)
  qed
  moreover have "fl_mapping ?s' = fl_mapping s" if "\<not> fl_full s"
    using s1(13) [OF that] by (simp add: fl_count_unlogged_def fl_put_def em_record_def)
  ultimately show thesis by (rule that)
qed

lemma fl_give_back_ok:
  assumes "fl_ready x s"
  obtains s' where "fl_give_back x s = Some s'" "fl_gave x s s'" "\<not> fl_full s \<Longrightarrow> fl_mapping s' = fl_mapping s"
proof -
  obtain prec succ f where nb: "fl_neighbours x (fl_entries s) = (prec, succ, f)" by (metis prod_cases3)
  show thesis
  proof (cases prec)
    case (Some p)
    show thesis
    proof (cases succ)
      case (Some q)
      show thesis by (rule fl_give_back_both [OF nb [unfolded \<open>prec = Some p\<close> Some] assms]) (auto intro: that)
    next
      case None
      show thesis by (rule fl_give_back_prec [OF nb [unfolded \<open>prec = Some p\<close> None] assms]) (auto intro: that)
    qed
  next
    case None
    show thesis
    proof (cases succ)
      case (Some q)
      show thesis by (rule fl_give_back_succ [OF nb [unfolded \<open>prec = None\<close> Some] assms]) (auto intro: that)
    next
      case None
      show thesis by (rule fl_give_back_new [OF nb [unfolded \<open>prec = None\<close> None] assms]) (auto intro: that)
    qed
  qed
qed

lemma em_inv_fl_ready:
  assumes "em_inv s" "i < length (em_entries s)" "em_used (em_entries s ! i)"
  shows "fl_ready (em_range (em_entries s ! i)) s"
proof -
  let ?x = "em_range (em_entries s ! i)"
  have x: "range_ok ?x" "il_size ?x \<noteq> 0" using em_inv_range_ok(1) [OF assms(1,2)] assms(3) by (simp_all add: em_used_def)
  with units_bound [OF em_part_of_space(1) [OF assms(1,2)]] have "il_start ?x div 1024 + il_size ?x \<le> MAX_LBID_SIZE"
    "0 < il_size ?x" by (auto simp: range_ok_def)
  moreover have "il_size r = 0 \<or> il_start r div 1024 + il_size r \<le> MAX_LBID_SIZE" if mem: "r \<in> set (fl_entries s)" for r
  proof -
    obtain j where "j < length (fl_entries s)" "r = fl_entries s ! j" using mem unfolding in_set_conv_nth by blast
    then show ?thesis using units_bound em_part_of_space(2) [OF assms(1)] em_inv_range_ok(2) [OF assms(1)] by blast
  qed
  ultimately show ?thesis
    using assms(1) x(1) by (simp add: fl_ready_def em_inv_def em_wf_def em_counted_def fl_uses_def)
qed

lemma em_space_fl: "em_space s = sum_list (map (\<lambda>e. blk (em_range e)) (em_entries s)) + fl_sum (fl_entries s)"
  by (simp add: em_space_def fl_sum_def)

lemma em_deleteExtent_ok:
  assumes inv: "em_inv s" and i: "i < length (em_entries s)" "em_used (em_entries s ! i)"
  obtains s' where "em_deleteExtent i s = Some s'" "em_inv s'" "em_mapping s' = em_mapping s"
    "em_entries s' = (em_entries s)[i := (em_entries s ! i)\<lparr>em_range := (em_range (em_entries s ! i))\<lparr>il_size := 0\<rparr>\<rparr>]"
proof -
  let ?e = "em_entries s ! i"
  let ?e' = "?e\<lparr>em_range := (em_range ?e)\<lparr>il_size := 0\<rparr>\<rparr>"
  obtain s1 where s1: "fl_give_back (em_range ?e) s = Some s1" "fl_gave (em_range ?e) s s1"
    by (rule fl_give_back_ok [OF em_inv_fl_ready [OF inv i]])
  let ?s' = "em_count_unlogged (- sizeof_EMEntry) (em_put i ?e' s1)"
  have entries: "em_entries s1 = em_entries s" using s1(2) by (simp add: fl_gave_def)
  have fields: "em_entries ?s' = (em_entries s)[i := ?e']" "fl_entries ?s' = fl_entries s1"
      "em_currentSize ?s' = em_currentSize s - sizeof_EMEntry" "fl_currentSize ?s' = fl_currentSize s1"
      "em_attached ?s' = em_attached s" "fl_attached ?s' = fl_attached s" "em_mapping ?s' = em_mapping s"
    using s1(2) by (simp_all add: fl_gave_def em_writes)
  have range: "\<forall>e \<in> set ((em_entries s)[i := ?e']). range_ok (em_range e)"
  proof
    fix e assume "e \<in> set ((em_entries s)[i := ?e'])"
    then have "e = ?e' \<or> e \<in> set (em_entries s)" using set_update_subset_insert [of "em_entries s" i ?e'] by blast
    then show "range_ok (em_range e)"
      using inv em_inv_range_ok(1) [OF inv i(1)] by (auto simp: em_inv_def em_wf_def range_ok_def)
  qed
  have fl: "fl_entries s1 \<noteq> []" "\<forall>r \<in> set (fl_entries s1). range_ok r"
      "fl_sum (fl_entries s1) = fl_sum (fl_entries s) + blk (em_range ?e)"
      "fl_currentSize s1 = sizeof_InlineLBIDRange * fl_uses (fl_entries s1)"
    using s1(2) by (simp_all add: fl_gave_def)
  have "em_wf ?s'" using inv range fl(1,2) unfolding em_wf_def fields em_inv_def by (metis list_update_nonempty)
  moreover have "em_counted ?s'"
    using inv fl(4) length_filter_update [OF i(1), of em_used ?e'] i(2)
    unfolding em_counted_def fields em_inv_def by (simp add: fl_uses_def em_used_def sizeof_EMEntry_def)
  moreover have "em_space ?s' = em_space s"
    using sum_list_map_update [OF i(1), of "\<lambda>e. blk (em_range e)" ?e']
    unfolding em_space_fl fields fl(3) by (simp add: ac_simps)
  ultimately have "em_inv ?s'" using inv by (simp add: em_inv_def)
  moreover have "em_deleteExtent i s = Some ?s'" by (simp add: em_deleteExtent_def Let_def s1(1))
  ultimately show thesis using fields by (intro that) simp_all
qed

text \<open>A new extent in an unused slot, on the range that was taken.\<close>

lemma em_fill_ok:
  assumes lacks: "em_lacks (em_range e) s" and i: "i < length (em_entries s)" "\<not> em_used (em_entries s ! i)" and e: "em_used e"
  shows "em_inv (em_count sizeof_EMEntry (em_put i e s))"
proof -
  let ?s' = "em_count sizeof_EMEntry (em_put i e s)"
  have fields: "em_entries ?s' = (em_entries s)[i := e]" "fl_entries ?s' = fl_entries s"
      "em_currentSize ?s' = em_currentSize s + sizeof_EMEntry" "fl_currentSize ?s' = fl_currentSize s"
      "em_attached ?s' = em_attached s" "fl_attached ?s' = fl_attached s"
    by (simp_all add: em_writes)
  have "em_wf ?s'"
    using em_wf_put [of s i e] lacks i(1) by (simp add: em_lacks_def em_wf_def fields)
  moreover have "em_counted ?s'"
    using lacks length_filter_update [OF i(1), of em_used e] i(2) e
    unfolding em_counted_def fields em_lacks_def by (simp add: sizeof_EMEntry_def)
  moreover have "em_space ?s' = em_space s + blk (em_range e)"
    using sum_list_map_update [OF i(1), of "\<lambda>e. blk (em_range e)" e] i(2)
    unfolding em_space_fl fields by (simp add: ac_simps em_used_def)
  ultimately show ?thesis using lacks by (simp add: em_inv_def em_lacks_def)
qed

text \<open>Entries whose range is not touched keep the invariant.\<close>

lemma em_put_inv:
  assumes "em_inv s" "i < length (em_entries s)" "em_range e = em_range (em_entries s ! i)"
  shows "em_inv (em_put i e s)"
proof -
  let ?s' = "em_put i e s"
  have fields: "em_entries ?s' = (em_entries s)[i := e]" "fl_entries ?s' = fl_entries s"
      "em_currentSize ?s' = em_currentSize s" "fl_currentSize ?s' = fl_currentSize s"
      "em_attached ?s' = em_attached s" "fl_attached ?s' = fl_attached s"
    by (simp_all add: em_writes)
  have "em_wf ?s'"
    using em_wf_put [of s i e] assms em_inv_range_ok(1) [OF assms(1,2)] by (simp add: em_inv_def em_wf_def fields)
  moreover have "em_counted ?s'"
    using assms length_filter_update [OF assms(2), of em_used e]
    unfolding em_counted_def fields em_inv_def by (simp add: em_used_def)
  moreover have "em_space ?s' = em_space s"
    using sum_list_map_update [OF assms(2), of "\<lambda>e. blk (em_range e)" e] assms(3)
    unfolding em_space_fl fields by simp
  ultimately show ?thesis using assms(1) by (simp add: em_inv_def)
qed

end
