(* ===== verification/Extent_Create.thy ===== *)
theory Extent_Create
  imports Extent_Space
begin

text \<open>
  The creation of extents: \<^verbatim>\<open>createColumnExtent_DBroot\<close>, which chooses the partition, segment
  file and offset of the next extent of a column, \<^verbatim>\<open>createStripeColumnExtents\<close> for the columns
  of a table, \<^verbatim>\<open>createColumnExtentExactFile\<close> and \<^verbatim>\<open>createDictStoreExtent\<close> for a given
  segment file. The values of the configuration and of the OAM cache are the record \<open>em_config\<close>.

  \<^verbatim>\<open>targetDbRootSegs\<close>, an unordered map from segment numbers, is an ordered one here; the loops
  over it take minima and maxima, which do not depend on the order.
\<close>

record em_config =
  filesPerColumnPartition :: int
  extentsPerSegmentFile :: int
  dbRootCount :: int

definition getExtentRows :: int where
  "getExtentRows = 0x800000"

definition DICT_COL_WIDTH :: int where
  "DICT_COL_WIDTH = 8"

text \<open>The blocks of an extent, with the wrap-around of \<^verbatim>\<open>unsigned\<close>.\<close>

definition extent_blocks :: "int \<Rightarrow> int" where
  "extent_blocks colWidth = u32 (getExtentRows * colWidth) div BLOCK_SIZE"

definition cp_reset :: "ColDataType \<Rightarrow> EMCasualPartition \<Rightarrow> EMCasualPartition" where
  "cp_reset t c =
    (if isUnsigned t then c\<lparr>lo_val := - 1, hi_val := 0\<rparr>
     else c\<lparr>lo_val := 0x7FFFFFFFFFFFFFFF, hi_val := 0x8000000000000000\<rparr>)"

section \<open>The next extent of a column\<close>

text \<open>First step: the last extent of the column on the DBRoot, the highest segment number in the given
  partition for an empty DBRoot, and the first unused entry.\<close>

record col_scan =
  cs_last :: "nat option"
  cs_part :: int
  cs_seg :: int
  cs_off :: int
  cs_emptySeg :: "int option"
  cs_free :: "nat option"

definition col_scan_init :: col_scan where
  "col_scan_init = \<lparr>cs_last = None, cs_part = 0, cs_seg = 0, cs_off = 0, cs_emptySeg = None, cs_free = None\<rparr>"

definition col_scan_last :: "DBROOTS_struct \<Rightarrow> nat \<Rightarrow> EMEntry \<Rightarrow> col_scan \<Rightarrow> col_scan" where
  "col_scan_last dbRoot i e c =
    (if dbr_eq (em_dbRoots e) dbRoot \<and>
        (em_partitionNum e > cs_part c \<or>
         em_partitionNum e = cs_part c \<and> em_blockOffset e > cs_off c \<or>
         em_partitionNum e = cs_part c \<and> em_blockOffset e = cs_off c \<and> em_segmentNum e \<ge> cs_seg c)
     then c\<lparr>cs_last := Some i, cs_part := em_partitionNum e, cs_seg := em_segmentNum e, cs_off := em_blockOffset e\<rparr>
     else c)"

definition col_scan_step ::
  "OID_t \<Rightarrow> DBROOTS_struct \<Rightarrow> int \<Rightarrow> EMEntry list \<Rightarrow> nat \<Rightarrow> col_scan \<Rightarrow> col_scan" where
  "col_scan_step OID dbRoot partitionNum es i c =
    (let e = es ! i
     in if em_used e then
          (if em_fileID e = OID then
             let c1 = col_scan_last dbRoot i e c
             in if cs_last c1 = None \<and> em_partitionNum e = partitionNum \<and>
                   (case cs_emptySeg c1 of None \<Rightarrow> True | Some h \<Rightarrow> em_segmentNum e > h)
                then c1\<lparr>cs_emptySeg := Some (em_segmentNum e)\<rparr> else c1
           else c)
        else if cs_free c = None then c\<lparr>cs_free := Some i\<rparr> else c)"

definition col_scan_all :: "OID_t \<Rightarrow> DBROOTS_struct \<Rightarrow> int \<Rightarrow> EMEntry list \<Rightarrow> col_scan" where
  "col_scan_all OID dbRoot partitionNum es =
    fold (col_scan_step OID dbRoot partitionNum es) [0 ..< length es] col_scan_init"

text \<open>Second step: the segment files of the last partition, with the highest offset of each.\<close>

record part_scan =
  ps_outOfService :: bool
  ps_highSeg :: int
  ps_highSegNext :: int
  ps_segs :: "int std_map"

definition part_scan_init :: "EMEntry \<Rightarrow> part_scan" where
  "part_scan_init e = \<lparr>ps_outOfService = False, ps_highSeg = em_segmentNum e, ps_highSegNext = -1,
     ps_segs = [(em_segmentNum e, em_blockOffset e)]\<rparr>"

definition part_scan_file :: "DBROOTS_struct \<Rightarrow> EMEntry \<Rightarrow> part_scan \<Rightarrow> part_scan" where
  "part_scan_file dbRoot e ps =
    (if dbr_eq (em_dbRoots e) dbRoot then
       ps\<lparr>ps_outOfService := ps_outOfService ps \<or> em_status e = EXTENTOUTOFSERVICE,
          ps_segs := (case map_of (ps_segs ps) (em_segmentNum e) of
              None \<Rightarrow> sm_put (em_segmentNum e) (em_blockOffset e) (ps_segs ps)
            | Some off \<Rightarrow> if em_blockOffset e > off then sm_put (em_segmentNum e) (em_blockOffset e) (ps_segs ps)
                          else ps_segs ps)\<rparr>
     else ps)"

definition part_scan_step :: "OID_t \<Rightarrow> DBROOTS_struct \<Rightarrow> int \<Rightarrow> EMEntry \<Rightarrow> part_scan \<Rightarrow> part_scan" where
  "part_scan_step OID dbRoot part e ps =
    (if em_used e \<and> em_fileID e = OID then
       (if em_partitionNum e = u32 (part + 1) then
          (if em_segmentNum e > ps_highSegNext ps then ps\<lparr>ps_highSegNext := em_segmentNum e\<rparr> else ps)
        else if em_partitionNum e = part then
          part_scan_file dbRoot e
            (if em_segmentNum e > ps_highSeg ps then ps\<lparr>ps_highSeg := em_segmentNum e\<rparr> else ps)
        else ps)
     else ps)"

definition part_scan_all :: "OID_t \<Rightarrow> DBROOTS_struct \<Rightarrow> EMEntry \<Rightarrow> EMEntry list \<Rightarrow> part_scan" where
  "part_scan_all OID dbRoot lst es =
    fold (part_scan_step OID dbRoot (em_partitionNum lst)) es (part_scan_init lst)"

text \<open>Third step: the first, last and next segment of the target list.\<close>

definition seg_step :: "int \<Rightarrow> int \<times> int \<Rightarrow> int \<times> int \<times> int option \<Rightarrow> int \<times> int \<times> int option" where
  "seg_step seg x acc =
    (let (lo, hi, nxt) = acc; t = fst x
     in (if t < lo then t else lo,
         if \<not> t < lo \<and> t > hi then t else hi,
         if t > seg \<and> (case nxt of None \<Rightarrow> True | Some n \<Rightarrow> t < n) then Some t else nxt))"

definition seg_bounds :: "int \<Rightarrow> int std_map \<Rightarrow> int \<times> int \<times> int option" where
  "seg_bounds seg segs = (if length segs > 1 then fold (seg_step seg) segs (seg, seg, None) else (seg, seg, None))"

datatype placement = NewPartition | NewStripe int | SameStripe int

definition em_place :: "em_config \<Rightarrow> int \<Rightarrow> EMEntry \<Rightarrow> part_scan \<Rightarrow> placement option" where
  "em_place cfg colWidth lst ps =
    (if dbRootCount cfg = 0 then None
     else
       let perRoot = filesPerColumnPartition cfg div dbRootCount cfg;
           n = int (length (ps_segs ps));
           (lo, hi, nxt) = seg_bounds (em_segmentNum lst) (ps_segs ps)
       in Some
         (if ps_outOfService ps then NewPartition
          else if n < perRoot \<and> (\<exists>x \<in> set (ps_segs ps). snd x > 0) then NewPartition
          else if n \<ge> perRoot then
            (if em_segmentNum lst = hi then
               (if em_blockOffset lst = u32 (u32 (extentsPerSegmentFile cfg - 1) *
                     (u32 (getExtentRows * colWidth) div BLOCK_SIZE))
                then NewPartition else NewStripe lo)
             else SameStripe (case nxt of None \<Rightarrow> em_segmentNum lst | Some t \<Rightarrow> t))
          else SameStripe (take_bit 16 (ps_highSeg ps + 1))))"

text \<open>The partition, segment and offset of the new extent.\<close>

definition em_choose :: "em_config \<Rightarrow> int \<Rightarrow> EMEntry \<Rightarrow> part_scan \<Rightarrow> (int \<times> int \<times> int) option" where
  "em_choose cfg colWidth lst ps = do {
     pl \<leftarrow> em_place cfg colWidth lst ps;
     let lo = fst (seg_bounds (em_segmentNum lst) (ps_segs ps));
     Some (case pl of
         NewPartition \<Rightarrow> (u32 (em_partitionNum lst + 1),
           if ps_highSegNext ps = -1 then 0 else take_bit 16 (ps_highSegNext ps + 1), 0)
       | NewStripe seg \<Rightarrow> (em_partitionNum lst, seg,
           if em_blockOffset lst = 0 \<and> seg > lo then 0 else u32 (em_size lst * 1024 + em_blockOffset lst))
       | SameStripe seg \<Rightarrow> (em_partitionNum lst, seg,
           if em_blockOffset lst = 0 \<and> seg > lo then 0 else em_blockOffset lst))
   }"

definition em_new_entry ::
  "LBID_t \<Rightarrow> int \<Rightarrow> OID_t \<Rightarrow> int \<Rightarrow> DBROOTS_struct \<Rightarrow> ColDataType \<Rightarrow> int \<Rightarrow> int \<Rightarrow> int \<Rightarrow> EMEntry" where
  "em_new_entry lbid sz OID colWidth dbRoot t part seg off =
    \<lparr>em_range = \<lparr>il_start = lbid, il_size = sz\<rparr>, em_fileID = OID, em_blockOffset = off, em_dbRoots = dbRoot,
     em_HWM = 0, em_partitionNum = part, em_segmentNum = seg, em_colWid = take_bit 16 colWidth,
     em_status = EXTENTUNAVAILABLE,
     em_cprange = cp_reset t \<lparr>hi_val = 0, lo_val = 0, sequenceNum = 0,
       isValid = (if part = 0 \<and> seg = 0 \<and> off = 0 then CP_VALID else CP_INVALID)\<rparr>\<rparr>"

definition em_createColumnExtent0 ::
  "em_config \<Rightarrow> int \<Rightarrow> OID_t \<Rightarrow> int \<Rightarrow> DBROOTS_struct \<Rightarrow> ColDataType \<Rightarrow> int \<Rightarrow> ExtentMap
    \<Rightarrow> ((LBID_t \<times> int \<times> int \<times> int) res \<times> ExtentMap) option" where
  "em_createColumnExtent0 cfg sz OID colWidth dbRoot t partitionNum s =
    (case em_getLBIDsFromFreeList sz s of
       (Inl err, s1) \<Rightarrow> Some (Inl err, s1)
     | (Inr lbid, s1) \<Rightarrow>
         let es = em_entries s1; c = col_scan_all OID dbRoot partitionNum es
         in case cs_free c of
              None \<Rightarrow> Some (Inl (Logic_error
                ''ExtentMap::_createColumnExtent_DBroot(): could not find an empty EMEntry''), s1)
            | Some k \<Rightarrow> do {
                (part, seg, off) \<leftarrow>
                  (case cs_last c of
                     None \<Rightarrow> Some (partitionNum,
                       case cs_emptySeg c of None \<Rightarrow> 0 | Some h \<Rightarrow> take_bit 16 (h + 1), 0)
                   | Some i \<Rightarrow> em_choose cfg colWidth (es ! i) (part_scan_all OID dbRoot (es ! i) es));
                Some (Inr (lbid, part, seg, off),
                  em_count sizeof_EMEntry (em_put k (em_new_entry lbid sz OID colWidth dbRoot t part seg off) s1))
              })"

definition em_growIfFull :: "ExtentMap \<Rightarrow> ExtentMap option" where
  "em_growIfFull s = (if em_full s then em_growEMShmseg 0 s else Some s)"

definition em_createColumnExtent_DBroot ::
  "em_config \<Rightarrow> OID_t \<Rightarrow> int \<Rightarrow> DBROOTS_struct \<Rightarrow> ColDataType \<Rightarrow> int \<Rightarrow> ExtentMap
    \<Rightarrow> ((LBID_t \<times> int \<times> int \<times> int) res \<times> ExtentMap) option" where
  "em_createColumnExtent_DBroot cfg OID colWidth dbRoot t partitionNum s = do {
     s1 \<leftarrow> em_growIfFull s;
     em_createColumnExtent0 cfg (extent_blocks colWidth div 1024) OID colWidth dbRoot t partitionNum s1
   }"

text \<open>The columns of a stripe after the first, which have to land in the same partition and segment.\<close>

record CreateStripeColumnExtentsArgIn =
  st_oid :: OID_t
  st_width :: int
  st_colDataType :: ColDataType

fun em_stripe_rest ::
  "em_config \<Rightarrow> DBROOTS_struct \<Rightarrow> int \<Rightarrow> int \<Rightarrow> CreateStripeColumnExtentsArgIn list
    \<Rightarrow> (LBID_t \<times> int \<times> int) list \<Rightarrow> ExtentMap
    \<Rightarrow> ((int \<times> int \<times> (LBID_t \<times> int \<times> int) list) res \<times> ExtentMap) option" where
  "em_stripe_rest cfg dbRoot part seg [] out s = Some (Inr (part, seg, out), s)"
| "em_stripe_rest cfg dbRoot part seg (col # cols) out s = do {
     (r, s1) \<leftarrow> em_createColumnExtent_DBroot cfg (st_oid col) (st_width col) dbRoot (st_colDataType col) part s;
     (case r of
        Inl err \<Rightarrow> Some (Inl err, s1)
      | Inr (lbid, part', seg', off) \<Rightarrow>
          if seg' \<noteq> seg \<or> part' \<noteq> part then
            Some (Inl (Invalid_argument
              ''ExtentMap::createStripeColumnExtents(): Inconsistent segment extent creation''), s1)
          else em_stripe_rest cfg dbRoot part seg cols
            (out @ [(lbid, extent_blocks (st_width col), off)]) s1)
   }"

definition em_createStripeColumnExtents ::
  "em_config \<Rightarrow> CreateStripeColumnExtentsArgIn list \<Rightarrow> DBROOTS_struct \<Rightarrow> int \<Rightarrow> int \<Rightarrow> ExtentMap
    \<Rightarrow> ((int \<times> int \<times> (LBID_t \<times> int \<times> int) list) res \<times> ExtentMap) option" where
  "em_createStripeColumnExtents cfg cols dbRoot partitionNum segmentNum s =
    (case cols of
       [] \<Rightarrow> Some (Inr (partitionNum, segmentNum, []), s)
     | col # rest \<Rightarrow> do {
         (r, s1) \<leftarrow> em_createColumnExtent_DBroot cfg (st_oid col) (st_width col) dbRoot (st_colDataType col)
                     partitionNum s;
         (case r of
            Inl err \<Rightarrow> Some (Inl err, s1)
          | Inr (lbid, part, seg, off) \<Rightarrow>
              em_stripe_rest cfg dbRoot part seg rest [(lbid, extent_blocks (st_width col), off)] s1)
       })"

section \<open>An extent of a given file\<close>

text \<open>The scan for the last extent of a file and the first unused entry.\<close>

definition file_scan_step ::
  "(EMEntry \<Rightarrow> bool) \<Rightarrow> EMEntry list \<Rightarrow> nat \<Rightarrow> nat option \<times> int \<times> nat option \<Rightarrow> nat option \<times> int \<times> nat option" where
  "file_scan_step inFile es i acc =
    (let (lst, highest, free) = acc; e = es ! i
     in if em_used e then
          (if inFile e \<and> em_blockOffset e \<ge> highest then (Some i, em_blockOffset e, free) else acc)
        else (lst, highest, if free = None then Some i else free))"

definition file_scan_all :: "(EMEntry \<Rightarrow> bool) \<Rightarrow> EMEntry list \<Rightarrow> nat option \<times> int \<times> nat option" where
  "file_scan_all inFile es = fold (file_scan_step inFile es) [0 ..< length es] (None, 0, None)"

definition em_next_offset :: "EMEntry list \<Rightarrow> nat option \<Rightarrow> int" where
  "em_next_offset es lst =
    (case lst of None \<Rightarrow> 0 | Some i \<Rightarrow> u32 (em_size (es ! i) * 1024 + em_blockOffset (es ! i)))"

definition em_createColumnExtentExactFile ::
  "OID_t \<Rightarrow> int \<Rightarrow> DBROOTS_struct \<Rightarrow> int \<Rightarrow> int \<Rightarrow> ColDataType \<Rightarrow> ExtentMap
    \<Rightarrow> ((LBID_t \<times> int) res \<times> ExtentMap) option" where
  "em_createColumnExtentExactFile OID colWidth dbRoot partitionNum segmentNum t s0 = do {
     let sz = extent_blocks colWidth div 1024;
     s \<leftarrow> em_growIfFull s0;
     Some (case em_getLBIDsFromFreeList sz s of
         (Inl err, s1) \<Rightarrow> (Inl err, s1)
       | (Inr lbid, s1) \<Rightarrow>
           let es = em_entries s1;
               (lst, _, free) = file_scan_all (\<lambda>e. em_fileID e = OID \<and> em_dbRoots e ! 0 = dbRoot ! 0 \<and>
                 em_partitionNum e = partitionNum \<and> em_segmentNum e = segmentNum) es;
               off = em_next_offset es lst
           in case free of
                None \<Rightarrow> (Inl (Logic_error
                  ''ExtentMap::_createColumnExtentExactFile(): could not find an empty EMEntry''), s1)
              | Some k \<Rightarrow> (Inr (lbid, off), em_count sizeof_EMEntry
                  (em_put k (em_new_entry lbid sz OID colWidth dbRoot t partitionNum segmentNum off) s1)))
   }"

text \<open>The entry of a dictionary extent. Of a further extent of a file only the first DBRoot is copied
  from the last one: the other replicas stay what they were in the reused entry.\<close>

definition em_dict_entry ::
  "LBID_t \<Rightarrow> int \<Rightarrow> OID_t \<Rightarrow> DBROOTS_struct \<Rightarrow> int \<Rightarrow> int \<Rightarrow> int \<Rightarrow> EMEntry option \<Rightarrow> EMEntry \<Rightarrow> EMEntry" where
  "em_dict_entry lbid sz OID dbRoot part seg off lst old =
    (let e = \<lparr>em_range = \<lparr>il_start = lbid, il_size = sz\<rparr>, em_fileID = OID, em_blockOffset = off,
       em_dbRoots = dbRoot, em_HWM = 0, em_partitionNum = part, em_segmentNum = seg, em_colWid = 0,
       em_status = EXTENTUNAVAILABLE,
       em_cprange = \<lparr>hi_val = 0x8000000000000000, lo_val = 0x7FFFFFFFFFFFFFFF, sequenceNum = 0,
         isValid = CP_INVALID\<rparr>\<rparr>
     in case lst of
          None \<Rightarrow> e
        | Some l \<Rightarrow> e\<lparr>em_segmentNum := em_segmentNum l, em_partitionNum := em_partitionNum l,
            em_dbRoots := (em_dbRoots old)[0 := em_dbRoots l ! 0], em_colWid := em_colWid l\<rparr>)"

definition em_createDictStoreExtent ::
  "OID_t \<Rightarrow> DBROOTS_struct \<Rightarrow> int \<Rightarrow> int \<Rightarrow> ExtentMap \<Rightarrow> (LBID_t res \<times> ExtentMap) option" where
  "em_createDictStoreExtent OID dbRoot partitionNum segmentNum s0 = do {
     let sz = extent_blocks DICT_COL_WIDTH div 1024;
     s \<leftarrow> em_growIfFull s0;
     Some (case em_getLBIDsFromFreeList sz s of
         (Inl err, s1) \<Rightarrow> (Inl err, s1)
       | (Inr lbid, s1) \<Rightarrow>
           let es = em_entries s1;
               (lst, _, free) = file_scan_all (\<lambda>e. em_fileID e = OID \<and>
                 em_partitionNum e = partitionNum \<and> em_segmentNum e = segmentNum) es
           in case free of
                None \<Rightarrow> (Inl (Logic_error
                  ''ExtentMap::_createDictStoreExtent(): could not find an empty EMEntry''), s1)
              | Some k \<Rightarrow> (Inr lbid, em_count sizeof_EMEntry
                  (em_put k (em_dict_entry lbid sz OID dbRoot partitionNum segmentNum (em_next_offset es lst)
                    (map_option ((!) es) lst) (es ! k)) s1)))
   }"

end
