(* ===== verification/Extent_Placement.thy ===== *)
theory Extent_Placement
  imports Extent_Create
begin

text \<open>
  Where \<^verbatim>\<open>_createColumnExtent_DBroot\<close> puts a new extent. The two scans are characterised by
  loop invariants (\<open>col_scan_spec\<close>, \<open>part_scan_spec\<close>), the choice over the list of segment files
  by \<open>seg_bounds_spec\<close>. They give that the place chosen is not taken: no extent of the column has
  the same partition, segment and offset, and the segment file, if it exists, is on the same DBRoots.
\<close>

section \<open>Well-typed entries\<close>

definition em_typed :: "EMEntry \<Rightarrow> bool" where
  "em_typed e \<longleftrightarrow> 0 \<le> em_partitionNum e \<and> em_partitionNum e < 2 ^ 32 \<and> 0 \<le> em_segmentNum e \<and> em_segmentNum e < 2 ^ 16 \<and>
    0 \<le> em_blockOffset e \<and> em_blockOffset e < 2 ^ 32 \<and> 0 \<le> em_HWM e \<and> em_HWM e < 2 ^ 32 \<and>
    0 \<le> em_colWid e \<and> em_colWid e < 2 ^ 16 \<and> length (em_dbRoots e) = MAX_DATA_REPLICATESIZE"

lemma dbr_eq_refl: "dbr_eq a a" and dbr_eq_sym: "dbr_eq a b \<Longrightarrow> dbr_eq b a"
  and dbr_eq_trans: "dbr_eq a b \<Longrightarrow> dbr_eq b c \<Longrightarrow> dbr_eq a c"
  by (auto simp: dbr_eq_def list_all_iff)

section \<open>The first scan\<close>

text \<open>Lexicographic order on partition, offset and segment.\<close>

definition pos_le :: "EMEntry \<Rightarrow> EMEntry \<Rightarrow> bool" where
  "pos_le a b \<longleftrightarrow> em_partitionNum a < em_partitionNum b \<or>
    em_partitionNum a = em_partitionNum b \<and> em_blockOffset a < em_blockOffset b \<or>
    em_partitionNum a = em_partitionNum b \<and> em_blockOffset a = em_blockOffset b \<and> em_segmentNum a \<le> em_segmentNum b"

lemma pos_le_refl: "pos_le a a" and pos_le_trans: "pos_le a b \<Longrightarrow> pos_le b c \<Longrightarrow> pos_le a c"
  and pos_le_total: "pos_le a b \<or> pos_le b a"
  by (auto simp: pos_le_def)

definition of_column :: "OID_t \<Rightarrow> EMEntry \<Rightarrow> bool" where
  "of_column OID e \<longleftrightarrow> em_used e \<and> em_fileID e = OID"

definition col_scan_inv :: "OID_t \<Rightarrow> DBROOTS_struct \<Rightarrow> int \<Rightarrow> EMEntry list \<Rightarrow> nat \<Rightarrow> col_scan \<Rightarrow> bool" where
  "col_scan_inv OID dbRoot part es n c \<longleftrightarrow>
    (case cs_last c of
       None \<Rightarrow> cs_part c = 0 \<and> cs_seg c = 0 \<and> cs_off c = 0 \<and>
         (\<forall>k < n. \<not> (of_column OID (es ! k) \<and> dbr_eq (em_dbRoots (es ! k)) dbRoot)) \<and>
         (case cs_emptySeg c of
            None \<Rightarrow> \<forall>k < n. \<not> (of_column OID (es ! k) \<and> em_partitionNum (es ! k) = part)
          | Some h \<Rightarrow> 0 \<le> h \<and> h < 2 ^ 16 \<and> (\<exists>k < n. of_column OID (es ! k) \<and> em_segmentNum (es ! k) = h) \<and>
              (\<forall>k < n. of_column OID (es ! k) \<and> em_partitionNum (es ! k) = part \<longrightarrow> em_segmentNum (es ! k) \<le> h))
     | Some i \<Rightarrow> i < n \<and> of_column OID (es ! i) \<and> dbr_eq (em_dbRoots (es ! i)) dbRoot \<and>
         cs_part c = em_partitionNum (es ! i) \<and> cs_seg c = em_segmentNum (es ! i) \<and> cs_off c = em_blockOffset (es ! i) \<and>
         (\<forall>k < n. of_column OID (es ! k) \<and> dbr_eq (em_dbRoots (es ! k)) dbRoot \<longrightarrow> pos_le (es ! k) (es ! i))) \<and>
    (case cs_free c of None \<Rightarrow> \<forall>k < n. em_used (es ! k) | Some k \<Rightarrow> k < n \<and> \<not> em_used (es ! k))"

lemma col_scan_last_first:
  assumes "cs_last c = None" "cs_part c = 0" "cs_seg c = 0" "cs_off c = 0" "em_typed e"
  shows "col_scan_last dbRoot i e c = (if dbr_eq (em_dbRoots e) dbRoot then c\<lparr>cs_last := Some i,
    cs_part := em_partitionNum e, cs_seg := em_segmentNum e, cs_off := em_blockOffset e\<rparr> else c)"
  using assms unfolding col_scan_last_def em_typed_def by auto

lemma col_scan_last_next:
  assumes "cs_last c = Some j" "cs_part c = em_partitionNum (es ! j)" "cs_seg c = em_segmentNum (es ! j)"
    "cs_off c = em_blockOffset (es ! j)"
  shows "col_scan_last dbRoot i e c = (if dbr_eq (em_dbRoots e) dbRoot \<and> pos_le (es ! j) e then c\<lparr>cs_last := Some i,
    cs_part := em_partitionNum e, cs_seg := em_segmentNum e, cs_off := em_blockOffset e\<rparr> else c)"
  using assms unfolding col_scan_last_def pos_le_def by auto

lemma col_scan_step_None:
  assumes inv: "col_scan_inv OID dbRoot part es n c" and none: "cs_last c = None" and typed: "em_typed (es ! n)"
  shows "col_scan_inv OID dbRoot part es (Suc n) (col_scan_step OID dbRoot part es n c)"
proof -
  let ?e = "es ! n"
  have c: "cs_part c = 0" "cs_seg c = 0" "cs_off c = 0"
      "\<And>k. k < n \<Longrightarrow> \<not> (of_column OID (es ! k) \<and> dbr_eq (em_dbRoots (es ! k)) dbRoot)"
    using inv none by (simp_all add: col_scan_inv_def)
  have free: "case cs_free c of None \<Rightarrow> \<forall>k < n. em_used (es ! k) | Some k \<Rightarrow> k < n \<and> \<not> em_used (es ! k)"
    using inv by (simp add: col_scan_inv_def)
  note lst = col_scan_last_first [OF none c(1-3) typed]
  show ?thesis
  proof (cases "of_column OID ?e")
    case True
    then have u: "em_used ?e" "em_fileID ?e = OID" by (simp_all add: of_column_def)
    show ?thesis
    proof (cases "dbr_eq (em_dbRoots ?e) dbRoot")
      case True
      then have "col_scan_step OID dbRoot part es n c = c\<lparr>cs_last := Some n, cs_part := em_partitionNum ?e,
          cs_seg := em_segmentNum ?e, cs_off := em_blockOffset ?e\<rparr>"
        using u by (simp add: col_scan_step_def lst Let_def)
      with True u c(4) free show ?thesis
        by (auto simp: col_scan_inv_def of_column_def less_Suc_eq pos_le_refl split: option.splits)
    next
      case False
      then have step: "col_scan_step OID dbRoot part es n c =
          (if em_partitionNum ?e = part \<and> (case cs_emptySeg c of None \<Rightarrow> True | Some h \<Rightarrow> em_segmentNum ?e > h)
           then c\<lparr>cs_emptySeg := Some (em_segmentNum ?e)\<rparr> else c)"
        using u none by (simp add: col_scan_step_def lst Let_def)
      from typed have "0 \<le> em_segmentNum ?e" "em_segmentNum ?e < 2 ^ 16" by (simp_all add: em_typed_def)
      with False u c none inv free \<open>of_column OID ?e\<close> show ?thesis
        unfolding step by (auto simp: col_scan_inv_def less_Suc_eq split: option.splits)
    qed
  next
    case False
    then have "col_scan_step OID dbRoot part es n c =
        (if em_used ?e then c else if cs_free c = None then c\<lparr>cs_free := Some n\<rparr> else c)"
      by (simp add: col_scan_step_def of_column_def Let_def)
    with False inv none free show ?thesis
      by (auto simp: col_scan_inv_def less_Suc_eq split: option.splits)
  qed
qed

lemma col_scan_step_Some:
  assumes inv: "col_scan_inv OID dbRoot part es n c" and some: "cs_last c = Some i"
  shows "col_scan_inv OID dbRoot part es (Suc n) (col_scan_step OID dbRoot part es n c)"
proof -
  let ?e = "es ! n"
  have c: "i < n" "of_column OID (es ! i)" "dbr_eq (em_dbRoots (es ! i)) dbRoot" "cs_part c = em_partitionNum (es ! i)"
      "cs_seg c = em_segmentNum (es ! i)" "cs_off c = em_blockOffset (es ! i)"
      "\<And>k. k < n \<Longrightarrow> of_column OID (es ! k) \<Longrightarrow> dbr_eq (em_dbRoots (es ! k)) dbRoot \<Longrightarrow> pos_le (es ! k) (es ! i)"
    using inv some by (simp_all add: col_scan_inv_def)
  have free: "case cs_free c of None \<Rightarrow> \<forall>k < n. em_used (es ! k) | Some k \<Rightarrow> k < n \<and> \<not> em_used (es ! k)"
    using inv by (simp add: col_scan_inv_def)
  note lst = col_scan_last_next [OF some c(4-6)]
  show ?thesis
  proof (cases "of_column OID ?e")
    case True
    then have u: "em_used ?e" "em_fileID ?e = OID" by (simp_all add: of_column_def)
    then have step: "col_scan_step OID dbRoot part es n c = col_scan_last dbRoot n ?e c"
      using some by (simp add: col_scan_step_def lst Let_def)
    show ?thesis
    proof (cases "dbr_eq (em_dbRoots ?e) dbRoot \<and> pos_le (es ! i) ?e")
      case True
      then have "pos_le (es ! k) ?e" if "k < Suc n" "of_column OID (es ! k)" "dbr_eq (em_dbRoots (es ! k)) dbRoot" for k
        using that c(7) [of k] pos_le_trans pos_le_refl by (metis less_Suc_eq)
      with True u free show ?thesis unfolding step lst
        by (auto simp: col_scan_inv_def of_column_def less_Suc_eq split: option.splits)
    next
      case False
      then have "pos_le (es ! k) (es ! i)" if "k < Suc n" "of_column OID (es ! k)" "dbr_eq (em_dbRoots (es ! k)) dbRoot" for k
        using that c(7) [of k] pos_le_total by (metis less_Suc_eq)
      with False u free some c show ?thesis unfolding step lst
        by (auto simp: col_scan_inv_def less_Suc_eq split: option.splits)
    qed
  next
    case False
    then have "col_scan_step OID dbRoot part es n c =
        (if em_used ?e then c else if cs_free c = None then c\<lparr>cs_free := Some n\<rparr> else c)"
      by (simp add: col_scan_step_def of_column_def Let_def)
    with False inv some free show ?thesis
      by (auto simp: col_scan_inv_def less_Suc_eq split: option.splits)
  qed
qed

lemma col_scan_spec:
  assumes "\<forall>e \<in> set es. em_typed e"
  shows "col_scan_inv OID dbRoot part es (length es) (col_scan_all OID dbRoot part es)"
proof -
  have "col_scan_inv OID dbRoot part es n (fold (col_scan_step OID dbRoot part es) [0 ..< n] col_scan_init)"
    if "n \<le> length es" for n
    using that
  proof (induction n)
    case 0
    then show ?case by (simp add: col_scan_inv_def col_scan_init_def)
  next
    case (Suc n)
    let ?c = "fold (col_scan_step OID dbRoot part es) [0 ..< n] col_scan_init"
    have "em_typed (es ! n)" using assms Suc.prems by simp
    then have "col_scan_inv OID dbRoot part es (Suc n) (col_scan_step OID dbRoot part es n ?c)"
      using Suc col_scan_step_None col_scan_step_Some by (cases "cs_last ?c") auto
    then show ?case by simp
  qed
  then show ?thesis by (simp add: col_scan_all_def)
qed

section \<open>The second scan\<close>

definition part_scan_inv :: "OID_t \<Rightarrow> DBROOTS_struct \<Rightarrow> EMEntry \<Rightarrow> EMEntry set \<Rightarrow> part_scan \<Rightarrow> bool" where
  "part_scan_inv OID dbRoot lst E ps \<longleftrightarrow>
    (\<forall>e \<in> E. of_column OID e \<and> em_partitionNum e = em_partitionNum lst + 1 \<longrightarrow> em_segmentNum e \<le> ps_highSegNext ps) \<and>
    (\<forall>e \<in> E. of_column OID e \<and> em_partitionNum e = em_partitionNum lst \<longrightarrow> em_segmentNum e \<le> ps_highSeg ps) \<and>
    (\<forall>t \<in> fst ` set (ps_segs ps). \<exists>e \<in> insert lst E. of_column OID e \<and> em_partitionNum e = em_partitionNum lst \<and>
      em_segmentNum e = t \<and> dbr_eq (em_dbRoots e) dbRoot) \<and>
    (ps_highSegNext ps = -1 \<or> (\<exists>e \<in> E. of_column OID e \<and> em_segmentNum e = ps_highSegNext ps)) \<and>
    (\<exists>e \<in> insert lst E. of_column OID e \<and> em_segmentNum e = ps_highSeg ps) \<and>
    em_segmentNum lst \<in> fst ` set (ps_segs ps)"

lemma part_scan_file_fields [simp]:
  "ps_highSeg (part_scan_file dbRoot e ps) = ps_highSeg ps"
  "ps_highSegNext (part_scan_file dbRoot e ps) = ps_highSegNext ps"
  by (simp_all add: part_scan_file_def)

lemma part_scan_file_keys:
  "fst ` set (ps_segs (part_scan_file dbRoot e ps)) =
    (if dbr_eq (em_dbRoots e) dbRoot then insert (em_segmentNum e) (fst ` set (ps_segs ps)) else fst ` set (ps_segs ps))"
  by (auto simp: part_scan_file_def set_sm_put_keys dest: map_of_SomeD split: option.splits)
    (force dest: map_of_SomeD)

lemma part_scan_step_inv:
  assumes inv: "part_scan_inv OID dbRoot lst E ps" and part: "0 \<le> em_partitionNum lst" "em_partitionNum lst + 1 < 2 ^ 32"
  shows "part_scan_inv OID dbRoot lst (insert e E) (part_scan_step OID dbRoot (em_partitionNum lst) e ps)"
proof -
  have keep: "\<forall>t \<in> fst ` set (ps_segs ps). \<exists>e' \<in> insert lst (insert e E). of_column OID e' \<and>
      em_partitionNum e' = em_partitionNum lst \<and> em_segmentNum e' = t \<and> dbr_eq (em_dbRoots e') dbRoot"
      "\<exists>e' \<in> insert lst (insert e E). of_column OID e' \<and> em_segmentNum e' = ps_highSeg ps"
      "em_segmentNum lst \<in> fst ` set (ps_segs ps)"
    using inv unfolding part_scan_inv_def by blast+
  have u: "u32 (em_partitionNum lst + 1) = em_partitionNum lst + 1" using part by (simp add: u32_id)
  note I = inv [unfolded part_scan_inv_def, THEN conjunct1] inv [unfolded part_scan_inv_def, THEN conjunct2, THEN conjunct1]
    inv [unfolded part_scan_inv_def, THEN conjunct2, THEN conjunct2, THEN conjunct1]
    inv [unfolded part_scan_inv_def, THEN conjunct2, THEN conjunct2, THEN conjunct2, THEN conjunct1]
    inv [unfolded part_scan_inv_def, THEN conjunct2, THEN conjunct2, THEN conjunct2, THEN conjunct2, THEN conjunct1]
    inv [unfolded part_scan_inv_def, THEN conjunct2, THEN conjunct2, THEN conjunct2, THEN conjunct2, THEN conjunct2]
  show ?thesis
  proof (cases "of_column OID e")
    case False
    then have "part_scan_step OID dbRoot (em_partitionNum lst) e ps = ps"
      by (auto simp: part_scan_step_def of_column_def)
    with False I show ?thesis by (simp add: part_scan_inv_def)
  next
    case True
    then have step: "part_scan_step OID dbRoot (em_partitionNum lst) e ps =
        (if em_partitionNum e = em_partitionNum lst + 1 then
          (if em_segmentNum e > ps_highSegNext ps then ps\<lparr>ps_highSegNext := em_segmentNum e\<rparr> else ps)
        else if em_partitionNum e = em_partitionNum lst then
          part_scan_file dbRoot e
            (if em_segmentNum e > ps_highSeg ps then ps\<lparr>ps_highSeg := em_segmentNum e\<rparr> else ps)
        else ps)"
      by (simp add: part_scan_step_def of_column_def u)
    consider (next_part) "em_partitionNum e = em_partitionNum lst + 1" | (same) "em_partitionNum e = em_partitionNum lst"
      | (other) "em_partitionNum e \<noteq> em_partitionNum lst + 1" "em_partitionNum e \<noteq> em_partitionNum lst" by blast
    then show ?thesis
    proof cases
      case next_part
      have "part_scan_step OID dbRoot (em_partitionNum lst) e ps = ps\<lparr>ps_highSegNext := max (em_segmentNum e) (ps_highSegNext ps)\<rparr>"
        unfolding step using next_part by (simp add: max_def)
      moreover have "\<forall>e' \<in> insert e E. of_column OID e' \<and> em_partitionNum e' = em_partitionNum lst + 1 \<longrightarrow>
          em_segmentNum e' \<le> max (em_segmentNum e) (ps_highSegNext ps)"
        using I(1) by (auto intro: max.coboundedI2)
      moreover have "max (em_segmentNum e) (ps_highSegNext ps) = -1 \<or>
          (\<exists>e' \<in> insert e E. of_column OID e' \<and> em_segmentNum e' = max (em_segmentNum e) (ps_highSegNext ps))"
        using I(4) True by (auto simp: max_def)
      moreover have "\<forall>e' \<in> insert e E. of_column OID e' \<and> em_partitionNum e' = em_partitionNum lst \<longrightarrow> em_segmentNum e' \<le> ps_highSeg ps"
        using I(2) next_part by auto
      ultimately show ?thesis using keep by (simp add: part_scan_inv_def)
    next
      case same
      let ?ps = "ps\<lparr>ps_highSeg := max (em_segmentNum e) (ps_highSeg ps)\<rparr>"
      have eq: "part_scan_step OID dbRoot (em_partitionNum lst) e ps = part_scan_file dbRoot e ?ps"
        unfolding step using same by (simp add: max_def)
      have keys: "\<forall>t \<in> fst ` set (ps_segs (part_scan_file dbRoot e ?ps)). \<exists>e' \<in> insert lst (insert e E).
          of_column OID e' \<and> em_partitionNum e' = em_partitionNum lst \<and> em_segmentNum e' = t \<and> dbr_eq (em_dbRoots e') dbRoot"
        using True same I(3) unfolding part_scan_file_keys by auto
      have "em_segmentNum lst \<in> fst ` set (ps_segs (part_scan_file dbRoot e ?ps))"
        using I(6) unfolding part_scan_file_keys by simp
      moreover have "\<exists>e' \<in> insert lst (insert e E). of_column OID e' \<and> em_segmentNum e' = max (em_segmentNum e) (ps_highSeg ps)"
        using True I(5) by (auto simp: max_def)
      moreover have "\<forall>e' \<in> insert e E. of_column OID e' \<and> em_partitionNum e' = em_partitionNum lst \<longrightarrow>
          em_segmentNum e' \<le> max (em_segmentNum e) (ps_highSeg ps)"
        using I(2) by (auto intro: max.coboundedI2)
      moreover have "ps_highSegNext ps = -1 \<or> (\<exists>e' \<in> insert e E. of_column OID e' \<and> em_segmentNum e' = ps_highSegNext ps)"
        using I(4) by auto
      ultimately show ?thesis unfolding eq part_scan_inv_def part_scan_file_fields
        using keys I(1) same by simp
    next
      case other
      then have "part_scan_step OID dbRoot (em_partitionNum lst) e ps = ps" unfolding step by simp
      with other I keep show ?thesis unfolding part_scan_inv_def by auto
    qed
  qed
qed

lemma part_scan_spec:
  assumes lst: "of_column OID lst" "dbr_eq (em_dbRoots lst) dbRoot" "0 \<le> em_partitionNum lst" "em_partitionNum lst + 1 < 2 ^ 32"
  shows "part_scan_inv OID dbRoot lst (set es) (part_scan_all OID dbRoot lst es)"
proof -
  have "part_scan_inv OID dbRoot lst (E \<union> set es) (fold (part_scan_step OID dbRoot (em_partitionNum lst)) es ps)"
    if "part_scan_inv OID dbRoot lst E ps" for E ps
    using that
  proof (induction es arbitrary: E ps)
    case (Cons e es)
    from Cons.IH [OF part_scan_step_inv [OF Cons.prems lst(3,4), of e]] show ?case by simp
  qed simp
  moreover have "part_scan_inv OID dbRoot lst {} (part_scan_init lst)"
    using lst by (simp add: part_scan_inv_def part_scan_init_def)
  ultimately show ?thesis using part_scan_all_def by fastforce
qed

section \<open>The target segments\<close>

lemma seg_fold_spec:
  "fold (seg_step seg) xs acc = (lo, hi, nxt) \<Longrightarrow>
    lo \<in> insert (fst acc) (fst ` set xs) \<and> hi \<in> insert (fst (snd acc)) (fst ` set xs) \<and> fst (snd acc) \<le> hi \<and>
    (case nxt of None \<Rightarrow> snd (snd acc) = None \<and> (\<forall>t \<in> fst ` set xs. t \<le> seg)
     | Some t \<Rightarrow> snd (snd acc) = Some t \<or> t \<in> fst ` set xs \<and> seg < t)"
proof (induction xs arbitrary: acc)
  case (Cons x xs)
  obtain lo1 hi1 nxt1 where acc: "acc = (lo1, hi1, nxt1)" by (cases acc)
  define a where "a = seg_step seg x acc"
  have a: "fst a = lo1 \<or> fst a = fst x" "fst (snd a) = hi1 \<or> fst (snd a) = fst x" "hi1 \<le> fst (snd a)"
      "snd (snd a) = (if fst x > seg \<and> (case nxt1 of None \<Rightarrow> True | Some n \<Rightarrow> fst x < n) then Some (fst x) else nxt1)"
    by (auto simp: a_def acc seg_step_def Let_def)
  have "fold (seg_step seg) xs a = (lo, hi, nxt)" using Cons.prems by (simp add: a_def)
  note IH = Cons.IH [OF this]
  have "lo \<in> insert lo1 (fst ` set (x # xs))" using IH a(1) by auto
  moreover have "hi \<in> insert hi1 (fst ` set (x # xs))" "hi1 \<le> hi" using IH a(2,3) by auto
  moreover have "case nxt of None \<Rightarrow> nxt1 = None \<and> (\<forall>t \<in> fst ` set (x # xs). t \<le> seg)
     | Some t \<Rightarrow> nxt1 = Some t \<or> t \<in> fst ` set (x # xs) \<and> seg < t"
    using IH a(4) by (auto split: option.splits if_splits)
  ultimately show ?case unfolding acc fst_conv snd_conv by blast
qed (auto split: option.splits)

lemma seg_bounds_spec:
  assumes "seg_bounds seg segs = (lo, hi, nxt)" "seg \<in> fst ` set segs"
  shows "lo \<in> fst ` set segs" "seg \<noteq> hi \<Longrightarrow> \<exists>t. nxt = Some t \<and> t \<in> fst ` set segs \<and> seg < t"
proof -
  show "lo \<in> fst ` set segs"
    using assms seg_fold_spec [of seg segs "(seg, seg, None)" lo hi nxt] by (auto simp: seg_bounds_def split: if_splits)
  assume ne: "seg \<noteq> hi"
  then have f: "fold (seg_step seg) segs (seg, seg, None) = (lo, hi, nxt)"
    using assms by (auto simp: seg_bounds_def split: if_splits)
  from seg_fold_spec [OF f] ne have "hi \<in> fst ` set segs" "seg < hi" by auto
  with seg_fold_spec [OF f] show "\<exists>t. nxt = Some t \<and> t \<in> fst ` set segs \<and> seg < t"
    by (cases nxt) force+
qed

section \<open>The place chosen is free\<close>

text \<open>A segment file of a column is on one list of DBRoots and its extents have different offsets.\<close>

definition em_position :: "EMEntry \<Rightarrow> int \<times> int \<times> int" where
  "em_position e = (em_partitionNum e, em_segmentNum e, em_blockOffset e)"

definition em_layout :: "OID_t \<Rightarrow> EMEntry list \<Rightarrow> bool" where
  "em_layout OID es \<longleftrightarrow> distinct (map em_position (filter (of_column OID) es)) \<and>
    (\<forall>e \<in> set es. \<forall>e' \<in> set es. of_column OID e \<longrightarrow> of_column OID e' \<longrightarrow>
      em_partitionNum e = em_partitionNum e' \<longrightarrow> em_segmentNum e = em_segmentNum e' \<longrightarrow>
      dbr_eq (em_dbRoots e) (em_dbRoots e'))"

text \<open>The numbers of the column are below the width of their types.\<close>

definition em_room :: "OID_t \<Rightarrow> EMEntry list \<Rightarrow> bool" where
  "em_room OID es \<longleftrightarrow> (\<forall>e \<in> set es. of_column OID e \<longrightarrow> em_segmentNum e + 1 < 2 ^ 16 \<and>
    em_partitionNum e + 1 < 2 ^ 32 \<and> em_size e * 1024 + em_blockOffset e < 2 ^ 32)"

definition place_free :: "OID_t \<Rightarrow> DBROOTS_struct \<Rightarrow> EMEntry list \<Rightarrow> int \<Rightarrow> int \<Rightarrow> int \<Rightarrow> bool" where
  "place_free OID dbRoot es part seg off \<longleftrightarrow> (\<forall>e \<in> set es. of_column OID e \<longrightarrow> em_partitionNum e = part \<longrightarrow>
    em_segmentNum e = seg \<longrightarrow> dbr_eq (em_dbRoots e) dbRoot \<and> em_blockOffset e \<noteq> off)"

lemma em_layoutD:
  assumes "em_layout OID es" "e \<in> set es" "e' \<in> set es" "of_column OID e" "of_column OID e'"
    "em_partitionNum e = em_partitionNum e'" "em_segmentNum e = em_segmentNum e'"
  shows "dbr_eq (em_dbRoots e) (em_dbRoots e')"
  using assms unfolding em_layout_def by blast

lemma place_free_known_file:
  assumes layout: "em_layout OID es" and i: "lst \<in> set es"
    and max: "\<And>e. e \<in> set es \<Longrightarrow> of_column OID e \<Longrightarrow> dbr_eq (em_dbRoots e) dbRoot \<Longrightarrow> pos_le e lst"
    and known: "e' \<in> set es" "of_column OID e'" "em_partitionNum e' = em_partitionNum lst" "em_segmentNum e' = seg"
      "dbr_eq (em_dbRoots e') dbRoot"
    and off: "em_blockOffset lst < off \<or> em_blockOffset lst = off \<and> em_segmentNum lst < seg"
  shows "place_free OID dbRoot es (em_partitionNum lst) seg off"
  unfolding place_free_def
proof (intro ballI impI)
  fix e assume e: "e \<in> set es" "of_column OID e" "em_partitionNum e = em_partitionNum lst" "em_segmentNum e = seg"
  have "dbr_eq (em_dbRoots e) (em_dbRoots e')" using em_layoutD [OF layout e(1) known(1) e(2) known(2)] e known by simp
  then have db: "dbr_eq (em_dbRoots e) dbRoot" using known(5) by (rule dbr_eq_trans)
  from max [OF e(1,2) db] have "em_blockOffset e < em_blockOffset lst \<or>
      em_blockOffset e = em_blockOffset lst \<and> seg \<le> em_segmentNum lst"
    by (simp add: pos_le_def e(3,4))
  with off db show "dbr_eq (em_dbRoots e) dbRoot \<and> em_blockOffset e \<noteq> off" by linarith
qed

lemma place_free_new_file:
  assumes "\<And>e. e \<in> set es \<Longrightarrow> of_column OID e \<Longrightarrow> em_partitionNum e = part \<Longrightarrow> em_segmentNum e < seg"
  shows "place_free OID dbRoot es part seg off"
  using assms unfolding place_free_def by blast

lemma em_choose_free:
  assumes typed: "\<forall>e \<in> set es. em_typed e" and room: "em_room OID es" and layout: "em_layout OID es"
    and lst: "lst \<in> set es" "of_column OID lst" "dbr_eq (em_dbRoots lst) dbRoot" "0 < em_size lst"
    and max: "\<And>e. e \<in> set es \<Longrightarrow> of_column OID e \<Longrightarrow> dbr_eq (em_dbRoots e) dbRoot \<Longrightarrow> pos_le e lst"
    and ch: "em_choose cfg colWidth lst (part_scan_all OID dbRoot lst es) = Some (part, seg, off)"
  shows "place_free OID dbRoot es part seg off"
proof -
  let ?ps = "part_scan_all OID dbRoot lst es"
  have ty: "em_typed lst" using typed lst(1) by blast
  have rm: "em_segmentNum e + 1 < 2 ^ 16" "em_partitionNum e + 1 < 2 ^ 32" "em_size e * 1024 + em_blockOffset e < 2 ^ 32"
    if "e \<in> set es" "of_column OID e" for e using room that by (auto simp: em_room_def)
  have seg0: "0 \<le> em_segmentNum e" if "e \<in> set es" for e using typed that by (auto simp: em_typed_def)
  have inv: "part_scan_inv OID dbRoot lst (set es) ?ps"
    using part_scan_spec [OF lst(2,3)] rm [OF lst(1,2)] ty by (simp add: em_typed_def)
  have key: "\<exists>e \<in> set es. of_column OID e \<and> em_partitionNum e = em_partitionNum lst \<and> em_segmentNum e = t \<and>
      dbr_eq (em_dbRoots e) dbRoot" if "t \<in> fst ` set (ps_segs ?ps)" for t
    using inv that lst(1) unfolding part_scan_inv_def insert_absorb [OF lst(1)] by blast
  obtain lo hi nxt where sb: "seg_bounds (em_segmentNum lst) (ps_segs ?ps) = (lo, hi, nxt)" by (cases "seg_bounds (em_segmentNum lst) (ps_segs ?ps)")
  have seg_in: "em_segmentNum lst \<in> fst ` set (ps_segs ?ps)" using inv by (simp add: part_scan_inv_def)
  note sbs = seg_bounds_spec [OF sb seg_in]
  obtain pl where pl: "em_place cfg colWidth lst ?ps = Some pl" using ch by (auto simp: em_choose_def bind_eq_Some_conv)
  show ?thesis
  proof (cases pl)
    case NewPartition
    have res: "part = em_partitionNum lst + 1" "seg = (if ps_highSegNext ?ps = -1 then 0 else take_bit 16 (ps_highSegNext ?ps + 1))"
      using ch pl NewPartition ty rm [OF lst(1,2)] by (auto simp: em_choose_def u32_id em_typed_def)
    have hi: "em_segmentNum e \<le> ps_highSegNext ?ps" if "e \<in> set es" "of_column OID e" "em_partitionNum e = part" for e
      using inv that unfolding part_scan_inv_def res by blast
    show ?thesis
    proof (cases "ps_highSegNext ?ps = -1")
      case True
      then show ?thesis using hi seg0 by (intro place_free_new_file) force
    next
      case False
      then obtain e where e: "e \<in> set es" "of_column OID e" "em_segmentNum e = ps_highSegNext ?ps"
        using inv unfolding part_scan_inv_def by blast
      then have "seg = ps_highSegNext ?ps + 1"
        using res(2) False rm(1) [OF e(1,2)] seg0 [OF e(1)] by (simp add: take_bit_int_eq_self)
      then show ?thesis using hi by (intro place_free_new_file) force
    qed
  next
    case (NewStripe t)
    then have t: "t = lo" using pl by (auto simp: em_place_def sb Let_def split: if_splits)
    have res: "part = em_partitionNum lst" "seg = lo" "off = em_size lst * 1024 + em_blockOffset lst"
      using ch pl NewStripe t ty rm(3) [OF lst(1,2)] lst(4) by (auto simp: em_choose_def sb u32_id em_typed_def split: if_splits)
    from key [OF sbs(1)] obtain e' where e': "e' \<in> set es" "of_column OID e'" "em_partitionNum e' = em_partitionNum lst"
      "em_segmentNum e' = lo" "dbr_eq (em_dbRoots e') dbRoot" by blast
    show ?thesis unfolding res by (rule place_free_known_file [OF layout lst(1) max e']) (simp_all add: lst(4))
  next
    case (SameStripe t)
    have res: "part = em_partitionNum lst" "seg = t" "off = em_blockOffset lst"
      using ch pl SameStripe by (auto simp: em_choose_def split: if_splits)
    consider (known) "em_segmentNum lst \<noteq> hi" "t = (case nxt of None \<Rightarrow> em_segmentNum lst | Some t \<Rightarrow> t)"
      | (new) "t = take_bit 16 (ps_highSeg ?ps + 1)"
      using pl SameStripe by (auto simp: em_place_def sb Let_def split: if_splits)
    then show ?thesis
    proof cases
      case known
      from sbs(2) [OF known(1)] obtain t' where "nxt = Some t'" "t' \<in> fst ` set (ps_segs ?ps)" "em_segmentNum lst < t'" by blast
      with known(2) have t: "t \<in> fst ` set (ps_segs ?ps)" "em_segmentNum lst < t" by simp_all
      from key [OF t(1)] obtain e' where e': "e' \<in> set es" "of_column OID e'" "em_partitionNum e' = em_partitionNum lst"
        "em_segmentNum e' = t" "dbr_eq (em_dbRoots e') dbRoot" by blast
      show ?thesis unfolding res by (rule place_free_known_file [OF layout lst(1) max e']) (simp_all add: t)
    next
      case new
      obtain e where e: "e \<in> set es" "of_column OID e" "em_segmentNum e = ps_highSeg ?ps"
        using inv unfolding part_scan_inv_def insert_absorb [OF lst(1)] by blast
      then have "t = ps_highSeg ?ps + 1"
        using new rm(1) [OF e(1,2)] seg0 [OF e(1)] by (simp add: take_bit_int_eq_self)
      moreover have "em_segmentNum e \<le> ps_highSeg ?ps" if "e \<in> set es" "of_column OID e" "em_partitionNum e = part" for e
        using inv that unfolding part_scan_inv_def res by blast
      ultimately show ?thesis unfolding res(2) by (intro place_free_new_file) force
    qed
  qed
qed

text \<open>A new extent at a free place keeps the layout.\<close>

lemma em_layout_put:
  assumes layout: "em_layout OID es" and k: "k < length es" "\<not> em_used (es ! k)" and e: "of_column OID e"
    and free: "place_free OID (em_dbRoots e) es (em_partitionNum e) (em_segmentNum e) (em_blockOffset e)"
  shows "em_layout OID (es[k := e])"
proof -
  have nk: "\<not> of_column OID (es ! k)" using k(2) by (simp add: of_column_def)
  have eq: "mset (map em_position (filter (of_column OID) (es[k := e]))) =
      mset (em_position e # map em_position (filter (of_column OID) es))"
    using mset_filter_update [OF k(1), of em_position "of_column OID" e] nk e by simp
  have "em_position e \<notin> set (map em_position (filter (of_column OID) es))"
    using free by (auto simp: place_free_def em_position_def)
  then have "distinct (map em_position (filter (of_column OID) (es[k := e])))"
    using layout unfolding mset_eq_imp_distinct_iff [OF eq] em_layout_def distinct.simps by blast
  moreover have mem: "x = e \<or> x \<in> set es" if "x \<in> set (es[k := e])" for x
    using that set_update_subset_insert [of es k e] by blast
  have "dbr_eq (em_dbRoots x) (em_dbRoots y)" if "x \<in> set (es[k := e])" "y \<in> set (es[k := e])" "of_column OID x"
      "of_column OID y" "em_partitionNum x = em_partitionNum y" "em_segmentNum x = em_segmentNum y" for x y
    using mem [OF that(1)] mem [OF that(2)] that(3-6) free em_layoutD [OF layout] dbr_eq_refl dbr_eq_sym
    unfolding place_free_def by metis
  ultimately show ?thesis by (simp add: em_layout_def)
qed

lemma em_layout_append: "\<forall>e \<in> set zs. \<not> em_used e \<Longrightarrow> em_layout OID (es @ zs) \<longleftrightarrow> em_layout OID es"
  and em_room_append: "\<forall>e \<in> set zs. \<not> em_used e \<Longrightarrow> em_room OID (es @ zs) \<longleftrightarrow> em_room OID es"
  by (auto simp: em_layout_def em_room_def of_column_def filter_False)

end
