(* ===== verification/Extent_Created.thy ===== *)
theory Extent_Created
  imports Extent_Placement
begin

text \<open>
  What the creating operations do to the set of extents. The abstraction \<open>em_extents\<close> is the
  multiset of the entries in use. A creation always returns: it adds exactly one extent, whose blocks
  come from the free list, or fails because no free range is long enough; the table never lacks an
  unused entry, since it is grown when it is full.
\<close>

definition em_extents :: "ExtentMap \<Rightarrow> EMEntry multiset" where
  "em_extents s = mset (filter em_used (em_entries s))"

lemma em_extents_put:
  assumes "i < length (em_entries s)" "em_entries s' = (em_entries s)[i := e]"
  shows "em_extents s' + (if em_used (em_entries s ! i) then {#em_entries s ! i#} else {#}) =
    em_extents s + (if em_used e then {#e#} else {#})"
  using mset_filter_update [OF assms(1), of "\<lambda>x. x" em_used e] by (simp only: em_extents_def assms(2) list.map_ident)

section \<open>Growth\<close>

lemma em_used_zero [simp]: "\<not> em_used em_zero_entry" and blk_zero [simp]: "blk (em_range em_zero_entry) = {#}"
  by (simp_all add: em_used_def em_zero_entry_def)

lemma sum_list_replicate_empty [simp]: "sum_list (replicate n {#}) = {#}"
  by (induction n) simp_all

lemma em_growEM_ok:
  assumes "em_attached s" "em_entries s \<noteq> []"
  obtains s' where "em_growEMShmseg 0 s = Some s'" "em_entries s' = em_entries s @ replicate 100 em_zero_entry"
    "fl_entries s' = fl_entries s" "em_currentSize s' = em_currentSize s" "fl_currentSize s' = fl_currentSize s"
    "em_attached s'" "fl_attached s' = fl_attached s"
proof -
  have "chooseShmkey KEYRANGE_EXTENTMAP_BASE (em_tableShmkey s) \<noteq> em_tableShmkey s"
    by (rule chooseShmkey_fresh) (simp_all add: KEYRANGE_EXTENTMAP_BASE_def)
  then have "em_growEMShmseg 0 s = Some (s\<lparr>em_entries := em_entries s @ replicate 100 em_zero_entry,
      em_tableShmkey := chooseShmkey KEYRANGE_EXTENTMAP_BASE (em_tableShmkey s),
      em_attached := True, em_mapping := em_mapping s + 1\<rparr>)"
    using assms by (simp add: em_growEMShmseg_def Let_def shm_grow_def EM_INCREMENT_ROWS_def)
  then show thesis by (rule that) simp_all
qed

lemma em_growIfFull_ok:
  assumes inv: "em_inv s"
  obtains s' n where "em_growIfFull s = Some s'" "em_inv s'" "em_entries s' = em_entries s @ replicate n em_zero_entry"
    "fl_entries s' = fl_entries s" "\<exists>k < length (em_entries s'). \<not> em_used (em_entries s' ! k)" "\<not> em_full s \<Longrightarrow> s' = s"
proof (cases "em_full s")
  case True
  obtain s' where s': "em_growEMShmseg 0 s = Some s'" "em_entries s' = em_entries s @ replicate 100 em_zero_entry"
    "fl_entries s' = fl_entries s" "em_currentSize s' = em_currentSize s" "fl_currentSize s' = fl_currentSize s"
    "em_attached s'" "fl_attached s' = fl_attached s"
    using inv by (auto simp: em_inv_def em_wf_def intro: em_growEM_ok)
  have range: "range_ok (em_range em_zero_entry)" by (simp add: em_zero_entry_def range_ok_def)
  have "em_inv s'" using inv s'(3-7) range
    by (auto simp: em_inv_def em_wf_def em_counted_def em_space_def s'(2))
  moreover have "\<exists>k < length (em_entries s'). \<not> em_used (em_entries s' ! k)"
    by (rule exI [of _ "length (em_entries s)"]) (simp add: s'(2) nth_append)
  ultimately show thesis using s' True by (intro that [of s' 100]) (simp_all add: em_growIfFull_def)
next
  case False
  have "\<exists>k < length (em_entries s). \<not> em_used (em_entries s ! k)"
  proof (rule ccontr)
    assume "\<not> ?thesis"
    then have "filter em_used (em_entries s) = em_entries s" by (auto simp: filter_id_conv in_set_conv_nth)
    with False inv show False by (simp add: em_full_def em_inv_def em_counted_def)
  qed
  with False inv show thesis by (intro that [of s 0]) (simp_all add: em_growIfFull_def)
qed

lemma em_extents_grown: "em_entries s' = em_entries s @ replicate n em_zero_entry \<Longrightarrow> em_extents s' = em_extents s"
  by (simp add: em_extents_def)

section \<open>One new entry\<close>

lemma fl_put_entries: "em_entries (fl_put i r s) = em_entries s" and fl_count_entries: "em_entries (fl_count d s) = em_entries s"
  by (simp_all add: em_writes)

lemma em_getLBIDs_cases:
  assumes "em_getLBIDsFromFreeList sz s = (r, s')"
  shows "em_journalled s s'" "\<And>err. r = Inl err \<Longrightarrow> s' = s \<and> (\<forall>x \<in> set (fl_entries s). il_size x < sz)"
    "em_entries s' = em_entries s"
  using assms by (auto simp: em_getLBIDsFromFreeList_def Let_def em_log.journalled_refl fl_put_journalled fl_put_entries
      fl_count_entries index_of_None not_le
      intro: em_log.journalled_trans [OF fl_put_journalled fl_count_journalled]
      split: option.splits if_splits)

lemma em_fill_extents:
  assumes inv: "em_inv s" and sz: "0 < sz" "sz < 2 ^ 22" and lbid: "em_getLBIDsFromFreeList sz s = (Inr lbid, s1)"
    and k: "k < length (em_entries s)" "\<not> em_used (em_entries s ! k)" and e: "em_range e = \<lparr>il_start = lbid, il_size = sz\<rparr>"
  defines "s' \<equiv> em_count sizeof_EMEntry (em_put k e s1)"
  shows "em_inv s'" "em_extents s' = add_mset e (em_extents s)" "em_journalled s s'"
    "em_entries s' = (em_entries s)[k := e]"
proof -
  note lb = em_getLBIDs_ok [OF inv sz lbid]
  have used: "em_used e" using e sz by (simp add: em_used_def)
  show "em_inv s'" unfolding s'_def
    using lb k e used by (intro em_fill_ok) simp_all
  show entries: "em_entries s' = (em_entries s)[k := e]" by (simp add: s'_def em_writes lb)
  show "em_extents s' = add_mset e (em_extents s)"
    using em_extents_put [OF k(1) entries] k(2) used by simp
  show "em_journalled s s'" unfolding s'_def
    by (rule em_log.journalled_trans [OF em_getLBIDs_cases(1) [OF lbid]
      em_log.journalled_trans [OF em_put_journalled em_count_journalled]])
qed

text \<open>The sizes of extents: the widths of columns are 1 to 511 bytes.\<close>

lemma extent_units_bounds:
  assumes "0 < colWidth" "colWidth < 512"
  shows "extent_blocks colWidth div 1024 = colWidth"
  using assms by (simp add: extent_blocks_def getExtentRows_def BLOCK_SIZE_def u32_id)

lemma em_choose_total: "dbRootCount cfg \<noteq> 0 \<Longrightarrow> \<exists>x. em_choose cfg colWidth lst ps = Some x"
  by (auto simp: em_choose_def em_place_def Let_def split: prod.splits)

section \<open>The creating operations\<close>

lemma file_scan_spec:
  assumes typed: "\<forall>e \<in> set es. 0 \<le> em_blockOffset e" and "file_scan_all inFile es = (lst, h, free)"
  shows "case lst of None \<Rightarrow> \<forall>e \<in> set es. \<not> (em_used e \<and> inFile e)
     | Some i \<Rightarrow> i < length es \<and> em_used (es ! i) \<and> inFile (es ! i) \<and>
         (\<forall>e \<in> set es. em_used e \<and> inFile e \<longrightarrow> em_blockOffset e \<le> em_blockOffset (es ! i))"
    "case free of None \<Rightarrow> \<forall>k < length es. em_used (es ! k) | Some k \<Rightarrow> k < length es \<and> \<not> em_used (es ! k)"
proof -
  define J where "J n acc \<longleftrightarrow> (case acc of (lst, h, free) \<Rightarrow>
      (case lst of None \<Rightarrow> h = 0 \<and> (\<forall>k < n. \<not> (em_used (es ! k) \<and> inFile (es ! k)))
       | Some i \<Rightarrow> i < n \<and> em_used (es ! i) \<and> inFile (es ! i) \<and> h = em_blockOffset (es ! i) \<and>
           (\<forall>k < n. em_used (es ! k) \<and> inFile (es ! k) \<longrightarrow> em_blockOffset (es ! k) \<le> h)) \<and>
      (case free of None \<Rightarrow> \<forall>k < n. em_used (es ! k) | Some k \<Rightarrow> k < n \<and> \<not> em_used (es ! k)))" for n acc
  have "J n (fold (file_scan_step inFile es) [0 ..< n] (None, 0, None))" if "n \<le> length es" for n
    using that
  proof (induction n)
    case (Suc n)
    obtain l h f where acc: "fold (file_scan_step inFile es) [0 ..< n] (None, 0, None) = (l, h, f)" by (metis prod_cases3)
    have "0 \<le> em_blockOffset (es ! n)" using typed Suc.prems by simp
    moreover have "J n (l, h, f)" using Suc acc by simp
    ultimately have "J (Suc n) (file_scan_step inFile es n (l, h, f))"
      by (auto simp: J_def file_scan_step_def Let_def less_Suc_eq split: option.splits)
    then show ?case by (simp add: acc)
  qed (simp add: J_def)
  from this [of "length es"] assms(2) have "J (length es) (lst, h, free)" by (simp add: file_scan_all_def)
  then show "case lst of None \<Rightarrow> \<forall>e \<in> set es. \<not> (em_used e \<and> inFile e)
     | Some i \<Rightarrow> i < length es \<and> em_used (es ! i) \<and> inFile (es ! i) \<and>
         (\<forall>e \<in> set es. em_used e \<and> inFile e \<longrightarrow> em_blockOffset e \<le> em_blockOffset (es ! i))"
    "case free of None \<Rightarrow> \<forall>k < length es. em_used (es ! k) | Some k \<Rightarrow> k < length es \<and> \<not> em_used (es ! k)"
    by (auto simp: J_def in_set_conv_nth split: option.splits)
qed

text \<open>What a creation guarantees: the outcome, the invariant, the extents, and that it is journalled
  once the table has been grown.\<close>

definition em_created :: "ExtentMap \<Rightarrow> ExtentMap \<Rightarrow> EMEntry option \<Rightarrow> int \<Rightarrow> bool" where
  "em_created s s' new sz \<longleftrightarrow> em_inv s' \<and>
    (case new of
       None \<Rightarrow> em_extents s' = em_extents s \<and> (\<forall>x \<in> set (fl_entries s). il_size x < sz) \<and>
         (\<exists>n. em_entries s' = em_entries s @ replicate n em_zero_entry)
     | Some e \<Rightarrow> em_extents s' = add_mset e (em_extents s) \<and> em_used e \<and> (\<exists>x \<in> set (fl_entries s). sz \<le> il_size x) \<and>
         (\<exists>n k. em_entries s' = (em_entries s @ replicate n em_zero_entry)[k := e])) \<and>
    (\<not> em_full s \<longrightarrow> em_journalled s s')"

lemma em_created_out_of_space:
  assumes "em_inv s" "em_growIfFull s = Some s1" "em_getLBIDsFromFreeList sz s1 = (Inl err, s2)"
  shows "em_created s s2 None sz"
proof -
  obtain n where "em_inv s1" "em_entries s1 = em_entries s @ replicate n em_zero_entry" "fl_entries s1 = fl_entries s"
    "\<not> em_full s \<Longrightarrow> s1 = s" using em_growIfFull_ok [OF assms(1)] assms(2) by (metis option.inject)
  with em_getLBIDs_cases [OF assms(3)] show ?thesis
    by (auto simp: em_created_def em_extents_def em_log.journalled_refl)
qed

lemma em_created_new:
  assumes "em_inv s" "em_growIfFull s = Some s1" "em_getLBIDsFromFreeList sz s1 = (Inr lbid, s2)" "0 < sz" "sz < 2 ^ 22"
    "k < length (em_entries s1)" "\<not> em_used (em_entries s1 ! k)" "em_range e = \<lparr>il_start = lbid, il_size = sz\<rparr>"
  shows "em_created s (em_count sizeof_EMEntry (em_put k e s2)) (Some e) sz"
proof -
  obtain n where s1: "em_inv s1" "em_entries s1 = em_entries s @ replicate n em_zero_entry" "\<not> em_full s \<Longrightarrow> s1 = s"
      "fl_entries s1 = fl_entries s"
    using em_growIfFull_ok [OF assms(1)] assms(2) by (metis option.inject)
  note fill = em_fill_extents [OF s1(1) assms(4,5,3,6-8)]
  have "\<exists>x \<in> set (fl_entries s). sz \<le> il_size x"
    using assms(3) index_of_SomeD [of "\<lambda>r. sz \<le> il_size r" "fl_entries s1"]
    by (auto simp: em_getLBIDsFromFreeList_def s1(4) split: option.splits)
  moreover have "\<exists>n j. em_entries (em_count sizeof_EMEntry (em_put i e s2)) = (em_entries s @ replicate n em_zero_entry)[j := e]"
    if "i = k" for i using fill(4) s1(2) that by metis
  ultimately show ?thesis using fill(1-3) em_extents_grown [OF s1(2)] s1(3) assms(4,8)
    by (auto simp: em_created_def em_used_def)
qed

lemma em_inv_sizes:
  assumes "em_inv s" "e \<in> set (em_entries s)" "em_used e"
  shows "0 < em_size e"
  using assms by (force simp: em_inv_def em_wf_def range_ok_def em_used_def)

lemma em_scan_free:
  assumes typed: "\<forall>e \<in> set es. em_typed e" and room: "em_room OID es" and layout: "em_layout OID es"
    and sc: "col_scan_inv OID dbRoot partitionNum es (length es) c"
    and sizes: "\<And>e. e \<in> set es \<Longrightarrow> em_used e \<Longrightarrow> 0 < em_size e"
    and ch: "(case cs_last c of
        None \<Rightarrow> Some (partitionNum, case cs_emptySeg c of None \<Rightarrow> 0 | Some h \<Rightarrow> take_bit 16 (h + 1), 0)
      | Some i \<Rightarrow> em_choose cfg colWidth (es ! i) (part_scan_all OID dbRoot (es ! i) es)) = Some (part, seg, off)"
  shows "place_free OID dbRoot es part seg off"
proof (cases "cs_last c")
  case None
  show ?thesis
  proof (cases "cs_emptySeg c")
    case None
    with sc \<open>cs_last c = None\<close> ch show ?thesis by (auto simp: col_scan_inv_def place_free_def in_set_conv_nth)
  next
    case (Some h)
    have h: "0 \<le> h" "\<exists>k < length es. of_column OID (es ! k) \<and> em_segmentNum (es ! k) = h"
        "\<And>k. k < length es \<Longrightarrow> of_column OID (es ! k) \<Longrightarrow> em_partitionNum (es ! k) = partitionNum \<Longrightarrow> em_segmentNum (es ! k) \<le> h"
      using sc None Some by (auto simp: col_scan_inv_def)
    from h(2) room have "h + 1 < 2 ^ 16" by (auto simp: em_room_def)
    with h(1) ch None Some have "part = partitionNum" "seg = h + 1" by (simp_all add: take_bit_int_eq_self)
    with h(3) show ?thesis by (intro place_free_new_file) (force simp: in_set_conv_nth zless_add1_eq)
  qed
next
  case (Some i)
  have i: "i < length es" "of_column OID (es ! i)" "dbr_eq (em_dbRoots (es ! i)) dbRoot"
      "\<And>k. k < length es \<Longrightarrow> of_column OID (es ! k) \<Longrightarrow> dbr_eq (em_dbRoots (es ! k)) dbRoot \<Longrightarrow> pos_le (es ! k) (es ! i)"
    using sc Some by (auto simp: col_scan_inv_def)
  have max: "pos_le e (es ! i)" if "e \<in> set es" "of_column OID e" "dbr_eq (em_dbRoots e) dbRoot" for e
    using that i(4) by (auto simp: in_set_conv_nth)
  have "0 < em_size (es ! i)" using sizes i(1,2) by (simp add: of_column_def)
  with ch Some show ?thesis
    using em_choose_free [OF typed room layout nth_mem [OF i(1)] i(2,3) _ max] by simp
qed

lemma em_createColumnExtent_ok:
  assumes inv: "em_inv s" and typed: "\<forall>e \<in> set (em_entries s). em_typed e" and w: "0 < colWidth" "colWidth < 512"
    and cfg: "dbRootCount cfg \<noteq> 0"
  obtains (full) err s' where "em_createColumnExtent_DBroot cfg OID colWidth dbRoot t partitionNum s = Some (Inl err, s')"
      "em_created s s' None colWidth"
  | (new) lbid part seg off k n s' where
      "em_createColumnExtent_DBroot cfg OID colWidth dbRoot t partitionNum s = Some (Inr (lbid, part, seg, off), s')"
      "em_created s s' (Some (em_new_entry lbid colWidth OID colWidth dbRoot t part seg off)) colWidth"
      "k < length (em_entries s @ replicate n em_zero_entry)" "\<not> em_used ((em_entries s @ replicate n em_zero_entry) ! k)"
      "em_entries s' = (em_entries s @ replicate n em_zero_entry)[k := em_new_entry lbid colWidth OID colWidth dbRoot t part seg off]"
      "em_room OID (em_entries s) \<Longrightarrow> em_layout OID (em_entries s) \<Longrightarrow>
        place_free OID dbRoot (em_entries s @ replicate n em_zero_entry) part seg off"
proof -
  obtain s1 n where s1: "em_growIfFull s = Some s1" "em_inv s1" "em_entries s1 = em_entries s @ replicate n em_zero_entry"
      "\<exists>k < length (em_entries s1). \<not> em_used (em_entries s1 ! k)"
    by (rule em_growIfFull_ok [OF inv])
  note unfold = em_createColumnExtent_DBroot_def em_createColumnExtent0_def s1(1) extent_units_bounds [OF w]
  obtain r s2 where lb: "em_getLBIDsFromFreeList colWidth s1 = (r, s2)" by (cases "em_getLBIDsFromFreeList colWidth s1")
  show thesis
  proof (cases r)
    case (Inl err)
    show thesis using lb Inl by (intro full [of err s2] em_created_out_of_space [OF inv s1(1)]) (simp_all add: unfold)
  next
    case (Inr lbid)
    let ?es = "em_entries s1"
    have es2: "em_entries s2 = ?es" using em_getLBIDs_cases(3) [OF lb] .
    have "em_typed em_zero_entry" by (simp add: em_typed_def em_zero_entry_def dbr_zero_def MAX_DATA_REPLICATESIZE_def)
    with typed have typed1: "\<forall>e \<in> set ?es. em_typed e" by (auto simp: s1(3))
    let ?c = "col_scan_all OID dbRoot partitionNum ?es"
    note sc = col_scan_spec [OF typed1, of OID dbRoot partitionNum]
    obtain k where k: "cs_free ?c = Some k" "k < length ?es" "\<not> em_used (?es ! k)"
      using sc s1(4) by (auto simp: col_scan_inv_def split: option.splits)
    obtain part seg off where ch: "(case cs_last ?c of
          None \<Rightarrow> Some (partitionNum, case cs_emptySeg ?c of None \<Rightarrow> 0 | Some h \<Rightarrow> take_bit 16 (h + 1), 0)
        | Some i \<Rightarrow> em_choose cfg colWidth (?es ! i) (part_scan_all OID dbRoot (?es ! i) ?es)) = Some (part, seg, off)"
      using em_choose_total [OF cfg] by (cases "cs_last ?c") (auto, metis prod_cases3)
    let ?e = "em_new_entry lbid colWidth OID colWidth dbRoot t part seg off"
    have "em_createColumnExtent_DBroot cfg OID colWidth dbRoot t partitionNum s =
        Some (Inr (lbid, part, seg, off), em_count sizeof_EMEntry (em_put k ?e s2))"
      unfolding unfold Let_def bind.bind_lunit lb Inr prod.case sum.case es2 k(1) option.case ch by simp
    moreover have "em_created s (em_count sizeof_EMEntry (em_put k ?e s2)) (Some ?e) colWidth"
      using lb Inr w k by (intro em_created_new [OF inv s1(1)]) (simp_all add: em_new_entry_def)
    moreover have "place_free OID dbRoot ?es part seg off" if "em_room OID (em_entries s)" "em_layout OID (em_entries s)"
      using em_scan_free [OF typed1 _ _ sc em_inv_sizes [OF s1(2)] ch] that
      by (simp add: s1(3) em_room_append em_layout_append)
    ultimately show thesis using k s1(3)
      by (intro new [of lbid part seg off "em_count sizeof_EMEntry (em_put k ?e s2)" k n]) (simp_all add: em_writes es2)
  qed
qed

lemma em_next_offset_fresh:
  assumes sc: "case lst of None \<Rightarrow> \<forall>e \<in> set es. \<not> (em_used e \<and> inFile e)
     | Some i \<Rightarrow> i < length es \<and> em_used (es ! i) \<and> inFile (es ! i) \<and>
         (\<forall>e \<in> set es. em_used e \<and> inFile e \<longrightarrow> em_blockOffset e \<le> em_blockOffset (es ! i))"
    and sizes: "\<And>e. e \<in> set es \<Longrightarrow> em_used e \<Longrightarrow> 0 < em_size e"
    and room: "\<And>e. e \<in> set es \<Longrightarrow> em_used e \<Longrightarrow> inFile e \<Longrightarrow> 0 \<le> em_blockOffset e \<and> em_size e * 1024 + em_blockOffset e < 2 ^ 32"
    and e: "e \<in> set es" "em_used e" "inFile e"
  shows "em_blockOffset e < em_next_offset es lst"
proof (cases lst)
  case None
  with sc e show ?thesis by auto
next
  case (Some i)
  with sc have i: "es ! i \<in> set es" "em_used (es ! i)" "inFile (es ! i)" "em_blockOffset e \<le> em_blockOffset (es ! i)"
    using e by auto
  from sizes [OF i(1,2)] room [OF i(1-3)] i(4) Some show ?thesis by (simp add: em_next_offset_def u32_id)
qed

lemma em_next_offset_bounds: "0 \<le> em_next_offset es lst" "em_next_offset es lst < 2 ^ 32"
  by (simp_all add: em_next_offset_def split: option.split)

text \<open>The common course of the two operations on a given file.\<close>

lemma em_create_in_file_ok:
  assumes inv: "em_inv s" and typed: "\<forall>e \<in> set (em_entries s). 0 \<le> em_blockOffset e" and sz: "0 < sz" "sz < 2 ^ 22"
    and grow: "em_growIfFull s = Some s1" and lb: "em_getLBIDsFromFreeList sz s1 = (Inr lbid, s2)"
    and rng: "\<And>lst k. em_range (mk lst k) = \<lparr>il_start = lbid, il_size = sz\<rparr>"
  obtains lst h k where "file_scan_all inFile (em_entries s2) = (lst, h, Some k)"
    "k < length (em_entries s2)" "\<And>i. lst = Some i \<Longrightarrow> i < length (em_entries s2)"
    "set (em_entries s2) \<subseteq> insert em_zero_entry (set (em_entries s))"
    "em_created s (em_count sizeof_EMEntry (em_put k (mk lst k) s2)) (Some (mk lst k)) sz"
    "\<forall>e \<in> set (em_entries s). em_used e \<longrightarrow> inFile e \<longrightarrow> em_size e * 1024 + em_blockOffset e < 2 ^ 32 \<Longrightarrow>
      \<forall>e \<in> set (em_entries s). em_used e \<longrightarrow> inFile e \<longrightarrow> em_blockOffset e < em_next_offset (em_entries s2) lst"
proof -
  obtain n where s1: "em_inv s1" "em_entries s1 = em_entries s @ replicate n em_zero_entry"
      "\<exists>k < length (em_entries s1). \<not> em_used (em_entries s1 ! k)"
    using em_growIfFull_ok [OF inv] grow by (metis option.inject)
  have zero: "0 \<le> em_blockOffset em_zero_entry" by (simp add: em_zero_entry_def)
  have typed1: "\<forall>e \<in> set (em_entries s1). 0 \<le> em_blockOffset e" using typed zero by (auto simp: s1(2))
  have es: "em_entries s2 = em_entries s1" using em_getLBIDs_cases(3) [OF lb] .
  obtain lst h f where f: "file_scan_all inFile (em_entries s1) = (lst, h, f)" by (cases "file_scan_all inFile (em_entries s1)")
  note sp = file_scan_spec [OF typed1 f]
  from sp(2) s1(3) obtain k where k: "f = Some k" "k < length (em_entries s1)" "\<not> em_used (em_entries s1 ! k)"
    by (auto split: option.splits)
  show thesis
  proof (rule that)
    show "file_scan_all inFile (em_entries s2) = (lst, h, Some k)" using f k(1) es by simp
    show "k < length (em_entries s2)" using k(2) es by simp
    show "i < length (em_entries s2)" if "lst = Some i" for i using sp(1) that es by simp
    show "set (em_entries s2) \<subseteq> insert em_zero_entry (set (em_entries s))" by (auto simp: es s1(2))
    show "em_created s (em_count sizeof_EMEntry (em_put k (mk lst k) s2)) (Some (mk lst k)) sz"
      by (rule em_created_new [OF inv grow lb sz k(2,3) rng])
    assume room: "\<forall>e \<in> set (em_entries s). em_used e \<longrightarrow> inFile e \<longrightarrow> em_size e * 1024 + em_blockOffset e < 2 ^ 32"
    have "em_blockOffset e < em_next_offset (em_entries s1) lst" if e: "e \<in> set (em_entries s)" "em_used e" "inFile e" for e
    proof (rule em_next_offset_fresh [OF sp(1) em_inv_sizes [OF s1(1)]])
      show "e \<in> set (em_entries s1)" "em_used e" "inFile e" using e by (simp_all add: s1(2))
      show "0 \<le> em_blockOffset e' \<and> em_size e' * 1024 + em_blockOffset e' < 2 ^ 32"
        if "e' \<in> set (em_entries s1)" "em_used e'" "inFile e'" for e'
        using that room typed1 by (auto simp: s1(2))
    qed
    then show "\<forall>e \<in> set (em_entries s). em_used e \<longrightarrow> inFile e \<longrightarrow> em_blockOffset e < em_next_offset (em_entries s2) lst"
      unfolding es by blast
  qed
qed

definition in_file :: "OID_t \<Rightarrow> DBROOTS_struct \<Rightarrow> int \<Rightarrow> int \<Rightarrow> EMEntry \<Rightarrow> bool" where
  "in_file OID dbRoot part seg e \<longleftrightarrow> em_fileID e = OID \<and> em_dbRoots e ! 0 = dbRoot ! 0 \<and>
    em_partitionNum e = part \<and> em_segmentNum e = seg"

lemma em_createExactFile_ok:
  assumes inv: "em_inv s" and typed: "\<forall>e \<in> set (em_entries s). 0 \<le> em_blockOffset e" and w: "0 < colWidth" "colWidth < 512"
  obtains (full) err s' where "em_createColumnExtentExactFile OID colWidth dbRoot part seg t s = Some (Inl err, s')"
      "em_created s s' None colWidth"
  | (new) lbid off s' where "em_createColumnExtentExactFile OID colWidth dbRoot part seg t s = Some (Inr (lbid, off), s')"
      "em_created s s' (Some (em_new_entry lbid colWidth OID colWidth dbRoot t part seg off)) colWidth"
      "\<forall>e \<in> set (em_entries s). em_used e \<longrightarrow> in_file OID dbRoot part seg e \<longrightarrow> em_size e * 1024 + em_blockOffset e < 2 ^ 32 \<Longrightarrow>
        \<forall>e \<in> set (em_entries s). em_used e \<longrightarrow> in_file OID dbRoot part seg e \<longrightarrow> em_blockOffset e < off"
      "0 \<le> off \<and> off < 2 ^ 32"
proof -
  let ?f = "\<lambda>e. em_fileID e = OID \<and> em_dbRoots e ! 0 = dbRoot ! 0 \<and> em_partitionNum e = part \<and> em_segmentNum e = seg"
  have sz: "colWidth < 2 ^ 22" using w by simp
  obtain s1 where s1: "em_growIfFull s = Some s1" by (rule em_growIfFull_ok [OF inv])
  obtain r s2 where lb: "em_getLBIDsFromFreeList colWidth s1 = (r, s2)" by (cases "em_getLBIDsFromFreeList colWidth s1")
  let ?mk = "\<lambda>lbid lst k. em_new_entry lbid colWidth OID colWidth dbRoot t part seg (em_next_offset (em_entries s2) lst)"
  show thesis
  proof (cases r)
    case (Inl err)
    show thesis
      using s1 lb Inl by (intro full [of err s2] em_created_out_of_space [OF inv s1])
        (simp_all add: em_createColumnExtentExactFile_def extent_units_bounds [OF w])
  next
    case (Inr lbid)
    obtain lst h k where f: "file_scan_all ?f (em_entries s2) = (lst, h, Some k)"
      and res: "em_created s (em_count sizeof_EMEntry (em_put k (?mk lbid lst k) s2)) (Some (?mk lbid lst k)) colWidth"
      and off: "\<forall>e \<in> set (em_entries s). em_used e \<longrightarrow> ?f e \<longrightarrow> em_size e * 1024 + em_blockOffset e < 2 ^ 32 \<Longrightarrow>
          \<forall>e \<in> set (em_entries s). em_used e \<longrightarrow> ?f e \<longrightarrow> em_blockOffset e < em_next_offset (em_entries s2) lst"
      by (rule em_create_in_file_ok [OF inv typed w(1) sz s1 lb [unfolded Inr], of "?mk lbid" ?f])
        (simp_all add: em_new_entry_def)
    show thesis
      using s1 lb Inr f res off em_next_offset_bounds by (intro new [of lbid "em_next_offset (em_entries s2) lst" "em_count sizeof_EMEntry (em_put k (?mk lbid lst k) s2)"])
        (simp_all add: em_createColumnExtentExactFile_def extent_units_bounds [OF w] Let_def in_file_def)
  qed
qed

lemma em_createDict_ok:
  assumes inv: "em_inv s" and typed: "\<forall>e \<in> set (em_entries s). 0 \<le> em_blockOffset e"
  obtains (full) err s' where "em_createDictStoreExtent OID dbRoot part seg s = Some (Inl err, s')" "em_created s s' None 8"
  | (new) lbid e s' where "em_createDictStoreExtent OID dbRoot part seg s = Some (Inr lbid, s')"
      "em_created s s' (Some e) 8" "em_fileID e = OID" "em_start e = lbid" "em_size e = 8"
      "\<forall>e \<in> set (em_entries s). em_typed e \<Longrightarrow> 0 \<le> part \<Longrightarrow> part < 2 ^ 32 \<Longrightarrow> 0 \<le> seg \<Longrightarrow> seg < 2 ^ 16 \<Longrightarrow>
        length dbRoot = MAX_DATA_REPLICATESIZE \<Longrightarrow> em_typed e"
proof -
  let ?f = "\<lambda>e. em_fileID e = OID \<and> em_partitionNum e = part \<and> em_segmentNum e = seg"
  have sz: "(0::int) < 8" "(8::int) < 2 ^ 22" "extent_blocks DICT_COL_WIDTH div 1024 = 8"
    by (simp_all add: extent_units_bounds DICT_COL_WIDTH_def)
  obtain s1 where s1: "em_growIfFull s = Some s1" by (rule em_growIfFull_ok [OF inv])
  obtain r s2 where lb: "em_getLBIDsFromFreeList 8 s1 = (r, s2)" by (cases "em_getLBIDsFromFreeList 8 s1")
  let ?mk = "\<lambda>lbid lst k. em_dict_entry lbid 8 OID dbRoot part seg (em_next_offset (em_entries s2) lst)
    (map_option ((!) (em_entries s2)) lst) (em_entries s2 ! k)"
  have fields: "em_range (?mk lbid lst k) = \<lparr>il_start = lbid, il_size = 8\<rparr>" "em_fileID (?mk lbid lst k) = OID" for lbid lst k
    by (simp_all add: em_dict_entry_def Let_def split: option.split)
  show thesis
  proof (cases r)
    case (Inl err)
    show thesis
      using s1 lb Inl by (intro full [of err s2] em_created_out_of_space [OF inv s1])
        (simp_all add: em_createDictStoreExtent_def sz(3))
  next
    case (Inr lbid)
    obtain lst h k where f: "file_scan_all ?f (em_entries s2) = (lst, h, Some k)"
      and k: "k < length (em_entries s2)" "\<And>i. lst = Some i \<Longrightarrow> i < length (em_entries s2)"
      and all: "set (em_entries s2) \<subseteq> insert em_zero_entry (set (em_entries s))"
      and res: "em_created s (em_count sizeof_EMEntry (em_put k (?mk lbid lst k) s2)) (Some (?mk lbid lst k)) 8"
      by (rule em_create_in_file_ok [OF inv typed sz(1,2) s1 lb [unfolded Inr], of "?mk lbid" ?f]) (simp_all add: fields)
    have typed': "em_typed (?mk lbid lst k)" if t: "\<forall>e \<in> set (em_entries s). em_typed e" "0 \<le> part" "part < 2 ^ 32"
      "0 \<le> seg" "seg < 2 ^ 16" "length dbRoot = MAX_DATA_REPLICATESIZE"
    proof -
      have "em_typed em_zero_entry" by (simp add: em_typed_def em_zero_entry_def dbr_zero_def MAX_DATA_REPLICATESIZE_def)
      then have all_typed: "\<forall>e \<in> set (em_entries s2). em_typed e" using all t(1) by auto
      then have "em_typed (em_entries s2 ! k)" using k(1) by simp
      moreover have "em_typed (em_entries s2 ! i)" if "lst = Some i" for i using all_typed k(2) [OF that] by simp
      ultimately show ?thesis using t(2-6) em_next_offset_bounds [of "em_entries s2" lst]
        by (auto simp: em_dict_entry_def Let_def em_typed_def split: option.split)
    qed
    show thesis
      using s1 lb Inr f res fields typed'
      by (intro new [of lbid "em_count sizeof_EMEntry (em_put k (?mk lbid lst k) s2)" "?mk lbid lst k"])
        (simp_all add: em_createDictStoreExtent_def sz(3) Let_def)
  qed
qed

end
