(* ===== verification/Extent_Sweep.thy ===== *)
theory Extent_Sweep
  imports Extent_Created
begin

text \<open>
  The loops over the extent map that decide for each entry in turn whether to leave it, write it or
  delete its extent. The decision is a function from the local variables of the loop and the entry
  to an action; \<open>em_sweep\<close> runs it over the table with \<^verbatim>\<open>makeUndoRecord\<close> and
  \<^verbatim>\<open>deleteExtent\<close>. The locale \<open>em_sweeper\<close> states what a decision has to
  respect; it gives that the loop ends, keeps the block space, and does to each entry what was
  decided for it, although deletions rewrite the free list in between.
\<close>

text \<open>\<open>WriteRaw\<close> assigns without an undo record; \<open>Trap\<close> is a division by zero.\<close>

datatype em_action = Keep | Write EMEntry | WriteRaw EMEntry | Delete | Trap

primrec em_apply :: "em_action \<Rightarrow> nat \<Rightarrow> ExtentMap \<Rightarrow> ExtentMap option" where
  "em_apply Keep i s = Some s"
| "em_apply (Write e) i s = Some (em_put i e s)"
| "em_apply (WriteRaw e) i s = Some (s\<lparr>em_entries := (em_entries s)[i := e]\<rparr>)"
| "em_apply Delete i s = em_deleteExtent i s"
| "em_apply Trap i s = None"

primrec em_sweep :: "('a \<Rightarrow> EMEntry \<Rightarrow> 'a \<times> em_action) \<Rightarrow> 'a \<Rightarrow> nat list \<Rightarrow> ExtentMap
    \<Rightarrow> ('a \<times> ExtentMap) option" where
  "em_sweep f a [] s = Some (a, s)"
| "em_sweep f a (i # is) s = do {
     let (a', act) = f a (em_entries s ! i);
     s' \<leftarrow> em_apply act i s;
     em_sweep f a' is s'
   }"

definition em_sweep_all :: "('a \<Rightarrow> EMEntry \<Rightarrow> 'a \<times> em_action) \<Rightarrow> 'a \<Rightarrow> ExtentMap \<Rightarrow> ('a \<times> ExtentMap) option" where
  "em_sweep_all f a s = em_sweep f a [0 ..< length (em_entries s)] s"

section \<open>The effect on the entries\<close>

definition em_freed :: "EMEntry \<Rightarrow> EMEntry" where
  "em_freed e = e\<lparr>em_range := (em_range e)\<lparr>il_size := 0\<rparr>\<rparr>"

primrec act_entry :: "em_action \<Rightarrow> EMEntry \<Rightarrow> EMEntry" where
  "act_entry Keep e = e"
| "act_entry (Write e') e = e'"
| "act_entry (WriteRaw e') e = e'"
| "act_entry Delete e = em_freed e"
| "act_entry Trap e = e"

primrec swept :: "('a \<Rightarrow> EMEntry \<Rightarrow> 'a \<times> em_action) \<Rightarrow> 'a \<Rightarrow> EMEntry list \<Rightarrow> EMEntry list" where
  "swept f a [] = []"
| "swept f a (e # es) = (let (a', act) = f a e in act_entry act e # swept f a' es)"

primrec swept_acc :: "('a \<Rightarrow> EMEntry \<Rightarrow> 'a \<times> em_action) \<Rightarrow> 'a \<Rightarrow> EMEntry list \<Rightarrow> 'a" where
  "swept_acc f a [] = a"
| "swept_acc f a (e # es) = swept_acc f (fst (f a e)) es"

lemma length_swept [simp]: "length (swept f a es) = length es"
  by (induction es arbitrary: a) (simp_all split: prod.splits)

lemma em_used_freed [simp]: "\<not> em_used (em_freed e)"
  by (simp add: em_used_def em_freed_def)

text \<open>A decision that does not depend on the local variables, as far as they can occur, works entry by
  entry.\<close>

lemma swept_map:
  assumes "\<And>a e. Q a \<Longrightarrow> e \<in> set es \<Longrightarrow> Q (fst (f a e)) \<and> snd (f a e) = g e"
  shows "Q a \<Longrightarrow> swept f a es = map (\<lambda>e. act_entry (g e) e) es"
  using assms
proof (induction es arbitrary: a)
  case (Cons e es)
  obtain a' act where act: "f a e = (a', act)" by (cases "f a e")
  with Cons.prems(2) [OF Cons.prems(1), of e] have "Q a'" "act = g e" by simp_all
  with Cons.IH [of a'] Cons.prems(2) act show ?case by simp
qed simp

text \<open>What a decision keeps of the entries, given what it keeps of its local variables.\<close>

lemma swept_state:
  assumes "\<And>a e. Q a \<Longrightarrow> P e \<Longrightarrow> Q (fst (f a e)) \<and> P (act_entry (snd (f a e)) e)"
  shows "Q a \<Longrightarrow> \<forall>e \<in> set es. P e \<Longrightarrow> \<forall>e \<in> set (swept f a es). P e"
proof (induction es arbitrary: a)
  case (Cons e es)
  obtain a' act where act: "f a e = (a', act)" by (cases "f a e")
  with assms [of a e] Cons show ?case by auto
qed simp

definition em_small :: "ExtentMap \<Rightarrow> bool" where
  "em_small s \<longleftrightarrow> (\<forall>e \<in> set (em_entries s). em_size e < 2 ^ 22)"

lemma em_raw_inv:
  assumes "em_inv s" "i < length (em_entries s)" "em_range e = em_range (em_entries s ! i)"
  shows "em_inv (s\<lparr>em_entries := (em_entries s)[i := e]\<rparr>)"
proof -
  have "em_inv (em_put i e s)" by (rule em_put_inv [OF assms])
  then show ?thesis by (simp add: em_inv_def em_wf_def em_counted_def em_space_def em_writes)
qed

locale em_sweeper =
  fixes f :: "'a \<Rightarrow> EMEntry \<Rightarrow> 'a \<times> em_action"
  assumes write_range: "snd (f a e) = Write e' \<or> snd (f a e) = WriteRaw e' \<Longrightarrow> em_range e' = em_range e"
    and delete_used: "snd (f a e) = Delete \<Longrightarrow> em_used e"
    and no_trap: "0 \<le> em_size e \<Longrightarrow> em_size e < 2 ^ 22 \<Longrightarrow> snd (f a e) \<noteq> Trap"
begin

lemma apply_ok:
  assumes inv: "em_inv s" and i: "i < length (em_entries s)" "em_size (em_entries s ! i) < 2 ^ 22"
  obtains s' where "em_apply (snd (f a (em_entries s ! i))) i s = Some s'" "em_inv s'"
    "em_entries s' = (em_entries s)[i := act_entry (snd (f a (em_entries s ! i))) (em_entries s ! i)]"
proof (cases "snd (f a (em_entries s ! i))")
  case Keep
  with inv show thesis by (intro that [of s]) simp_all
next
  case (Write e)
  with em_put_inv [OF inv i(1) write_range] show thesis
    by (intro that [of "em_put i e s"]) (auto simp: em_writes)
next
  case (WriteRaw e)
  with em_raw_inv [OF inv i(1) write_range] show thesis
    by (intro that [of "s\<lparr>em_entries := (em_entries s)[i := e]\<rparr>"]) auto
next
  case Delete
  from em_deleteExtent_ok [OF inv i(1) delete_used [OF Delete]] obtain s' where "em_deleteExtent i s = Some s'" "em_inv s'"
    "em_entries s' = (em_entries s)[i := em_freed (em_entries s ! i)]" unfolding em_freed_def by blast
  with Delete show thesis by (intro that [of s']) simp_all
next
  case Trap
  have "0 \<le> em_size (em_entries s ! i)" using em_inv_range_ok(1) [OF inv i(1)] by (simp add: range_ok_def)
  with Trap no_trap i(2) show thesis by blast
qed

lemma sweep_from:
  assumes "em_inv s" "em_small s" "em_entries s = pre @ es"
  shows "\<exists>s'. em_sweep f a [length pre ..< length (em_entries s)] s = Some (swept_acc f a es, s') \<and> em_inv s' \<and> em_entries s' = pre @ swept f a es"
  using assms
proof (induction es arbitrary: a pre s)
  case Nil
  then show ?case by simp
next
  case (Cons e es)
  let ?i = "length pre"
  have i: "?i < length (em_entries s)" "em_entries s ! ?i = e" using Cons.prems by simp_all
  have small: "em_size (em_entries s ! ?i) < 2 ^ 22" using Cons.prems(2,3) i by (simp add: em_small_def)
  obtain a' act where act: "f a e = (a', act)" by (cases "f a e")
  obtain s1 where s1: "em_apply act ?i s = Some s1" "em_inv s1" "em_entries s1 = (pre @ [act_entry act e]) @ es"
    using apply_ok [OF Cons.prems(1) i(1) small, of a] act i(2) Cons.prems(3) by auto
  have range: "em_size (act_entry act e) \<le> em_size e \<or> em_size (act_entry act e) = 0"
    using write_range [of a e] act by (cases act) (auto simp: em_freed_def)
  have "em_small s1" using Cons.prems(2,3) s1(3) range by (force simp: em_small_def)
  from Cons.IH [OF s1(2) this s1(3), of a'] obtain s' where s':
      "em_sweep f a' [Suc ?i ..< length (em_entries s1)] s1 = Some (swept_acc f a' es, s')" "em_inv s'"
      "em_entries s' = (pre @ [act_entry act e]) @ swept f a' es" by auto
  have len: "length (em_entries s1) = length (em_entries s)" using s1(3) Cons.prems(3) by simp
  have "em_sweep f a [?i ..< length (em_entries s)] s = Some (swept_acc f a' es, s')"
    using s1(1) s'(1) unfolding upt_conv_Cons [OF i(1)] em_sweep.simps i(2) act len by simp
  with s'(2,3) show ?case by (simp add: act)
qed

lemma swept_sizes: "\<forall>e \<in> set es. em_size e < 2 ^ 22 \<Longrightarrow> \<forall>e \<in> set (swept f a es). em_size e < 2 ^ 22"
proof (induction es arbitrary: a)
  case (Cons e es)
  obtain a' act where act: "f a e = (a', act)" by (cases "f a e")
  have "em_size (act_entry act e) < 2 ^ 22"
    using write_range [of a e] act Cons.prems by (cases act) (auto simp: em_freed_def)
  with Cons.IH [of a'] Cons.prems act show ?case by simp
qed simp

lemma sweep_ok:
  assumes "em_inv s" "em_small s"
  obtains s' where "em_sweep_all f a s = Some (swept_acc f a (em_entries s), s')" "em_inv s'" "em_entries s' = swept f a (em_entries s)"
  using sweep_from [OF assms, of "[]" "em_entries s" a] that by (auto simp: em_sweep_all_def)

end

end
