(* ===== verification/Extent_Delete.thy ===== *)
theory Extent_Delete
  imports Extent_Sweep
begin

text \<open>
  The operations that delete extents: \<^verbatim>\<open>deleteOID\<close>, \<^verbatim>\<open>deleteOIDs\<close>,
  \<^verbatim>\<open>deleteDBRoot\<close>, the two rollbacks and the two \<^verbatim>\<open>deleteEmpty...\<close> operations
  of \<^verbatim>\<open>extentmap.cpp\<close>, each a sweep over the table. The local variables
  \<^verbatim>\<open>fboLo\<close>, \<^verbatim>\<open>fboHi\<close> and \<^verbatim>\<open>fboLoPreviousStripe\<close>, which are set
  at the first extent that matches, are the state of the sweep.
\<close>

section \<open>deleteOID, deleteOIDs, deleteDBRoot\<close>

definition deleteOID_act :: "OID_t \<Rightarrow> bool \<Rightarrow> EMEntry \<Rightarrow> bool \<times> em_action" where
  "deleteOID_act OID OIDExists e =
    (if em_used e \<and> em_fileID e = OID then (True, Delete) else (OIDExists, Keep))"

definition em_deleteOID :: "OID_t \<Rightarrow> ExtentMap \<Rightarrow> (unit res \<times> ExtentMap) option" where
  "em_deleteOID OID s = do {
     (OIDExists, s') \<leftarrow> em_sweep_all (deleteOID_act OID) False s;
     Some (if OIDExists then Inr ()
           else Inl (Invalid_argument ''ExtentMap::deleteOID(): There are no extent entries for OID ''), s')
   }"

definition deleteOIDs_act :: "OID_t list \<Rightarrow> unit \<Rightarrow> EMEntry \<Rightarrow> unit \<times> em_action" where
  "deleteOIDs_act OIDs u e = ((), if em_used e \<and> em_fileID e \<in> set OIDs then Delete else Keep)"

definition em_deleteOIDs :: "OID_t list \<Rightarrow> ExtentMap \<Rightarrow> ExtentMap option" where
  "em_deleteOIDs OIDs s = map_option snd (em_sweep_all (deleteOIDs_act OIDs) () s)"

definition deleteDBRoot_act :: "uint16 \<Rightarrow> unit \<Rightarrow> EMEntry \<Rightarrow> unit \<times> em_action" where
  "deleteDBRoot_act dbr u e = ((),
     if em_used e then
       (if em_dbRoots e ! 0 = dbr \<and> em_dbRoots e ! 1 = 0 then Delete
        else WriteRaw (e\<lparr>em_dbRoots := snd (dbr_remove dbr (em_dbRoots e))\<rparr>))
     else Keep)"

definition em_deleteDBRoot :: "uint16 \<Rightarrow> ExtentMap \<Rightarrow> ExtentMap option" where
  "em_deleteDBRoot dbr s = map_option snd (em_sweep_all (deleteDBRoot_act dbr) () s)"

section \<open>Rolling back to a high water mark\<close>

record fbo_window =
  fw_lo :: int
  fw_hi :: int
  fw_prev :: int

definition fbo_window0 :: fbo_window where
  "fbo_window0 = \<lparr>fw_lo = 0, fw_hi = 0, fw_prev = 0\<rparr>"

text \<open>"Calculate fbo range for the stripe containing the given hwm", once. \<open>None\<close>:
  \<^verbatim>\<open>hwm % range\<close> with a range that wrapped to zero.\<close>

definition fbo_range :: "EMEntry \<Rightarrow> int" where
  "fbo_range e = u32 (em_size e * 1024)"

definition fw_calc :: "HWM_t \<Rightarrow> EMEntry \<Rightarrow> fbo_window \<Rightarrow> fbo_window option" where
  "fw_calc hwm e w =
    (if fw_hi w \<noteq> 0 then Some w
     else if fbo_range e = 0 then None
     else
       let lo = u32 (hwm - hwm mod fbo_range e)
       in Some \<lparr>fw_lo = lo, fw_hi = u32 (lo + fbo_range e - 1),
            fw_prev = (if lo > 0 then u32 (lo - fbo_range e) else fw_prev w)\<rparr>)"

definition reset_hwm :: "HWM_t \<Rightarrow> EMEntry \<Rightarrow> em_action" where
  "reset_hwm h e = (if em_HWM e \<noteq> h then Write (e\<lparr>em_HWM := h, em_status := EXTENTAVAILABLE\<rparr>) else Keep)"

text \<open>The cases 1 to 5, shared by \<^verbatim>\<open>rollbackColumnExtents_DBroot\<close> and
  \<^verbatim>\<open>deleteEmptyColExtents\<close>.\<close>

definition stripe_act :: "int \<Rightarrow> int \<Rightarrow> HWM_t \<Rightarrow> fbo_window \<Rightarrow> EMEntry \<Rightarrow> em_action" where
  "stripe_act partitionNum segmentNum hwm w e =
    (if em_partitionNum e > partitionNum then Delete
     else if em_partitionNum e = partitionNum then
       (if em_blockOffset e > fw_hi w then Delete
        else if em_blockOffset e < fw_lo w then
          (if em_blockOffset e \<ge> fw_prev w \<and> em_segmentNum e > segmentNum then reset_hwm (u32 (fw_lo w - 1)) e else Keep)
        else if em_segmentNum e > segmentNum then Delete
        else if em_segmentNum e < segmentNum then reset_hwm (fw_hi w) e
        else reset_hwm hwm e)
     else Keep)"

definition rollbackColumn_act ::
  "OID_t \<Rightarrow> bool \<Rightarrow> DBROOTS_struct \<Rightarrow> int \<Rightarrow> int \<Rightarrow> HWM_t \<Rightarrow> fbo_window \<Rightarrow> EMEntry \<Rightarrow> fbo_window \<times> em_action" where
  "rollbackColumn_act oid bDeleteAll dbRoot partitionNum segmentNum hwm w e =
    (if em_used e \<and> em_fileID e = oid \<and> dbr_eq (em_dbRoots e) dbRoot then
       (if em_status e = EXTENTOUTOFSERVICE then (w, Keep)
        else if bDeleteAll then (w, Delete)
        else case fw_calc hwm e w of
               None \<Rightarrow> (w, Trap)
             | Some w' \<Rightarrow> (w', stripe_act partitionNum segmentNum hwm w' e))
     else (w, Keep))"

definition em_rollbackColumnExtents_DBroot ::
  "OID_t \<Rightarrow> bool \<Rightarrow> DBROOTS_struct \<Rightarrow> int \<Rightarrow> int \<Rightarrow> HWM_t \<Rightarrow> ExtentMap \<Rightarrow> ExtentMap option" where
  "em_rollbackColumnExtents_DBroot oid bDeleteAll dbRoot partitionNum segmentNum hwm s =
    map_option snd (em_sweep_all (rollbackColumn_act oid bDeleteAll dbRoot partitionNum segmentNum hwm) fbo_window0 s)"

text \<open>The map from the segment files to the high water mark and the start of its stripe.\<close>

primrec seg_to_hwm :: "int \<Rightarrow> (int \<times> HWM_t) list \<Rightarrow> (int \<times> int) std_map \<Rightarrow> (int \<times> int) std_map" where
  "seg_to_hwm rng [] m = m"
| "seg_to_hwm rng (x # xs) m = seg_to_hwm rng xs (sm_put (fst x) (snd x, u32 (snd x - snd x mod rng)) m)"

definition rollbackDict_act ::
  "OID_t \<Rightarrow> DBROOTS_struct \<Rightarrow> int \<Rightarrow> (int \<times> HWM_t) list \<Rightarrow> (int \<times> int) std_map \<Rightarrow> EMEntry
    \<Rightarrow> (int \<times> int) std_map \<times> em_action" where
  "rollbackDict_act oid dbRoot partitionNum segHwms m e =
    (if em_used e \<and> em_fileID e = oid \<and> dbr_eq (em_dbRoots e) dbRoot then
       (if em_status e = EXTENTOUTOFSERVICE then (m, Keep)
        else if segHwms = [] then (m, Delete)
        else if m = [] \<and> fbo_range e = 0 then (m, Trap)
        else
          let m' = (if m = [] then seg_to_hwm (fbo_range e) segHwms [] else m)
          in (m',
              if em_partitionNum e > partitionNum then Delete
              else if em_partitionNum e = partitionNum then
                (case map_of m' (em_segmentNum e) of
                   None \<Rightarrow> Delete
                 | Some (hwm, fboLo) \<Rightarrow>
                     if em_blockOffset e < fboLo then Keep
                     else if em_blockOffset e = fboLo then reset_hwm hwm e
                     else Delete)
              else Keep))
     else (m, Keep))"

text \<open>\<^verbatim>\<open>segNums\<close> and \<^verbatim>\<open>hwms\<close> are indexed up to the length of \<^verbatim>\<open>hwms\<close>:
  \<open>None\<close> when \<^verbatim>\<open>segNums\<close> is shorter.\<close>

definition em_rollbackDictStoreExtents_DBroot ::
  "OID_t \<Rightarrow> DBROOTS_struct \<Rightarrow> int \<Rightarrow> int list \<Rightarrow> HWM_t list \<Rightarrow> ExtentMap \<Rightarrow> ExtentMap option" where
  "em_rollbackDictStoreExtents_DBroot oid dbRoot partitionNum segNums hwms s =
    (if length segNums < length hwms then None
     else map_option snd (em_sweep_all (rollbackDict_act oid dbRoot partitionNum (zip segNums hwms)) [] s))"

section \<open>Deleting empty extents\<close>

record ExtentInfo =
  ei_partitionNum :: int
  ei_segmentNum :: int
  ei_dbRoot :: DBROOTS_struct
  ei_hwm :: HWM_t
  ei_newFile :: bool

definition deleteEmptyCol_act ::
  "(OID_t \<times> ExtentInfo) list \<Rightarrow> fbo_window \<Rightarrow> EMEntry \<Rightarrow> fbo_window \<times> em_action" where
  "deleteEmptyCol_act extentsInfo w e =
    (if em_used e then
       (case map_of extentsInfo (em_fileID e) of
          None \<Rightarrow> (w, Keep)
        | Some x \<Rightarrow>
            if em_status e = EXTENTOUTOFSERVICE then (w, Keep)
            else case fw_calc (ei_hwm x) e w of
                   None \<Rightarrow> (w, Trap)
                 | Some w' \<Rightarrow> (w', stripe_act (ei_partitionNum x) (ei_segmentNum x) (ei_hwm x) w' e))
     else (w, Keep))"

definition em_deleteEmptyColExtents :: "(OID_t \<times> ExtentInfo) list \<Rightarrow> ExtentMap \<Rightarrow> ExtentMap option" where
  "em_deleteEmptyColExtents extentsInfo s =
    map_option snd (em_sweep_all (deleteEmptyCol_act extentsInfo) fbo_window0 s)"

definition deleteNewDict_act :: "(OID_t \<times> ExtentInfo) list \<Rightarrow> unit \<Rightarrow> EMEntry \<Rightarrow> unit \<times> em_action" where
  "deleteNewDict_act extentsInfo u e = ((),
     if em_used e then
       (case map_of extentsInfo (em_fileID e) of
          None \<Rightarrow> Keep
        | Some x \<Rightarrow> if em_partitionNum e = ei_partitionNum x \<and> em_segmentNum e = ei_segmentNum x \<and>
                       dbr_eq (em_dbRoots e) (ei_dbRoot x) then Delete else Keep)
     else Keep)"

definition deleteOldDict_act ::
  "(OID_t \<times> ExtentInfo) list \<Rightarrow> fbo_window \<Rightarrow> EMEntry \<Rightarrow> fbo_window \<times> em_action" where
  "deleteOldDict_act extentsInfo w e =
    (if em_used e then
       (case map_of extentsInfo (em_fileID e) of
          None \<Rightarrow> (w, Keep)
        | Some x \<Rightarrow>
            if em_status e = EXTENTOUTOFSERVICE then (w, Keep)
            else case fw_calc (ei_hwm x) e w of
                   None \<Rightarrow> (w, Trap)
                 | Some w' \<Rightarrow>
                     (w', if em_partitionNum e > ei_partitionNum x then Delete
                          else if em_partitionNum e = ei_partitionNum x \<and> em_segmentNum e = ei_segmentNum x then
                            (if em_blockOffset e < fw_lo w' then Keep
                             else if em_blockOffset e = fw_lo w' then reset_hwm (ei_hwm x) e
                             else Delete)
                          else Keep))
     else (w, Keep))"

text \<open>The list is the map in its iteration order; \<^verbatim>\<open>begin()\<close> of an empty one is not defined.\<close>

definition em_deleteEmptyDictStoreExtents :: "(OID_t \<times> ExtentInfo) list \<Rightarrow> ExtentMap \<Rightarrow> ExtentMap option" where
  "em_deleteEmptyDictStoreExtents extentsInfo s =
    (case extentsInfo of
       [] \<Rightarrow> None
     | it # _ \<Rightarrow>
         if ei_newFile (snd it) then map_option snd (em_sweep_all (deleteNewDict_act extentsInfo) () s)
         else map_option snd (em_sweep_all (deleteOldDict_act extentsInfo) fbo_window0 s))"

section \<open>Each of them is a sweeper\<close>

lemma fbo_range_pos: "em_used e \<Longrightarrow> 0 \<le> em_size e \<Longrightarrow> em_size e < 2 ^ 22 \<Longrightarrow> fbo_range e = em_size e * 1024 \<and> 0 < fbo_range e"
  by (simp add: fbo_range_def em_used_def u32_id)

lemma fbo_range_nonzero [simp]: "em_used e \<Longrightarrow> 0 \<le> em_size e \<Longrightarrow> em_size e < 4194304 \<Longrightarrow> fbo_range e \<noteq> 0"
  and fw_calc_defined [simp]: "em_used e \<Longrightarrow> 0 \<le> em_size e \<Longrightarrow> em_size e < 4194304 \<Longrightarrow> fw_calc hwm e w \<noteq> None"
  using fbo_range_pos [of e] by (simp_all add: fw_calc_def Let_def)

lemma reset_hwm_action [simp]: "reset_hwm h e \<noteq> Delete" "reset_hwm h e \<noteq> Trap" "reset_hwm h e \<noteq> WriteRaw e'"
  by (auto simp: reset_hwm_def)

lemma reset_hwm_range: "reset_hwm h e = Write e' \<Longrightarrow> em_range e' = em_range e"
  by (auto simp: reset_hwm_def split: if_splits)

lemma stripe_act_action [simp]: "stripe_act p g h w e \<noteq> Trap" "stripe_act p g h w e \<noteq> WriteRaw e'"
  by (auto simp: stripe_act_def)

lemma stripe_act_range: "stripe_act p g h w e = Write e' \<Longrightarrow> em_range e' = em_range e"
  by (auto simp: stripe_act_def dest: reset_hwm_range split: if_splits)

interpretation deleteOID: em_sweeper "deleteOID_act OID" for OID
  by unfold_locales (auto simp: deleteOID_act_def split: if_splits)

interpretation deleteOIDs: em_sweeper "deleteOIDs_act OIDs" for OIDs
  by unfold_locales (auto simp: deleteOIDs_act_def split: if_splits)

interpretation deleteDBRoot: em_sweeper "deleteDBRoot_act dbr" for dbr
  by unfold_locales (auto simp: deleteDBRoot_act_def split: if_splits)

interpretation rollbackColumn: em_sweeper "rollbackColumn_act oid bDeleteAll dbRoot part seg hwm" for oid bDeleteAll dbRoot part seg hwm
  by unfold_locales (auto simp: rollbackColumn_act_def dest: stripe_act_range split: if_splits option.splits)

interpretation rollbackDict: em_sweeper "rollbackDict_act oid dbRoot part segHwms" for oid dbRoot part segHwms
  by unfold_locales (auto simp: rollbackDict_act_def Let_def dest: reset_hwm_range split: if_splits option.splits)

interpretation deleteEmptyCol: em_sweeper "deleteEmptyCol_act extentsInfo" for extentsInfo
  by unfold_locales (auto simp: deleteEmptyCol_act_def dest: stripe_act_range split: if_splits option.splits)

interpretation deleteNewDict: em_sweeper "deleteNewDict_act extentsInfo" for extentsInfo
  by unfold_locales (auto simp: deleteNewDict_act_def split: if_splits option.splits)

interpretation deleteOldDict: em_sweeper "deleteOldDict_act extentsInfo" for extentsInfo
  by unfold_locales (auto simp: deleteOldDict_act_def dest: reset_hwm_range split: if_splits option.splits)

end
