(* ===== verification/Extent_Lookup.thy ===== *)
theory Extent_Lookup
  imports Extent_Created
begin

text \<open>
  The queries of the extent map: from a block to its file and offset and back, the extents of a
  column, and the high water marks of the segment files with \<^verbatim>\<open>setLocalHWM\<close>. The tests
  under \<^verbatim>\<open>BRM_DEBUG\<close> and \<^verbatim>\<open>BRM_INFO\<close> are not compiled in. The result \<open>None\<close>
  inside \<open>res\<close> stands for a return value of -1.
\<close>

section \<open>Blocks and files\<close>

definition em_lastBlock :: "EMEntry \<Rightarrow> LBID_t" where
  "em_lastBlock e = em_start e + em_size e * 1024 - 1"

definition em_covers :: "LBID_t \<Rightarrow> EMEntry \<Rightarrow> bool" where
  "em_covers lbid e \<longleftrightarrow> em_used e \<and> em_start e \<le> lbid \<and> lbid \<le> em_lastBlock e"

definition em_lookup :: "LBID_t \<Rightarrow> ExtentMap \<Rightarrow> (LBID_t \<times> LBID_t) option" where
  "em_lookup lbid s =
    (case index_of (em_covers lbid) (em_entries s) of
       None \<Rightarrow> None
     | Some i \<Rightarrow> Some (em_start (em_entries s ! i), em_lastBlock (em_entries s ! i)))"

definition em_lookupLocal :: "LBID_t \<Rightarrow> ExtentMap \<Rightarrow> (OID_t \<times> DBROOTS_struct \<times> int \<times> int \<times> FBO_struct) option res" where
  "em_lookupLocal lbid s =
    (if lbid < 0 then Inl (Invalid_argument ''ExtentMap::lookupLocal(): invalid lbid requested: '')
     else Inr
       (case index_of (em_covers lbid) (em_entries s) of
          None \<Rightarrow> None
        | Some i \<Rightarrow>
            let e = em_entries s ! i; offset = s32 (lbid - em_start e)
            in Some (em_fileID e, em_dbRoots e, em_partitionNum e, em_segmentNum e,
                     fbo_of (word_of_int (em_blockOffset e + offset)))))"

definition em_in_segment :: "OID_t \<Rightarrow> int \<Rightarrow> int \<Rightarrow> EMEntry \<Rightarrow> bool" where
  "em_in_segment OID part seg e \<longleftrightarrow> em_used e \<and> em_fileID e = OID \<and> em_partitionNum e = part \<and> em_segmentNum e = seg"

definition em_holds_fbo :: "int \<Rightarrow> EMEntry \<Rightarrow> bool" where
  "em_holds_fbo fbo e \<longleftrightarrow> em_blockOffset e \<le> fbo \<and> fbo \<le> em_blockOffset e + em_size e * 1024 - 1"

definition em_lookupLocal_file :: "OID_t \<Rightarrow> int \<Rightarrow> int \<Rightarrow> int \<Rightarrow> ExtentMap \<Rightarrow> LBID_t option res" where
  "em_lookupLocal_file OID part seg fbo s =
    (if OID < 0 then Inl (Invalid_argument ''ExtentMap::lookup(): OID and FBO must be >= 0'')
     else Inr
       (case index_of (\<lambda>e. em_in_segment OID part seg e \<and> em_holds_fbo fbo e) (em_entries s) of
          None \<Rightarrow> None
        | Some i \<Rightarrow> let e = em_entries s ! i in Some (em_start e + s32 (fbo - em_blockOffset e))))"

definition em_lookupLocal_DBroot :: "OID_t \<Rightarrow> DBROOTS_struct \<Rightarrow> int \<Rightarrow> int \<Rightarrow> int \<Rightarrow> ExtentMap \<Rightarrow> LBID_t option res" where
  "em_lookupLocal_DBroot OID dbRoot part seg fbo s =
    (if OID < 0 then Inl (Invalid_argument ''ExtentMap::lookup(): OID and FBO must be >= 0'')
     else Inr
       (case index_of (\<lambda>e. em_in_segment OID part seg e \<and> em_dbRoots e ! 0 = dbRoot ! 0 \<and> em_holds_fbo fbo e)
               (em_entries s) of
          None \<Rightarrow> None
        | Some i \<Rightarrow> let e = em_entries s ! i in Some (em_start e + s32 (fbo - em_blockOffset e))))"

definition em_lookupLocalStartLbid :: "OID_t \<Rightarrow> int \<Rightarrow> int \<Rightarrow> int \<Rightarrow> ExtentMap \<Rightarrow> LBID_t option res" where
  "em_lookupLocalStartLbid OID part seg fbo s =
    (if OID < 0 then Inl (Invalid_argument ''ExtentMap::lookupLocalStartLbid(): OID and FBO must be >= 0'')
     else Inr
       (case index_of (\<lambda>e. em_in_segment OID part seg e \<and> em_holds_fbo fbo e) (em_entries s) of
          None \<Rightarrow> None
        | Some i \<Rightarrow> Some (em_start (em_entries s ! i))))"

definition em_lookup_OID :: "OID_t \<Rightarrow> ExtentMap \<Rightarrow> LBIDRange list res" where
  "em_lookup_OID OID s =
    (if OID < 0 then Inl (Invalid_argument ''ExtentMap::lookup(): invalid OID requested: '')
     else Inr (map (\<lambda>e. \<lparr>range_start = em_start e, range_size = u32 (em_size e * 1024)\<rparr>)
       (filter (\<lambda>e. em_fileID e = OID \<and> em_used e \<and> em_status e \<noteq> EXTENTOUTOFSERVICE) (em_entries s))))"

section \<open>The extents of a column\<close>

definition em_getExtents :: "OID_t \<Rightarrow> bool \<Rightarrow> bool \<Rightarrow> ExtentMap \<Rightarrow> EMEntry list res" where
  "em_getExtents OID doSort incOutOfService s =
    (if OID < 0 then Inl (Invalid_argument ''ExtentMap::getExtents(): invalid OID requested: '')
     else
       let es = filter (\<lambda>e. em_fileID e = OID \<and> em_used e \<and>
                  (incOutOfService \<or> em_status e \<noteq> EXTENTOUTOFSERVICE)) (em_entries s)
       in Inr (if doSort then sort_key (\<lambda>e. em_start e) es else es))"

definition em_getExtents_dbroot :: "OID_t \<Rightarrow> uint16 \<Rightarrow> bool \<Rightarrow> ExtentMap \<Rightarrow> EMEntry list res" where
  "em_getExtents_dbroot OID dbr all_replicas s =
    (if OID < 0 then Inl (Invalid_argument ''ExtentMap::getExtents(): invalid OID requested: '')
     else Inr (filter (\<lambda>e. em_fileID e = OID \<and> em_used e \<and>
       (em_dbRoots e ! 0 = dbr \<or> all_replicas \<and> dbr_getDbrIndex dbr (em_dbRoots e) \<ge> 0)) (em_entries s)))"

definition em_getExtentCount_dbroot :: "OID_t \<Rightarrow> uint16 \<Rightarrow> bool \<Rightarrow> ExtentMap \<Rightarrow> int res" where
  "em_getExtentCount_dbroot OID dbr incOutOfService s =
    (if OID < 0 then Inl (Invalid_argument ''ExtentMap::getExtentsCount_dbroot(): invalid OID requested: '')
     else Inr (int (length (filter (\<lambda>e. em_fileID e = OID \<and> em_used e \<and> em_dbRoots e ! 0 = dbr \<and>
       (incOutOfService \<or> em_status e \<noteq> EXTENTOUTOFSERVICE)) (em_entries s)))))"

definition em_getSysCatDBRoot :: "OID_t \<Rightarrow> ExtentMap \<Rightarrow> DBROOTS_struct res" where
  "em_getSysCatDBRoot OID s =
    (case index_of (\<lambda>e. em_used e \<and> em_fileID e = OID) (em_entries s) of
       None \<Rightarrow> Inl (Logic_error ''ExtentMap::getSysCatDBRoot(): OID not found: '')
     | Some i \<Rightarrow> Inr (em_dbRoots (em_entries s ! i)))"

definition em_isDBRootEmpty :: "uint16 \<Rightarrow> ExtentMap \<Rightarrow> bool res" where
  "em_isDBRootEmpty dbr s =
    (if em_currentSize s = 0 then Inl (Runtime_error ''ExtentMap::isDBRootEmpty() shared memory not loaded'')
     else Inr (\<not> (\<exists>e \<in> set (em_entries s). em_used e \<and> em_dbRoots e ! 0 = dbr)))"

definition em_getExtentState :: "OID_t \<Rightarrow> int \<Rightarrow> int \<Rightarrow> ExtentMap \<Rightarrow> (bool \<times> int) res" where
  "em_getExtentState OID part seg s =
    (if OID < 0 then Inl (Invalid_argument ''ExtentMap::getExtentState(): invalid OID requested: '')
     else Inr
       (case index_of (em_in_segment OID part seg) (em_entries s) of
          None \<Rightarrow> (False, EXTENTAVAILABLE)
        | Some i \<Rightarrow> (True, em_status (em_entries s ! i))))"

section \<open>High water marks\<close>

text \<open>\<^verbatim>\<open>getLocalHWM\<close>: the loop with the flag and the status seen so far.\<close>

primrec localHWM_loop :: "(EMEntry \<Rightarrow> bool) \<Rightarrow> EMEntry list \<Rightarrow> int option \<Rightarrow> (HWM_t \<times> int) option" where
  "localHWM_loop P [] st = map_option (Pair 0) st"
| "localHWM_loop P (e # es) st =
    (if P e then (if em_HWM e \<noteq> 0 then Some (em_HWM e, em_status e) else localHWM_loop P es (Some (em_status e)))
     else localHWM_loop P es st)"

definition em_getLocalHWM :: "OID_t \<Rightarrow> int \<Rightarrow> int \<Rightarrow> ExtentMap \<Rightarrow> (HWM_t \<times> int) res" where
  "em_getLocalHWM OID part seg s =
    (if OID < 0 then Inl (Invalid_argument ''ExtentMap::getLocalHWM(): invalid OID requested: '')
     else case localHWM_loop (em_in_segment OID part seg) (em_entries s) None of
            None \<Rightarrow> Inl (Invalid_argument ''ExtentMap::getLocalHWM(): There are no extent entries for OID '')
          | Some r \<Rightarrow> Inr r)"

text \<open>\<^verbatim>\<open>setLocalHWM\<close>: the last extent of the file, by offset, and the last entry with a
  high water mark.\<close>

definition setHWM_step ::
  "(EMEntry \<Rightarrow> bool) \<Rightarrow> EMEntry list \<Rightarrow> nat \<Rightarrow> nat option \<times> int \<times> nat option \<Rightarrow> nat option \<times> int \<times> nat option" where
  "setHWM_step P es i acc =
    (let (lst, highest, old) = acc; e = es ! i
     in if P e then
          (if em_blockOffset e \<ge> highest then Some i else lst,
           if em_blockOffset e \<ge> highest then em_blockOffset e else highest,
           if em_HWM e \<noteq> 0 then Some i else old)
        else acc)"

definition setHWM_scan :: "(EMEntry \<Rightarrow> bool) \<Rightarrow> EMEntry list \<Rightarrow> nat option \<times> int \<times> nat option" where
  "setHWM_scan P es = fold (setHWM_step P es) [0 ..< length es] (None, 0, None)"

definition em_setLocalHWM :: "OID_t \<Rightarrow> int \<Rightarrow> int \<Rightarrow> HWM_t \<Rightarrow> ExtentMap \<Rightarrow> unit res \<times> ExtentMap" where
  "em_setLocalHWM OID part seg newHWM s =
    (case setHWM_scan (em_in_segment OID part seg) (em_entries s) of
       (None, _, _) \<Rightarrow> (Inl (Invalid_argument ''ExtentMap::setLocalHWM(): Bad OID/partition/segment argument; ''), s)
     | (Some i, _, old) \<Rightarrow>
         let e = em_entries s ! i
         in if newHWM \<ge> u32 (em_blockOffset e + em_size e * 1024) then
              (Inl (Invalid_argument ''ExtentMap::setLocalHWM(): new HWM is past the end of the file for OID ''), s)
            else
              let s1 = em_put i (e\<lparr>em_HWM := newHWM, em_status := EXTENTAVAILABLE\<rparr>) s
              in (Inr (),
                  case old of
                    None \<Rightarrow> s1
                  | Some j \<Rightarrow> if j \<noteq> i then em_put j ((em_entries s1 ! j)\<lparr>em_HWM := 0\<rparr>) s1 else s1))"

record BulkSetHWMArg =
  bs_oid :: OID_t
  bs_partNum :: int
  bs_segNum :: int
  bs_hwm :: HWM_t

primrec em_bulkSetHWM :: "BulkSetHWMArg list \<Rightarrow> ExtentMap \<Rightarrow> unit res \<times> ExtentMap" where
  "em_bulkSetHWM [] s = (Inr (), s)"
| "em_bulkSetHWM (a # as) s =
    (case em_setLocalHWM (bs_oid a) (bs_partNum a) (bs_segNum a) (bs_hwm a) s of
       (Inl err, s') \<Rightarrow> (Inl err, s')
     | (Inr _, s') \<Rightarrow> em_bulkSetHWM as s')"

text \<open>\<^verbatim>\<open>bulkUpdateDBRoot\<close>: the first argument for a start LBID counts, entries not in use are
  written as well, and no undo record is made.\<close>

definition em_bulkUpdateDBRoot :: "(LBID_t \<times> DBROOTS_struct) list \<Rightarrow> ExtentMap \<Rightarrow> ExtentMap" where
  "em_bulkUpdateDBRoot args s = s\<lparr>em_entries :=
     map (\<lambda>e. case map_of args (em_start e) of None \<Rightarrow> e | Some d \<Rightarrow> e\<lparr>em_dbRoots := d\<rparr>) (em_entries s)\<rparr>"

text \<open>\<^verbatim>\<open>getLastHWM_DBroot\<close>: a backward search for the last extent on the DBRoot.\<close>

definition lastHWM_step :: "(EMEntry \<Rightarrow> bool) \<Rightarrow> EMEntry \<Rightarrow> EMEntry option \<times> int \<times> int \<times> int \<Rightarrow> EMEntry option \<times> int \<times> int \<times> int" where
  "lastHWM_step P e acc =
    (let (lst, part, seg, off) = acc
     in if P e \<and> (em_partitionNum e > part \<or> em_partitionNum e = part \<and> em_blockOffset e > off \<or>
          em_partitionNum e = part \<and> em_blockOffset e = off \<and> em_segmentNum e \<ge> seg)
        then (Some e, em_partitionNum e, em_segmentNum e, em_blockOffset e) else acc)"

text \<open>The result: the HWM, the partition, the segment, and the status when an extent was found.\<close>

definition em_getLastHWM_DBroot :: "OID_t \<Rightarrow> DBROOTS_struct \<Rightarrow> ExtentMap \<Rightarrow> (HWM_t \<times> int \<times> int \<times> int option) res" where
  "em_getLastHWM_DBroot OID dbRoot s =
    (if OID < 0 then Inl (Invalid_argument ''ExtentMap::getLastHWM_DBroot(): invalid OID requested: '')
     else
       case fold (lastHWM_step (\<lambda>e. em_used e \<and> em_fileID e = OID \<and> dbr_eq (em_dbRoots e) dbRoot \<and>
                (em_status e = EXTENTAVAILABLE \<or> em_status e = EXTENTOUTOFSERVICE))) (rev (em_entries s)) (None, 0, 0, 0) of
         (None, part, seg, _) \<Rightarrow> Inr (0, part, seg, None)
       | (Some e, part, seg, _) \<Rightarrow> Inr (em_HWM e, part, seg, Some (em_status e)))"

text \<open>\<^verbatim>\<open>getDbRootHWMInfo\<close>. The DBRoots of the PM come from the configuration; the partition
  test is \<^verbatim>\<open>>=\<close>, which makes the two tests behind it redundant.\<close>

record EmDbRootHWMInfo =
  hi_partitionNum :: int
  hi_dbRoot :: DBROOTS_struct
  hi_segmentNum :: int
  hi_localHWM :: HWM_t
  hi_fbo :: int
  hi_startLbid :: LBID_t
  hi_totalBlocks :: int
  hi_hwmExtentIndex :: int
  hi_status :: int

definition newEmDbRootHWMInfo :: "uint16 \<Rightarrow> EmDbRootHWMInfo" where
  "newEmDbRootHWMInfo root = \<lparr>hi_partitionNum = 0, hi_dbRoot = dbr_zero[0 := root], hi_segmentNum = 0, hi_localHWM = 0,
     hi_fbo = 0, hi_startLbid = 0, hi_totalBlocks = 0, hi_hwmExtentIndex = -1, hi_status = 0\<rparr>"

definition hwmInfo_step :: "nat \<Rightarrow> EMEntry \<Rightarrow> EmDbRootHWMInfo \<Rightarrow> EmDbRootHWMInfo" where
  "hwmInfo_step i e x =
    (let x1 = (if em_status e \<noteq> EXTENTOUTOFSERVICE \<and> em_HWM e \<noteq> 0
               then x\<lparr>hi_totalBlocks := hi_totalBlocks x + u32 (em_HWM e + 1)\<rparr> else x)
     in if em_partitionNum e \<ge> hi_partitionNum x1 \<or>
           em_partitionNum e = hi_partitionNum x1 \<and> em_blockOffset e \<ge> hi_fbo x1 \<or>
           em_partitionNum e = hi_partitionNum x1 \<and> em_blockOffset e = hi_fbo x1 \<and> em_segmentNum e \<ge> hi_segmentNum x1
        then x1\<lparr>hi_dbRoot := em_dbRoots e, hi_fbo := em_blockOffset e, hi_partitionNum := em_partitionNum e,
               hi_segmentNum := em_segmentNum e, hi_localHWM := em_HWM e, hi_startLbid := em_start e,
               hi_status := em_status e, hi_hwmExtentIndex := int i\<rparr>
        else x1)"

definition hwmInfo_entry :: "OID_t \<Rightarrow> EMEntry list \<Rightarrow> nat \<Rightarrow> EmDbRootHWMInfo std_map \<Rightarrow> EmDbRootHWMInfo std_map" where
  "hwmInfo_entry OID es i m =
    (let e = es ! i; root = uint (em_dbRoots e ! 0)
     in if em_used e \<and> em_fileID e = OID then
          (case map_of m root of None \<Rightarrow> m | Some x \<Rightarrow> sm_put root (hwmInfo_step i e x) m)
        else m)"

definition em_getDbRootHWMInfo :: "uint16 list \<Rightarrow> OID_t \<Rightarrow> ExtentMap \<Rightarrow> EmDbRootHWMInfo list res" where
  "em_getDbRootHWMInfo dbRootList OID s =
    (if OID < 0 then Inl (Invalid_argument ''ExtentMap::getDbRootHWMInfo(): invalid OID requested: '')
     else if dbRootList = [] then
       Inl (Invalid_argument ''ExtentMap::getDbRootHWMInfo(): There are no DBRoots for OID '')
     else
       let m0 = fold (\<lambda>r. sm_put (uint r) (newEmDbRootHWMInfo r)) dbRootList [];
           m = fold (hwmInfo_entry OID (em_entries s)) (rev [0 ..< length (em_entries s)]) m0
       in if \<exists>x \<in> set m. hi_hwmExtentIndex (snd x) \<noteq> -1 \<and> hi_status (snd x) = EXTENTUNAVAILABLE
          then Inl (Runtime_error ''ExtentMap::getDbRootHWMInfo(): OID has HWM extent that is UNAVAILABLE'')
          else Inr (map (\<lambda>x. let h = snd x
            in if hi_hwmExtentIndex h \<noteq> -1 \<and> hi_localHWM h = 0 \<and> hi_status h = EXTENTAVAILABLE
               then h\<lparr>hi_totalBlocks := hi_totalBlocks h + 1\<rparr> else h) m))"

section \<open>Blocks are resolved uniquely\<close>

lemma em_two_of_space:
  assumes inv: "em_inv s" and i: "i < length (em_entries s)" "j < length (em_entries s)" "i \<noteq> j"
  shows "units (em_range (em_entries s ! i)) \<inter> units (em_range (em_entries s ! j)) = {}"
proof (rule ccontr)
  let ?f = "\<lambda>e. blk (em_range e)" and ?es = "em_entries s"
  assume "\<not> ?thesis"
  then obtain u where u: "u \<in> units (em_range (?es ! i))" "u \<in> units (em_range (?es ! j))" by blast
  have fin: "finite (units r)" for r by (simp add: units_def)
  have "?f (?es ! j) + ?f (?es ! i) \<subseteq># sum_list (map ?f ?es)"
    using sum_list_map_two [of j ?es i ?f] i by simp
  then have "?f (?es ! j) + ?f (?es ! i) \<subseteq># mset_set {0 ..< MAX_LBID_SIZE}"
    using inv unfolding em_inv_def em_space_def by (metis mset_subset_eq_add_left subset_mset.trans)
  from mset_subset_eq_count [OF this, of u] u fin have "2 \<le> count (mset_set {0 ..< MAX_LBID_SIZE}) u"
    by (simp add: blk_def count_mset_set)
  then show False by (auto simp: count_mset_set' split: if_splits)
qed

lemma em_covers_units:
  assumes "range_ok (em_range e)" "em_covers lbid e"
  shows "lbid div 1024 \<in> units (em_range e)"
proof -
  obtain k where k: "em_start e = 1024 * k" using assms(1) by (auto simp: range_ok_def)
  with assms(2) have "k \<le> lbid div 1024" "lbid div 1024 < k + em_size e"
    by (auto simp: em_covers_def em_lastBlock_def)
  with k show ?thesis by (simp add: units_def)
qed

lemma em_covers_unique:
  assumes "em_inv s" "i < length (em_entries s)" "j < length (em_entries s)"
    "em_covers lbid (em_entries s ! i)" "em_covers lbid (em_entries s ! j)"
  shows "i = j"
  using em_two_of_space [OF assms(1-3)] em_covers_units [OF em_inv_range_ok(1) [OF assms(1,2)] assms(4)]
    em_covers_units [OF em_inv_range_ok(1) [OF assms(1,3)] assms(5)] by blast

lemma index_of_unique:
  assumes "i < length es" "P (es ! i)" "\<And>j. j < length es \<Longrightarrow> P (es ! j) \<Longrightarrow> j = i"
  shows "index_of P es = Some i"
proof (cases "index_of P es")
  case None
  with assms(1,2) show ?thesis by (auto simp: index_of_None)
next
  case (Some j)
  with index_of_SomeD [OF Some] assms(3) show ?thesis by blast
qed

lemma em_index_covers:
  assumes "em_inv s" "i < length (em_entries s)" "em_covers lbid (em_entries s ! i)"
  shows "index_of (em_covers lbid) (em_entries s) = Some i"
  using assms em_covers_unique by (intro index_of_unique) auto

text \<open>From a file to the block and back.\<close>

lemma em_resolve_back:
  assumes inv: "em_inv s" and small: "\<forall>e \<in> set (em_entries s). em_size e < 2 ^ 21"
    and res: "em_lookupLocal_file OID part seg fbo s = Inr (Some lbid)"
  shows "\<exists>d. em_lookupLocal lbid s = Inr (Some (OID, d, part, seg, fbo_of (word_of_int fbo)))"
proof -
  obtain i where idx: "index_of (\<lambda>e. em_in_segment OID part seg e \<and> em_holds_fbo fbo e) (em_entries s) = Some i"
    and lbid: "lbid = em_start (em_entries s ! i) + s32 (fbo - em_blockOffset (em_entries s ! i))"
    using res by (auto simp: em_lookupLocal_file_def Let_def split: if_splits option.splits)
  let ?e = "em_entries s ! i"
  have i: "i < length (em_entries s)" "em_in_segment OID part seg ?e" "em_holds_fbo fbo ?e"
    using index_of_SomeD [OF idx] by auto
  have ok: "range_ok (em_range ?e)" "em_size ?e < 2 ^ 21" using em_inv_range_ok(1) [OF inv i(1)] small i(1) by auto
  with i(3) have off: "s32 (fbo - em_blockOffset ?e) = fbo - em_blockOffset ?e"
    by (intro s32_id) (auto simp: em_holds_fbo_def)
  have cov: "em_covers lbid ?e" "0 \<le> lbid"
    using i(2,3) ok unfolding lbid off by (auto simp: em_covers_def em_lastBlock_def em_holds_fbo_def em_in_segment_def range_ok_def)
  have "lbid - em_start ?e = fbo - em_blockOffset ?e" using off by (simp add: lbid)
  with off cov(2) i(2) show ?thesis
    by (simp add: em_lookupLocal_def em_index_covers [OF inv i(1) cov(1)] Let_def em_in_segment_def)
qed

section \<open>Setting and reading the high water mark\<close>

lemma setHWM_scan_spec:
  assumes typed: "\<forall>e \<in> set es. 0 \<le> em_blockOffset e" and "setHWM_scan P es = (lst, h, old)"
  shows "(case lst of None \<Rightarrow> \<forall>e \<in> set es. \<not> P e
      | Some i \<Rightarrow> i < length es \<and> P (es ! i) \<and> (\<forall>e \<in> set es. P e \<longrightarrow> em_blockOffset e \<le> em_blockOffset (es ! i))) \<and>
    (case old of None \<Rightarrow> \<forall>e \<in> set es. P e \<longrightarrow> em_HWM e = 0
      | Some j \<Rightarrow> j < length es \<and> P (es ! j) \<and> em_HWM (es ! j) \<noteq> 0)"
proof -
  define J where "J n acc \<longleftrightarrow> (case acc of (lst, h, old) \<Rightarrow>
      (case lst of None \<Rightarrow> h = 0 \<and> (\<forall>k < n. \<not> P (es ! k))
       | Some i \<Rightarrow> i < n \<and> P (es ! i) \<and> h = em_blockOffset (es ! i) \<and>
           (\<forall>k < n. P (es ! k) \<longrightarrow> em_blockOffset (es ! k) \<le> h)) \<and>
      (case old of None \<Rightarrow> \<forall>k < n. P (es ! k) \<longrightarrow> em_HWM (es ! k) = 0
       | Some j \<Rightarrow> j < n \<and> P (es ! j) \<and> em_HWM (es ! j) \<noteq> 0))" for n acc
  have "J n (fold (setHWM_step P es) [0 ..< n] (None, 0, None))" if "n \<le> length es" for n
    using that
  proof (induction n)
    case (Suc n)
    obtain l h f where acc: "fold (setHWM_step P es) [0 ..< n] (None, 0, None) = (l, h, f)" by (metis prod_cases3)
    have "0 \<le> em_blockOffset (es ! n)" using typed Suc.prems by simp
    moreover have "J n (l, h, f)" using Suc acc by simp
    ultimately have "J (Suc n) (setHWM_step P es n (l, h, f))"
      by (auto simp: J_def setHWM_step_def Let_def less_Suc_eq split: option.splits)
    then show ?case by (simp add: acc)
  qed (simp add: J_def)
  from this [of "length es"] assms(2) have "J (length es) (lst, h, old)" by (simp add: setHWM_scan_def)
  then show ?thesis by (auto simp: J_def in_set_conv_nth split: option.splits)
qed

lemma localHWM_loop_zero:
  assumes "\<forall>e \<in> set es. P e \<longrightarrow> em_HWM e = 0"
  shows "(\<exists>e \<in> set es. P e) \<or> st \<noteq> None \<Longrightarrow> \<exists>st'. localHWM_loop P es st = Some (0, st')"
  using assms by (induction es arbitrary: st) auto

lemma localHWM_loop_unique:
  assumes "i < length es" "P (es ! i)" "em_HWM (es ! i) \<noteq> 0" "\<And>k. k < length es \<Longrightarrow> P (es ! k) \<Longrightarrow> k \<noteq> i \<Longrightarrow> em_HWM (es ! k) = 0"
  shows "localHWM_loop P es st = Some (em_HWM (es ! i), em_status (es ! i))"
  using assms
proof (induction es arbitrary: i st)
  case (Cons e es)
  show ?case
  proof (cases i)
    case 0
    with Cons.prems show ?thesis by simp
  next
    case (Suc j)
    have tail: "em_HWM (es ! k) = 0" if "k < length es" "P (es ! k)" "k \<noteq> j" for k
      using Cons.prems(4) [of "Suc k"] that Suc by simp
    have "P e \<Longrightarrow> em_HWM e = 0" using Cons.prems(4) [of 0] Suc by simp
    with Cons.IH [of j] Cons.prems(1-3) Suc tail show ?thesis by auto
  qed
qed simp

text \<open>At most one extent of a segment file carries a high water mark.\<close>

definition em_one_hwm :: "OID_t \<Rightarrow> int \<Rightarrow> int \<Rightarrow> EMEntry list \<Rightarrow> bool" where
  "em_one_hwm OID part seg es \<longleftrightarrow> (\<forall>i < length es. \<forall>j < length es.
    em_in_segment OID part seg (es ! i) \<longrightarrow> em_HWM (es ! i) \<noteq> 0 \<longrightarrow>
    em_in_segment OID part seg (es ! j) \<longrightarrow> em_HWM (es ! j) \<noteq> 0 \<longrightarrow> i = j)"

lemma em_in_segment_update [simp]:
  "em_in_segment OID part seg (e\<lparr>em_HWM := h\<rparr>) = em_in_segment OID part seg e"
  "em_in_segment OID part seg (e\<lparr>em_HWM := h, em_status := st\<rparr>) = em_in_segment OID part seg e"
  by (simp_all add: em_in_segment_def em_used_def)

lemma setLocalHWM_entries:
  assumes typed: "\<forall>e \<in> set (em_entries s). 0 \<le> em_blockOffset e" and one: "em_one_hwm OID part seg (em_entries s)"
    and ok: "em_setLocalHWM OID part seg newHWM s = (Inr (), s')"
  obtains i where "i < length (em_entries s)" "em_in_segment OID part seg (em_entries s ! i)"
    "em_entries s' ! i = (em_entries s ! i)\<lparr>em_HWM := newHWM, em_status := EXTENTAVAILABLE\<rparr>"
    "\<forall>e \<in> set (em_entries s). em_in_segment OID part seg e \<longrightarrow> em_blockOffset e \<le> em_blockOffset (em_entries s ! i)"
    "length (em_entries s') = length (em_entries s)"
    "\<And>k. k < length (em_entries s) \<Longrightarrow> em_in_segment OID part seg (em_entries s' ! k) \<Longrightarrow> k \<noteq> i \<Longrightarrow> em_HWM (em_entries s' ! k) = 0"
    "\<And>k. k < length (em_entries s) \<Longrightarrow> \<not> em_in_segment OID part seg (em_entries s ! k) \<Longrightarrow> em_entries s' ! k = em_entries s ! k"
proof -
  let ?P = "em_in_segment OID part seg" and ?es = "em_entries s"
  obtain lst h old where sc: "setHWM_scan ?P ?es = (lst, h, old)" by (cases "setHWM_scan ?P ?es")
  note sp = setHWM_scan_spec [OF typed sc]
  obtain i where i: "lst = Some i" using ok sc by (cases lst) (auto simp: em_setLocalHWM_def)
  let ?e = "(?es ! i)\<lparr>em_HWM := newHWM, em_status := EXTENTAVAILABLE\<rparr>"
  have li: "i < length ?es" "?P (?es ! i)" "\<forall>e \<in> set ?es. ?P e \<longrightarrow> em_blockOffset e \<le> em_blockOffset (?es ! i)" using sp i by auto
  have es': "em_entries s' = (case old of None \<Rightarrow> ?es[i := ?e]
      | Some j \<Rightarrow> if j \<noteq> i then ?es[i := ?e, j := (?es ! j)\<lparr>em_HWM := 0\<rparr>] else ?es[i := ?e])"
    using ok sc i by (auto simp: em_setLocalHWM_def Let_def em_writes split: option.splits if_splits)
  have old: "case old of None \<Rightarrow> \<forall>k < length ?es. ?P (?es ! k) \<longrightarrow> em_HWM (?es ! k) = 0
      | Some j \<Rightarrow> j < length ?es \<and> ?P (?es ! j) \<and> em_HWM (?es ! j) \<noteq> 0"
    using sp by (auto split: option.splits)
  show thesis
  proof (rule that [OF li(1,2) _ li(3)])
    show "em_entries s' ! i = ?e" using li(1) by (simp add: es' split: option.split)
    show "length (em_entries s') = length ?es" by (simp add: es' split: option.split)
    fix k assume k: "k < length ?es"
    show "em_entries s' ! k = ?es ! k" if "\<not> ?P (?es ! k)"
      using that k li old by (auto simp: es' nth_list_update split: option.splits)
    show "em_HWM (em_entries s' ! k) = 0" if P: "?P (em_entries s' ! k)" and ne: "k \<noteq> i"
    proof (cases old)
      case None
      with old P ne k show ?thesis by (simp add: es')
    next
      case (Some j)
      with old have j: "j < length ?es" "?P (?es ! j)" "em_HWM (?es ! j) \<noteq> 0" by auto
      have "em_HWM (?es ! k) = 0" if "k \<noteq> j" "?P (?es ! k)"
        using one j k that by (auto simp: em_one_hwm_def)
      with P ne k j Some show ?thesis by (auto simp: es' nth_list_update split: if_splits)
    qed
  qed
qed

lemma setLocalHWM_read:
  assumes typed: "\<forall>e \<in> set (em_entries s). 0 \<le> em_blockOffset e" and one: "em_one_hwm OID part seg (em_entries s)" and "0 \<le> OID"
    and ok: "em_setLocalHWM OID part seg newHWM s = (Inr (), s')"
  shows "em_one_hwm OID part seg (em_entries s') \<and>
    (\<exists>st. em_getLocalHWM OID part seg s' = Inr (newHWM, st) \<and> (newHWM \<noteq> 0 \<longrightarrow> st = EXTENTAVAILABLE))"
proof -
  let ?P = "em_in_segment OID part seg"
  obtain i where i: "i < length (em_entries s)" "?P (em_entries s ! i)"
    "em_entries s' ! i = (em_entries s ! i)\<lparr>em_HWM := newHWM, em_status := EXTENTAVAILABLE\<rparr>"
    "length (em_entries s') = length (em_entries s)"
    "\<And>k. k < length (em_entries s) \<Longrightarrow> ?P (em_entries s' ! k) \<Longrightarrow> k \<noteq> i \<Longrightarrow> em_HWM (em_entries s' ! k) = 0"
    by (rule setLocalHWM_entries [OF typed one ok]) blast
  have Pi: "i < length (em_entries s')" "?P (em_entries s' ! i)" "em_HWM (em_entries s' ! i) = newHWM"
      "em_status (em_entries s' ! i) = EXTENTAVAILABLE" using i(1-4) by simp_all
  have one': "em_one_hwm OID part seg (em_entries s')" using i(4,5) by (metis em_one_hwm_def)
  have "\<exists>st. localHWM_loop ?P (em_entries s') None = Some (newHWM, st) \<and> (newHWM \<noteq> 0 \<longrightarrow> st = EXTENTAVAILABLE)"
  proof (cases "newHWM = 0")
    case True
    then have "\<forall>e \<in> set (em_entries s'). ?P e \<longrightarrow> em_HWM e = 0" using i(4,5) Pi(3) by (metis in_set_conv_nth)
    from localHWM_loop_zero [OF this] Pi(1,2) True show ?thesis by (metis nth_mem)
  next
    case False
    with localHWM_loop_unique [of i "em_entries s'" ?P None, OF Pi(1,2)] i(4,5) Pi(3,4) show ?thesis by simp
  qed
  with one' assms(3) show ?thesis by (auto simp: em_getLocalHWM_def)
qed

end
