(* ===== verification/Extent_Partition.thy ===== *)
theory Extent_Partition
  imports Extent_Delete Extent_Lookup
begin

text \<open>
  The operations on logical partitions: \<^verbatim>\<open>deletePartition\<close>,
  \<^verbatim>\<open>markPartitionForDeletion\<close>, \<^verbatim>\<open>markAllPartitionForDeletion\<close>,
  \<^verbatim>\<open>restorePartition\<close> and \<^verbatim>\<open>getOutOfServicePartitions\<close>. A
  \<^verbatim>\<open>std::set\<close> of partitions is a list without equivalent elements, where equivalence is
  what \<^verbatim>\<open>operator<\<close> makes of it: of the DBRoots only the first counts. The operations return
  the code of the \<^verbatim>\<open>ERYDBExcept\<close> they throw, or 0; the text of the message is not modelled.
\<close>

definition ERR_PARTITION_ALREADY_DISABLED :: int where "ERR_PARTITION_ALREADY_DISABLED = 4002"
definition ERR_PARTITION_NOT_EXIST :: int where "ERR_PARTITION_NOT_EXIST = 4003"
definition ERR_PARTITION_ALREADY_ENABLED :: int where "ERR_PARTITION_ALREADY_ENABLED = 4004"
definition WARN_NO_PARTITION_PERFORMED :: int where "WARN_NO_PARTITION_PERFORMED = 2042"

definition lp_of :: "EMEntry \<Rightarrow> LogicalPartition" where
  "lp_of e = \<lparr>lp_dbRoot = em_dbRoots e, lp_pp = word_of_int (em_partitionNum e), lp_seg = word_of_int (em_segmentNum e)\<rparr>"

definition lp_equiv :: "LogicalPartition \<Rightarrow> LogicalPartition \<Rightarrow> bool" where
  "lp_equiv a b \<longleftrightarrow> \<not> lp_less a b \<and> \<not> lp_less b a"

definition lp_find :: "LogicalPartition \<Rightarrow> LogicalPartition list \<Rightarrow> bool" where
  "lp_find x ps = list_ex (lp_equiv x) ps"

definition lp_insert :: "LogicalPartition \<Rightarrow> LogicalPartition list \<Rightarrow> LogicalPartition list" where
  "lp_insert x ps = (if lp_find x ps then ps else ps @ [x])"

definition em_in_partitions :: "OID_t list \<Rightarrow> LogicalPartition list \<Rightarrow> EMEntry \<Rightarrow> bool" where
  "em_in_partitions oids ps e \<longleftrightarrow> em_used e \<and> lp_find (lp_of e) ps \<and> em_fileID e \<in> set oids"

definition foundPartitions :: "OID_t list \<Rightarrow> LogicalPartition list \<Rightarrow> EMEntry list \<Rightarrow> LogicalPartition list" where
  "foundPartitions oids ps es = fold lp_insert (map lp_of (filter (em_in_partitions oids ps) es)) []"

text \<open>The indices collected in \<^verbatim>\<open>extents\<close>.\<close>

definition foundExtents :: "OID_t list \<Rightarrow> LogicalPartition list \<Rightarrow> EMEntry list \<Rightarrow> nat list" where
  "foundExtents oids ps es = filter (\<lambda>i. em_in_partitions oids ps (es ! i)) [0 ..< length es]"

primrec em_delete_each :: "nat list \<Rightarrow> ExtentMap \<Rightarrow> ExtentMap option" where
  "em_delete_each [] s = Some s"
| "em_delete_each (i # is) s = Option.bind (em_deleteExtent i s) (em_delete_each is)"

definition em_deletePartition :: "OID_t list \<Rightarrow> LogicalPartition list \<Rightarrow> ExtentMap \<Rightarrow> (int \<times> ExtentMap) option" where
  "em_deletePartition oids ps s =
    (if oids = [] then Some (0, s)
     else
       let found = foundPartitions oids ps (em_entries s);
           rc = (if length found \<noteq> length ps then ERR_PARTITION_NOT_EXIST else 0)
       in map_option (Pair (if found = [] then WARN_NO_PARTITION_PERFORMED else rc))
            (em_delete_each (foundExtents oids ps (em_entries s)) s))"

definition em_set_status :: "int \<Rightarrow> nat \<Rightarrow> ExtentMap \<Rightarrow> ExtentMap" where
  "em_set_status st i s = em_put i ((em_entries s ! i)\<lparr>em_status := st\<rparr>) s"

definition em_markPartitionForDeletion :: "OID_t list \<Rightarrow> LogicalPartition list \<Rightarrow> ExtentMap \<Rightarrow> int \<times> ExtentMap" where
  "em_markPartitionForDeletion oids ps s =
    (if oids = [] then (0, s)
     else
       let es = em_entries s; found = foundPartitions oids ps es; idx = foundExtents oids ps es;
           disabled = (\<exists>i \<in> set idx. em_status (es ! i) = EXTENTOUTOFSERVICE);
           rc1 = (if length found \<noteq> length ps then ERR_PARTITION_NOT_EXIST else 0);
           rc2 = (if disabled then ERR_PARTITION_ALREADY_DISABLED else rc1)
       in (if found = [] then WARN_NO_PARTITION_PERFORMED else rc2, fold (em_set_status EXTENTOUTOFSERVICE) idx s))"

definition em_markAllPartitionForDeletion :: "OID_t list \<Rightarrow> ExtentMap \<Rightarrow> ExtentMap" where
  "em_markAllPartitionForDeletion oids s =
    (if oids = [] then s
     else fold (em_set_status EXTENTOUTOFSERVICE)
       (filter (\<lambda>i. em_used (em_entries s ! i) \<and> em_fileID (em_entries s ! i) \<in> set oids) [0 ..< length (em_entries s)]) s)"

definition em_restorePartition :: "OID_t list \<Rightarrow> LogicalPartition list \<Rightarrow> ExtentMap \<Rightarrow> int \<times> ExtentMap" where
  "em_restorePartition oids ps s =
    (if oids = [] then (0, s)
     else
       let es = em_entries s; found = foundPartitions oids ps es; idx = foundExtents oids ps es;
           enabled = (\<exists>i \<in> set idx. em_status (es ! i) = EXTENTAVAILABLE)
       in if length found \<noteq> length ps then (ERR_PARTITION_NOT_EXIST, s)
          else (if enabled then ERR_PARTITION_ALREADY_ENABLED else 0, fold (em_set_status EXTENTAVAILABLE) idx s))"

definition em_getOutOfServicePartitions :: "OID_t \<Rightarrow> ExtentMap \<Rightarrow> LogicalPartition list res" where
  "em_getOutOfServicePartitions OID s =
    (if OID < 0 then Inl (Invalid_argument ''ExtentMap::getOutOfServicePartitions(): invalid OID requested: '')
     else Inr (fold lp_insert (map lp_of (filter (\<lambda>e. em_used e \<and> em_fileID e = OID \<and>
       em_status e = EXTENTOUTOFSERVICE) (em_entries s))) []))"

section \<open>Effects\<close>

lemma em_set_status_entries:
  "em_entries (fold (em_set_status st) is s) =
    map (\<lambda>i. if i \<in> set is then (em_entries s ! i)\<lparr>em_status := st\<rparr> else em_entries s ! i) [0 ..< length (em_entries s)]"
proof (induction "is" arbitrary: s)
  case (Cons i "is")
  have "em_entries (em_set_status st i s) = (em_entries s)[i := (em_entries s ! i)\<lparr>em_status := st\<rparr>]"
    by (simp add: em_set_status_def em_writes)
  then show ?case using Cons.IH by (auto simp: nth_update_if)
qed (simp add: map_nth)

lemma em_set_status_inv:
  assumes "em_inv s" "\<forall>i \<in> set is. i < length (em_entries s)"
  shows "em_inv (fold (em_set_status st) is s)" "em_journalled s (fold (em_set_status st) is s)"
proof -
  have "em_inv (fold (em_set_status st) is s) \<and> em_journalled s (fold (em_set_status st) is s)"
    using assms
  proof (induction "is" arbitrary: s)
    case (Cons i "is")
    have step: "em_inv (em_set_status st i s)" "em_journalled s (em_set_status st i s)"
        "length (em_entries (em_set_status st i s)) = length (em_entries s)"
      using Cons.prems em_put_inv [of s i] by (simp_all add: em_set_status_def em_put_journalled) (simp add: em_writes)
    with Cons.IH [of "em_set_status st i s"] Cons.prems show ?case
      by (auto intro: em_log.journalled_trans)
  qed (simp add: em_log.journalled_refl)
  then show "em_inv (fold (em_set_status st) is s)" "em_journalled s (fold (em_set_status st) is s)" by simp_all
qed

lemma em_delete_each_ok:
  assumes "em_inv s" "distinct is" "\<forall>i \<in> set is. i < length (em_entries s) \<and> em_used (em_entries s ! i)"
  shows "\<exists>s'. em_delete_each is s = Some s' \<and> em_inv s' \<and>
    em_entries s' = map (\<lambda>i. if i \<in> set is then em_freed (em_entries s ! i) else em_entries s ! i) [0 ..< length (em_entries s)]"
  using assms
proof (induction "is" arbitrary: s)
  case Nil
  then show ?case by (simp add: map_nth)
next
  case (Cons i "is")
  have i: "i < length (em_entries s)" "em_used (em_entries s ! i)" using Cons.prems by simp_all
  obtain s1 where s1: "em_deleteExtent i s = Some s1" "em_inv s1" "em_entries s1 = (em_entries s)[i := em_freed (em_entries s ! i)]"
    using em_deleteExtent_ok [OF Cons.prems(1) i] unfolding em_freed_def by blast
  have "\<forall>j \<in> set is. j < length (em_entries s1) \<and> em_used (em_entries s1 ! j)"
    using Cons.prems by (auto simp: s1(3) nth_list_update)
  with Cons.IH [OF s1(2)] Cons.prems(2) obtain s' where s': "em_delete_each is s1 = Some s'" "em_inv s'"
    "em_entries s' = map (\<lambda>j. if j \<in> set is then em_freed (em_entries s1 ! j) else em_entries s1 ! j) [0 ..< length (em_entries s1)]"
    by auto
  have "em_entries s' = map (\<lambda>j. if j \<in> set (i # is) then em_freed (em_entries s ! j) else em_entries s ! j) [0 ..< length (em_entries s)]"
    using Cons.prems(2) i(1) by (auto simp: s'(3) s1(3) nth_update_if)
  with s1(1) s'(1,2) show ?case by simp
qed

lemma map_found: "map (\<lambda>i. if i \<in> set (filter (\<lambda>i. P (es ! i)) [0 ..< length es]) then f (es ! i) else es ! i) [0 ..< length es]
    = map (\<lambda>e. if P e then f e else e) es"
  by (rule nth_equalityI) simp_all

end
