(* ===== verification/Extent_Casual.thy ===== *)
theory Extent_Casual
  imports Extent_Lookup
begin

text \<open>
  Casual partitioning: the minimum and maximum kept for each extent, with a sequence number that is
  counted up at each change and a state (\<^verbatim>\<open>CP_INVALID\<close>, \<^verbatim>\<open>CP_UPDATING\<close>,
  \<^verbatim>\<open>CP_VALID\<close>). A scan that computed new bounds may store them only if the sequence number
  is still the one it started from; a bulk load merges its bounds into the ones there. The values are
  64-bit words, read as signed, unsigned or byte-swapped numbers depending on the column type.
\<close>

definition EM_MAX_SEQNUM :: int where
  "EM_MAX_SEQNUM = 2000000000"

definition incSeqNum :: "int \<Rightarrow> int" where
  "incSeqNum n = (if s32 (n + 1) > EM_MAX_SEQNUM then 0 else s32 (n + 1))"

text \<open>The column types whose values are compared as character strings are byte-swapped first
  (\<^verbatim>\<open>uint64ToStr\<close>, that is \<^verbatim>\<open>htonll\<close> on a little-endian machine).\<close>

definition uint64ToStr :: "uint64 \<Rightarrow> uint64" where
  "uint64ToStr w = foldl (\<lambda>acc i. push_bit 8 acc OR (drop_bit (8 * i) w AND 0xFF)) 0 [0 ..< 8]"

definition isValidCPRange :: "uint64 \<Rightarrow> uint64 \<Rightarrow> ColDataType \<Rightarrow> bool" where
  "isValidCPRange mx mn t =
    (if isUnsigned t then \<not> (uint mn \<ge> 2 ^ 64 - 2 \<or> uint mx \<ge> 2 ^ 64 - 2)
     else \<not> (sint mn \<le> - (2 ^ 63) + 1 \<or> sint mx \<le> - (2 ^ 63) + 1))"

abbreviation em_cp :: "(EMCasualPartition \<Rightarrow> EMCasualPartition) \<Rightarrow> EMEntry \<Rightarrow> EMEntry" where
  "em_cp f e \<equiv> e\<lparr>em_cprange := f (em_cprange e)\<rparr>"

section \<open>Invalidating and setting\<close>

definition cp_markInvalid :: "ColDataType \<Rightarrow> EMCasualPartition \<Rightarrow> EMCasualPartition" where
  "cp_markInvalid t c = (let c1 = cp_reset t (c\<lparr>isValid := CP_UPDATING\<rparr>) in c1\<lparr>sequenceNum := incSeqNum (sequenceNum c1)\<rparr>)"

definition em_markInvalid :: "LBID_t \<Rightarrow> ColDataType \<Rightarrow> ExtentMap \<Rightarrow> unit res \<times> ExtentMap" where
  "em_markInvalid lbid t s =
    (case index_of (em_covers lbid) (em_entries s) of
       None \<Rightarrow> (Inl (Logic_error ''ExtentMap::markInvalid(): lbid isn't allocated''), s)
     | Some i \<Rightarrow> (Inr (), em_put i (em_cp (cp_markInvalid t) (em_entries s ! i)) s))"

text \<open>The vector form: a failure is only reported on standard error. \<open>None\<close>: fewer types than
  LBIDs.\<close>

fun em_markInvalid_all :: "LBID_t list \<Rightarrow> ColDataType list \<Rightarrow> ExtentMap \<Rightarrow> ExtentMap option" where
  "em_markInvalid_all [] ts s = Some s"
| "em_markInvalid_all (l # ls) [] s = None"
| "em_markInvalid_all (l # ls) (t # ts) s = em_markInvalid_all ls ts (snd (em_markInvalid l t s))"

definition cp_set :: "uint64 \<Rightarrow> uint64 \<Rightarrow> int \<Rightarrow> EMCasualPartition \<Rightarrow> EMCasualPartition" where
  "cp_set mx mn valid c = c\<lparr>hi_val := mx, lo_val := mn, isValid := valid, sequenceNum := incSeqNum (sequenceNum c)\<rparr>"

definition cp_invalidate :: "EMCasualPartition \<Rightarrow> EMCasualPartition" where
  "cp_invalidate c = c\<lparr>isValid := CP_INVALID, sequenceNum := incSeqNum (sequenceNum c)\<rparr>"

definition em_setMaxMin :: "LBID_t \<Rightarrow> uint64 \<Rightarrow> uint64 \<Rightarrow> int \<Rightarrow> ExtentMap \<Rightarrow> unit res \<times> ExtentMap" where
  "em_setMaxMin lbid mx mn seqNum s =
    (case index_of (em_covers lbid) (em_entries s) of
       None \<Rightarrow> (Inl (Logic_error ''ExtentMap::setMaxMin(): lbid isn't allocated''), s)
     | Some i \<Rightarrow>
         let e = em_entries s ! i
         in (Inr (),
             if sequenceNum (em_cprange e) = seqNum then em_put i (em_cp (cp_set mx mn CP_VALID) e) s
             else if seqNum = -1 then em_put i (em_cp cp_invalidate e) s
             else s))"

definition em_getMaxMin :: "LBID_t \<Rightarrow> ExtentMap \<Rightarrow> (uint64 \<times> uint64 \<times> int \<times> int) res" where
  "em_getMaxMin lbid s =
    (case index_of (em_covers lbid) (em_entries s) of
       None \<Rightarrow> Inl (Logic_error ''ExtentMap::getMaxMin(): that lbid isn't allocated'')
     | Some i \<Rightarrow>
         let c = em_cprange (em_entries s ! i) in Inr (hi_val c, lo_val c, sequenceNum c, isValid c))"

section \<open>Setting the bounds of several extents\<close>

record CPMaxMin =
  cm_max :: uint64
  cm_min :: uint64
  cm_seqNum :: int

definition cp_setExtent :: "CPMaxMin \<Rightarrow> EMCasualPartition \<Rightarrow> EMCasualPartition option" where
  "cp_setExtent x c =
    (if sequenceNum c = cm_seqNum x \<and> isValid c = CP_INVALID then Some (cp_set (cm_max x) (cm_min x) CP_VALID c)
     else if cm_seqNum x = -1 then Some (cp_invalidate c)
     else if cm_seqNum x = -2 then Some (cp_set (cm_max x) (cm_min x) CP_INVALID c)
     else None)"

text \<open>The loop over the entries from index \<open>i\<close>, with \<open>n\<close> extents still to be found.\<close>

fun setExtents_loop :: "CPMaxMin std_map \<Rightarrow> nat list \<Rightarrow> nat \<Rightarrow> ExtentMap \<Rightarrow> unit res \<times> ExtentMap" where
  "setExtents_loop m [] n s = (Inl (Logic_error ''ExtentMap::setExtentsMaxMin(): lbid isn't allocated''), s)"
| "setExtents_loop m (i # is) n s =
    (let e = em_entries s ! i
     in case (if em_used e then map_of m (em_start e) else None) of
          None \<Rightarrow> setExtents_loop m is n s
        | Some x \<Rightarrow>
            let s' = (case cp_setExtent x (em_cprange e) of None \<Rightarrow> s | Some c \<Rightarrow> em_put i (e\<lparr>em_cprange := c\<rparr>) s)
            in if n = 1 then (Inr (), s') else setExtents_loop m is (n - 1) s')"

definition em_setExtentsMaxMin :: "CPMaxMin std_map \<Rightarrow> ExtentMap \<Rightarrow> unit res \<times> ExtentMap" where
  "em_setExtentsMaxMin m s = setExtents_loop m [0 ..< length (em_entries s)] (length m) s"

section \<open>Merging the bounds of a load\<close>

record CPMaxMinMerge =
  mm_max :: uint64
  mm_min :: uint64
  mm_seqNum :: int
  mm_type :: ColDataType
  mm_newExtent :: bool

text \<open>The order in which the merge compares the values of a type.\<close>

definition cp_val :: "ColDataType \<Rightarrow> uint64 \<Rightarrow> int" where
  "cp_val t w = (if isCharType t then sint (uint64ToStr w) else if isUnsigned t then uint w else sint w)"

definition cp_merge_valid :: "CPMaxMinMerge \<Rightarrow> EMCasualPartition \<Rightarrow> EMCasualPartition" where
  "cp_merge_valid x c =
    (let c1 =
       (if isValidCPRange (hi_val c) (lo_val c) (mm_type x) then
          c\<lparr>lo_val := (if cp_val (mm_type x) (mm_min x) < cp_val (mm_type x) (lo_val c) then mm_min x else lo_val c),
            hi_val := (if cp_val (mm_type x) (mm_max x) > cp_val (mm_type x) (hi_val c) then mm_max x else hi_val c)\<rparr>
        else c\<lparr>lo_val := mm_min x, hi_val := mm_max x\<rparr>)
     in c1\<lparr>sequenceNum := incSeqNum (sequenceNum c1)\<rparr>)"

definition cp_merge_invalid :: "CPMaxMinMerge \<Rightarrow> EMCasualPartition \<Rightarrow> EMCasualPartition" where
  "cp_merge_invalid x c =
    (let c1 =
       (if mm_newExtent x then
          (if isValidCPRange (mm_max x) (mm_min x) (mm_type x) then c\<lparr>lo_val := mm_min x, hi_val := mm_max x\<rparr> else c)
            \<lparr>isValid := CP_VALID\<rparr>
        else c)
     in c1\<lparr>sequenceNum := incSeqNum (sequenceNum c1)\<rparr>)"

definition cp_mergeExtent :: "CPMaxMinMerge \<Rightarrow> EMCasualPartition \<Rightarrow> EMCasualPartition option" where
  "cp_mergeExtent x c =
    (if isValid c = CP_VALID then
       (if isValidCPRange (mm_max x) (mm_min x) (mm_type x) then Some (cp_merge_valid x c) else None)
     else if isValid c = CP_UPDATING then Some (c\<lparr>sequenceNum := incSeqNum (sequenceNum c)\<rparr>)
     else Some (cp_merge_invalid x c))"

fun mergeExtents_loop :: "CPMaxMinMerge std_map \<Rightarrow> nat list \<Rightarrow> nat \<Rightarrow> ExtentMap \<Rightarrow> unit res \<times> ExtentMap" where
  "mergeExtents_loop m [] n s = (Inl (Logic_error ''ExtentMap::mergeExtentsMaxMin(): lbid not found''), s)"
| "mergeExtents_loop m (i # is) n s =
    (let e = em_entries s ! i
     in case (if em_used e then map_of m (em_start e) else None) of
          None \<Rightarrow> mergeExtents_loop m is n s
        | Some x \<Rightarrow>
            let s' = (case cp_mergeExtent x (em_cprange e) of None \<Rightarrow> s | Some c \<Rightarrow> em_put i (e\<lparr>em_cprange := c\<rparr>) s)
            in if n = 1 then (Inr (), s') else mergeExtents_loop (sm_erase (em_start e) m) is (n - 1) s')"

definition em_mergeExtentsMaxMin :: "CPMaxMinMerge std_map \<Rightarrow> ExtentMap \<Rightarrow> unit res \<times> ExtentMap" where
  "em_mergeExtentsMaxMin m s = mergeExtents_loop m [0 ..< length (em_entries s)] (length m) s"

section \<open>Lemmas\<close>

lemma incSeqNum_changes: "incSeqNum n \<noteq> n"
proof
  assume eq: "incSeqNum n = n"
  show False
  proof (cases "s32 (n + 1) > EM_MAX_SEQNUM")
    case True
    with eq show ?thesis by (simp add: incSeqNum_def EM_MAX_SEQNUM_def s32_id)
  next
    case False
    with eq have "take_bit 32 n = take_bit 32 (n + 1)" by (metis incSeqNum_def take_bit_s32)
    then have "2 ^ 32 dvd n - (n + 1)" unfolding take_bit_eq_mod mod_eq_dvd_iff .
    then show ?thesis by simp
  qed
qed

text \<open>The merge is the hull of the two ranges, in the order of the type.\<close>

lemma cp_merge_hull:
  assumes "isValidCPRange (hi_val c) (lo_val c) (mm_type x)"
  shows "cp_val (mm_type x) (lo_val (cp_merge_valid x c)) = min (cp_val (mm_type x) (mm_min x)) (cp_val (mm_type x) (lo_val c))"
    "cp_val (mm_type x) (hi_val (cp_merge_valid x c)) = max (cp_val (mm_type x) (mm_max x)) (cp_val (mm_type x) (hi_val c))"
  using assms by (auto simp: cp_merge_valid_def Let_def)

lemma cp_merge_valid_kept: "isValid (cp_merge_valid x c) = isValid c" "sequenceNum (cp_merge_valid x c) = incSeqNum (sequenceNum c)"
  by (simp_all add: cp_merge_valid_def Let_def)

text \<open>The merge of a whole map: when each of its keys is the first block of an extent, every one of
  these extents is merged with its bounds and the others stay as they are.\<close>

definition em_merged :: "CPMaxMinMerge std_map \<Rightarrow> EMEntry \<Rightarrow> EMEntry" where
  "em_merged m e =
    (case (if em_used e then map_of m (em_start e) else None) of
       None \<Rightarrow> e
     | Some x \<Rightarrow> (case cp_mergeExtent x (em_cprange e) of None \<Rightarrow> e | Some c \<Rightarrow> e\<lparr>em_cprange := c\<rparr>))"

lemma em_merged_start [simp]: "em_start (em_merged m e) = em_start e" "em_used (em_merged m e) = em_used e"
  by (auto simp: em_merged_def em_used_def split: option.split)

lemma map_of_singleton:
  assumes "sm_wf m" "length m = Suc 0" "map_of m k = Some x"
  shows "map_of m = [k \<mapsto> x]"
proof -
  obtain p where "m = [p]" using assms(2) by (cases m) auto
  with assms(3) show ?thesis by (cases p) (auto split: if_splits)
qed

lemma length_sm_erase: "sm_wf m \<Longrightarrow> map_of m k = Some x \<Longrightarrow> length m = Suc (length (sm_erase k m))"
proof (induction m)
  case (Cons p m)
  show ?case
  proof (cases "fst p = k")
    case True
    with Cons.prems(1) have "filter (\<lambda>y. fst y \<noteq> k) m = m" by (auto simp: sm_wf_Cons filter_id_conv)
    with True show ?thesis by (simp add: sm_erase_def)
  next
    case False
    with Cons show ?thesis by (cases p) (simp add: sm_wf_Cons sm_erase_def)
  qed
qed simp

lemma mergeExtents_loop_spec:
  assumes "distinct is" "sm_wf m" "m \<noteq> []" "n = length m" "set is \<subseteq> {..< length (em_entries s)}"
    and "\<forall>k \<in> dom (map_of m). \<exists>i \<in> set is. em_used (em_entries s ! i) \<and> em_start (em_entries s ! i) = k"
    and "\<forall>i \<in> set is. \<forall>j \<in> set is. em_used (em_entries s ! i) \<longrightarrow> em_used (em_entries s ! j) \<longrightarrow>
      em_start (em_entries s ! i) = em_start (em_entries s ! j) \<longrightarrow> i = j"
  shows "\<exists>s'. mergeExtents_loop m is n s = (Inr (), s') \<and> length (em_entries s') = length (em_entries s) \<and>
    (\<forall>i < length (em_entries s). em_entries s' ! i = (if i \<in> set is then em_merged m (em_entries s ! i) else em_entries s ! i))"
  using assms
proof (induction "is" arbitrary: m n s)
  case Nil
  from Nil.prems(3) obtain p where "p \<in> set m" by (cases m) auto
  then have "fst p \<in> dom (map_of m)" by (simp add: dom_map_of_conv_image_fst)
  with Nil.prems(6) show ?case by fastforce
next
  case (Cons i "is")
  let ?e = "em_entries s ! i"
  have i: "i < length (em_entries s)" "i \<notin> set is" "distinct is" "set is \<subseteq> {..< length (em_entries s)}" using Cons.prems(1,5) by auto
  show ?case
  proof (cases "if em_used ?e then map_of m (em_start ?e) else None")
    case None
    have keys: "\<forall>k \<in> dom (map_of m). \<exists>i \<in> set is. em_used (em_entries s ! i) \<and> em_start (em_entries s ! i) = k"
    proof
      fix k assume k: "k \<in> dom (map_of m)"
      then obtain j where j: "j \<in> set (i # is)" "em_used (em_entries s ! j)" "em_start (em_entries s ! j) = k"
        using Cons.prems(6) by blast
      with None k have "j \<noteq> i" by (auto split: if_splits)
      with j show "\<exists>i \<in> set is. em_used (em_entries s ! i) \<and> em_start (em_entries s ! i) = k" by auto
    qed
    have "em_merged m ?e = ?e" using None by (simp add: em_merged_def)
    with Cons.IH [OF i(3) Cons.prems(2-4) i(4) keys] Cons.prems(7) i(2) None show ?thesis by auto
  next
    case (Some x)
    then have used: "em_used ?e" "map_of m (em_start ?e) = Some x" by (auto split: if_splits)
    define s1 where "s1 = (case cp_mergeExtent x (em_cprange ?e) of None \<Rightarrow> s | Some c \<Rightarrow> em_put i (?e\<lparr>em_cprange := c\<rparr>) s)"
    have es1: "em_entries s1 = (em_entries s)[i := em_merged m ?e]"
      using Some by (simp add: s1_def em_merged_def em_put_def em_record_def split: option.split)
    have at: "em_entries s1 ! j = (if j = i then em_merged m ?e else em_entries s ! j)" if "j < length (em_entries s)" for j
      using that by (simp add: es1)
    have is1: "em_used (em_entries s1 ! j) = em_used (em_entries s ! j)" "em_start (em_entries s1 ! j) = em_start (em_entries s ! j)"
      if "j \<in> set is" for j
    proof -
      have "j < length (em_entries s)" "j \<noteq> i" using that i(2,4) by auto
      with at show "em_used (em_entries s1 ! j) = em_used (em_entries s ! j)" "em_start (em_entries s1 ! j) = em_start (em_entries s ! j)"
        by simp_all
    qed
    have other: "\<not> (em_used (em_entries s ! j) \<and> em_start (em_entries s ! j) = em_start ?e)" if "j \<in> set is" for j
      using that Cons.prems(7) used(1) i(2) by force
    have loop: "mergeExtents_loop m (i # is) n s = (if n = 1 then (Inr (), s1) else mergeExtents_loop (sm_erase (em_start ?e) m) is (n - 1) s1)"
      using Some by (simp add: s1_def Let_def)
    show ?thesis
    proof (cases "n = 1")
      case True
      have "em_merged m (em_entries s ! j) = em_entries s ! j" if "j \<in> set is" for j
        using other [OF that] map_of_singleton [OF Cons.prems(2) _ used(2)] True Cons.prems(4) by (auto simp: em_merged_def)
      with at i(2) have "\<forall>j < length (em_entries s). em_entries s1 ! j =
          (if j \<in> set (i # is) then em_merged m (em_entries s ! j) else em_entries s ! j)" by auto
      with True es1 show ?thesis unfolding loop by simp
    next
      case False
      let ?m = "sm_erase (em_start ?e) m"
      have len: "n - 1 = length ?m" using length_sm_erase [OF Cons.prems(2) used(2)] Cons.prems(4) by simp
      have "?m \<noteq> []" using len False Cons.prems(3,4) by (cases m) auto
      have keys: "\<forall>k \<in> dom (map_of ?m). \<exists>j \<in> set is. em_used (em_entries s1 ! j) \<and> em_start (em_entries s1 ! j) = k"
      proof
        fix k assume k: "k \<in> dom (map_of ?m)"
        then have k': "k \<in> dom (map_of m)" "k \<noteq> em_start ?e" by (auto split: if_splits)
        then obtain j where "j \<in> set (i # is)" "em_used (em_entries s ! j)" "em_start (em_entries s ! j) = k"
          using Cons.prems(6) by blast
        with k'(2) is1 show "\<exists>j \<in> set is. em_used (em_entries s1 ! j) \<and> em_start (em_entries s1 ! j) = k" by auto
      qed
      have uniq: "\<forall>i \<in> set is. \<forall>j \<in> set is. em_used (em_entries s1 ! i) \<longrightarrow> em_used (em_entries s1 ! j) \<longrightarrow>
          em_start (em_entries s1 ! i) = em_start (em_entries s1 ! j) \<longrightarrow> i = j"
        using Cons.prems(7) is1 by simp
      have bound: "set is \<subseteq> {..< length (em_entries s1)}" using i(4) es1 by simp
      obtain s' where s': "mergeExtents_loop ?m is (n - 1) s1 = (Inr (), s')" "length (em_entries s') = length (em_entries s1)"
        "\<forall>j < length (em_entries s1). em_entries s' ! j = (if j \<in> set is then em_merged ?m (em_entries s1 ! j) else em_entries s1 ! j)"
        using Cons.IH [OF i(3) sm_erase_wf [OF Cons.prems(2)] \<open>?m \<noteq> []\<close> len bound keys uniq] by blast
      have "em_merged ?m (em_entries s ! j) = em_merged m (em_entries s ! j)" if "j \<in> set is" for j
        using other [OF that] by (simp add: em_merged_def)
      moreover have "em_entries s1 ! j = em_entries s ! j" if "j \<in> set is" for j using that i(2) es1 by (metis nth_list_update_neq)
      ultimately have "\<forall>j < length (em_entries s). em_entries s' ! j =
          (if j \<in> set (i # is) then em_merged m (em_entries s ! j) else em_entries s ! j)" using s'(3) i(2) by (auto simp: es1)
      with False s'(1,2) es1 show ?thesis unfolding loop by simp
    qed
  qed
qed

lemma em_start_unique:
  assumes "em_inv s" "i < length (em_entries s)" "j < length (em_entries s)" "em_used (em_entries s ! i)"
    "em_used (em_entries s ! j)" "em_start (em_entries s ! i) = em_start (em_entries s ! j)"
  shows "i = j"
proof (rule em_covers_unique [OF assms(1-3)])
  have "0 < em_size (em_entries s ! k)" if "k < length (em_entries s)" "em_used (em_entries s ! k)" for k
    using em_inv_range_ok(1) [OF assms(1) that(1)] that(2) by (auto simp: range_ok_def em_used_def)
  with assms show "em_covers (em_start (em_entries s ! i)) (em_entries s ! i)" "em_covers (em_start (em_entries s ! i)) (em_entries s ! j)"
    by (force simp: em_covers_def em_lastBlock_def)+
qed

lemma em_mergeExtents_spec:
  assumes "em_inv s" "sm_wf m" "m \<noteq> []" "\<forall>k \<in> dom (map_of m). \<exists>e \<in># em_extents s. em_start e = k"
  shows "\<exists>s'. em_mergeExtentsMaxMin m s = (Inr (), s') \<and> em_entries s' = map (em_merged m) (em_entries s)"
proof -
  let ?is = "[0 ..< length (em_entries s)]"
  have keys: "\<forall>k \<in> dom (map_of m). \<exists>i \<in> set ?is. em_used (em_entries s ! i) \<and> em_start (em_entries s ! i) = k"
    using assms(4) by (fastforce simp: em_extents_def in_set_conv_nth)
  have uniq: "\<forall>i \<in> set ?is. \<forall>j \<in> set ?is. em_used (em_entries s ! i) \<longrightarrow> em_used (em_entries s ! j) \<longrightarrow>
      em_start (em_entries s ! i) = em_start (em_entries s ! j) \<longrightarrow> i = j"
    using em_start_unique [OF assms(1)] by auto
  have bound: "set ?is \<subseteq> {..< length (em_entries s)}" by auto
  obtain s' where "em_mergeExtentsMaxMin m s = (Inr (), s')" "length (em_entries s') = length (em_entries s)"
    "\<forall>i < length (em_entries s). em_entries s' ! i = em_merged m (em_entries s ! i)"
    using mergeExtents_loop_spec [OF _ assms(2,3) refl bound keys uniq] by (auto simp: em_mergeExtentsMaxMin_def)
  then show ?thesis by (auto intro!: nth_equalityI)
qed

end
