(* ===== verification/Extent_Check.thy ===== *)
theory Extent_Check
  imports Extent_Lookup
begin

text \<open>
  \<^verbatim>\<open>checkConsistency\<close>, with the widths of its local variables. Test 1b walks through the block
  space in a 32-bit \<^verbatim>\<open>int\<close> until it passes $2^{26}$ units, the size the space has in the
  comments. The space has \<^verbatim>\<open>MAX_LBID_SIZE\<close> = \<^verbatim>\<open>0xFFFFFFFF\<close> units, so adding
  the free range at its end wraps the variable to -1 and the test reports a gap: the theory shows that
  it does so on every map whose extents lie in the first $2^{26}$ units.
\<close>

section \<open>The tests\<close>

definition cc_end :: "InlineLBIDRange \<Rightarrow> LBID_t" where
  "cc_end r = il_start r + u32 (il_size r * 1024) - 1"

definition cc_overlap :: "InlineLBIDRange \<Rightarrow> InlineLBIDRange \<Rightarrow> bool" where
  "cc_overlap em fl \<longleftrightarrow>
    il_start em \<le> il_start fl \<and> cc_end em \<ge> il_start fl \<or>
    il_start em \<ge> il_start fl \<and> cc_end em \<le> cc_end fl \<or>
    il_start em \<le> cc_end fl \<and> cc_end em \<ge> cc_end fl"

definition cc_test1a :: "ExtentMap \<Rightarrow> bool" where
  "cc_test1a s \<longleftrightarrow> (\<forall>e \<in> set (em_entries s). \<forall>r \<in> set (fl_entries s).
    em_used e \<longrightarrow> fl_used r \<longrightarrow> \<not> cc_overlap (em_range e) r)"

definition cc_walk :: "InlineLBIDRange \<Rightarrow> int \<Rightarrow> int" where
  "cc_walk r lbid = (if il_start r div 1024 = lbid then s32 (lbid + il_size r) else lbid)"

text \<open>One round of the \<^verbatim>\<open>while\<close> loop of test 1b; \<open>None\<close>: an entry is not aligned.\<close>

definition cc_round :: "InlineLBIDRange list \<Rightarrow> int \<Rightarrow> int option" where
  "cc_round rs lbid = (if \<exists>r \<in> set rs. il_start r mod 1024 \<noteq> 0 then None else Some (fold cc_walk rs lbid))"

definition cc_error :: "string \<Rightarrow> unit res" where
  "cc_error t = Inl (Logic_error (''EM checkConsistency test '' @ t @ '' (data structures are read-locked)''))"

partial_function (option) cc_test1b :: "InlineLBIDRange list \<Rightarrow> int \<Rightarrow> unit res option" where
  "cc_test1b rs lbid =
    (if lbid < 67108864 then
       (case cc_round rs lbid of
          None \<Rightarrow> Some (cc_error ''1b'')
        | Some lbid' \<Rightarrow> if lbid' = lbid then Some (cc_error ''1b'') else cc_test1b rs lbid')
     else Some (Inr ()))"

definition cc_test1c :: "ExtentMap \<Rightarrow> bool" where
  "cc_test1c s \<longleftrightarrow> (\<forall>e \<in> set (em_entries s). em_used e \<longrightarrow> em_dbRoots e ! 0 \<noteq> 0)"

primrec cc_test2 :: "InlineLBIDRange list \<Rightarrow> bool" where
  "cc_test2 [] = True"
| "cc_test2 (r # rs) = ((fl_used r \<longrightarrow> (\<forall>r' \<in> set rs. fl_used r' \<longrightarrow> il_start r' \<noteq> il_start r + u32 (il_size r * 1024))) \<and> cc_test2 rs)"

definition cc_test5 :: "ExtentMap \<Rightarrow> bool" where
  "cc_test5 s \<longleftrightarrow> int (length (filter em_used (em_entries s))) = em_currentSize s div sizeof_EMEntry \<and>
    int (length (filter fl_used (fl_entries s))) = fl_currentSize s div sizeof_InlineLBIDRange"

definition em_checkConsistency :: "ExtentMap \<Rightarrow> unit res option" where
  "em_checkConsistency s =
    (if \<not> cc_test1a s then Some (cc_error ''1a'')
     else do {
       r \<leftarrow> cc_test1b (fl_entries s @ map em_range (em_entries s)) 0;
       Some (case r of
           Inl err \<Rightarrow> Inl err
         | Inr _ \<Rightarrow>
             if \<not> cc_test1c s then cc_error ''1c''
             else if \<not> cc_test2 (fl_entries s) then cc_error ''2''
             else if \<not> cc_test5 s then cc_error ''5a''
             else Inr ())
     })"

section \<open>The walk never reaches its end\<close>

definition cc_ranges :: "ExtentMap \<Rightarrow> InlineLBIDRange list" where
  "cc_ranges s = fl_entries s @ map em_range (em_entries s)"

lemma cc_ranges_space: "sum_list (map blk (cc_ranges s)) = em_space s"
  by (simp add: cc_ranges_def em_space_def comp_def ac_simps)

lemma cc_ranges_apart:
  assumes inv: "em_inv s" and i: "i < length (cc_ranges s)" "j < length (cc_ranges s)" "i \<noteq> j"
  shows "units (cc_ranges s ! i) \<inter> units (cc_ranges s ! j) = {}"
proof (rule ccontr)
  let ?rs = "cc_ranges s"
  assume "\<not> ?thesis"
  then obtain u where u: "u \<in> units (?rs ! i)" "u \<in> units (?rs ! j)" by blast
  have fin: "finite (units r)" for r by (simp add: units_def)
  have "blk (?rs ! i) + blk (?rs ! j) \<subseteq># mset_set {0 ..< MAX_LBID_SIZE}"
    using sum_list_map_two [OF i, of blk] inv by (simp add: cc_ranges_space em_inv_def)
  from mset_subset_eq_count [OF this, of u] u fin have "2 \<le> count (mset_set {0 ..< MAX_LBID_SIZE}) u"
    by (simp add: blk_def count_mset_set)
  then show False by (auto simp: count_mset_set' split: if_splits)
qed

lemma cc_ranges_ok:
  assumes "em_inv s" "r \<in> set (cc_ranges s)"
  shows "range_ok r" "il_size r = 0 \<or> il_start r div 1024 + il_size r \<le> MAX_LBID_SIZE"
proof -
  show ok: "range_ok r" using assms by (auto simp: cc_ranges_def em_inv_def em_wf_def)
  obtain i where i: "i < length (cc_ranges s)" "r = cc_ranges s ! i" using assms(2) by (auto simp: in_set_conv_nth)
  have "blk r \<subseteq># mset_set {0 ..< MAX_LBID_SIZE}"
    using sum_list_map_part [OF i(1), of blk] i(2) assms(1) by (simp add: cc_ranges_space em_inv_def)
  from units_bound [OF this ok] show "il_size r = 0 \<or> il_start r div 1024 + il_size r \<le> MAX_LBID_SIZE" .
qed

text \<open>\<open>k\<close> is where the free range at the end of the space begins.\<close>

definition cc_tail :: "ExtentMap \<Rightarrow> int \<Rightarrow> bool" where
  "cc_tail s k \<longleftrightarrow> k < 67108864 \<and> (\<exists>j < length (cc_ranges s).
    il_start (cc_ranges s ! j) div 1024 = k \<and> il_size (cc_ranges s ! j) = MAX_LBID_SIZE - k)"

lemma cc_walk_step:
  assumes inv: "em_inv s" and tail: "cc_tail s k" and r: "r \<in> set (cc_ranges s)" and l: "l = -1 \<or> 0 \<le> l \<and> l \<le> k"
  shows "cc_walk r l = -1 \<or> l \<le> cc_walk r l \<and> 0 \<le> cc_walk r l \<and> cc_walk r l \<le> k"
proof (cases "il_start r div 1024 = l \<and> il_size r \<noteq> 0")
  case False
  then have "cc_walk r l = l" using l tail by (auto simp: cc_walk_def cc_tail_def s32_id)
  with l show ?thesis by auto
next
  case True
  have ok: "range_ok r" "il_start r div 1024 + il_size r \<le> MAX_LBID_SIZE" using cc_ranges_ok [OF inv r] True by auto
  have l0: "0 \<le> l" "l \<le> k" using True ok(1) l by (auto simp: range_ok_def)
  obtain j where j: "j < length (cc_ranges s)" "il_start (cc_ranges s ! j) div 1024 = k" "il_size (cc_ranges s ! j) = MAX_LBID_SIZE - k"
    and k: "k < 67108864" using tail by (auto simp: cc_tail_def)
  obtain i where i: "i < length (cc_ranges s)" "r = cc_ranges s ! i" using r by (auto simp: in_set_conv_nth)
  show ?thesis
  proof (cases "i = j")
    case eq: True
    with True i j have "l = k" "il_size r = MAX_LBID_SIZE - k" by auto
    then have "cc_walk r l = s32 MAX_LBID_SIZE" using True by (simp add: cc_walk_def)
    then show ?thesis by (simp add: MAX_LBID_SIZE_def s32_def)
  next
    case False
    have kt: "k \<in> units (cc_ranges s ! j)" using j k by (simp add: units_def MAX_LBID_SIZE_def)
    have "\<not> (l \<le> k \<and> k < l + il_size r)"
      using cc_ranges_apart [OF inv i(1) j(1) False] kt True i(2) by (auto simp: units_def)
    then have "l + il_size r \<le> k" using l0 by simp
    moreover have "0 \<le> il_size r" using ok(1) by (simp add: range_ok_def)
    ultimately show ?thesis using True l0 k by (simp add: cc_walk_def s32_id)
  qed
qed

lemma cc_walk_stuck:
  assumes "em_inv s" "r \<in> set (cc_ranges s)"
  shows "cc_walk r (-1) = -1"
  using cc_ranges_ok(1) [OF assms] by (auto simp: cc_walk_def range_ok_def)

lemma cc_fold_stuck: "em_inv s \<Longrightarrow> set rs \<subseteq> set (cc_ranges s) \<Longrightarrow> fold cc_walk rs (-1) = -1"
  by (induction rs) (simp_all add: cc_walk_stuck)

lemma cc_fold:
  assumes inv: "em_inv s" and tail: "cc_tail s k" and rs: "set rs \<subseteq> set (cc_ranges s)"
  shows "l = -1 \<or> 0 \<le> l \<and> l \<le> k \<Longrightarrow>
    fold cc_walk rs l = -1 \<or> l \<le> fold cc_walk rs l \<and> 0 \<le> fold cc_walk rs l \<and> fold cc_walk rs l \<le> k"
  using rs
proof (induction rs arbitrary: l)
  case (Cons r rs)
  have "cc_walk r l = -1 \<or> l \<le> cc_walk r l \<and> 0 \<le> cc_walk r l \<and> cc_walk r l \<le> k"
    using cc_walk_step [OF inv tail, of r l] Cons.prems by simp
  then show ?case
  proof
    assume "cc_walk r l = -1"
    with cc_fold_stuck [OF inv] Cons.prems(2) show ?thesis by simp
  next
    assume "l \<le> cc_walk r l \<and> 0 \<le> cc_walk r l \<and> cc_walk r l \<le> k"
    with Cons.IH [of "cc_walk r l"] Cons.prems(2) show ?thesis by auto
  qed
qed auto

lemma cc_test1b_fails:
  assumes inv: "em_inv s" and tail: "cc_tail s k"
  shows "l = -1 \<or> 0 \<le> l \<and> l \<le> k \<Longrightarrow> cc_test1b (cc_ranges s) l = Some (cc_error ''1b'')"
proof (induction "nat (if l = -1 then 0 else k - l + 1)" arbitrary: l rule: less_induct)
  case less
  let ?l' = "fold cc_walk (cc_ranges s) l"
  have k: "k < 67108864" using tail by (simp add: cc_tail_def)
  have "\<forall>r \<in> set (cc_ranges s). il_start r mod 1024 = 0"
    using cc_ranges_ok(1) [OF inv] by (auto simp: range_ok_def)
  then have round: "cc_round (cc_ranges s) l = Some ?l'" by (simp add: cc_round_def)
  have l': "?l' = -1 \<or> l \<le> ?l' \<and> 0 \<le> ?l' \<and> ?l' \<le> k" by (rule cc_fold [OF inv tail _ less.prems]) simp
  have lt: "l < 67108864" using less.prems k by auto
  show ?case
  proof (cases "?l' = l")
    case True
    with lt round show ?thesis by (subst cc_test1b.simps) simp
  next
    case False
    have "l \<noteq> -1" using False cc_fold_stuck [OF inv order.refl] by auto
    with l' False less.prems have "nat (if ?l' = -1 then 0 else k - ?l' + 1) < nat (if l = -1 then 0 else k - l + 1)" by auto
    from less.hyps [OF this] l' have "cc_test1b (cc_ranges s) ?l' = Some (cc_error ''1b'')" by blast
    with lt round False show ?thesis by (subst cc_test1b.simps) simp
  qed
qed

lemma checkConsistency_fails:
  assumes "em_inv s" "cc_tail s k" "0 \<le> k"
  shows "em_checkConsistency s = Some (cc_error ''1a'') \<or> em_checkConsistency s = Some (cc_error ''1b'')"
  using cc_test1b_fails [OF assms(1,2), of 0] assms(3)
  by (auto simp: em_checkConsistency_def cc_ranges_def cc_error_def)

end
