(* ===== verification/Extent_Steps.thy ===== *)
theory Extent_Steps
  imports Extent_Partition Extent_Casual Extent_Check
begin

text \<open>
  All operations of the extent map that change it, as one step relation \<open>em_step\<close>, and the
  invariant \<open>em_good\<close> they keep: every block is held once, extents are below $2^{22}$ units,
  and every field of an entry fits its C++ type. Each operation is shown to return.
\<close>

definition em_good :: "ExtentMap \<Rightarrow> bool" where
  "em_good s \<longleftrightarrow> em_inv s \<and> em_small s \<and> (\<forall>e \<in> set (em_entries s). em_typed e)"

lemma em_good_offsets: "em_good s \<Longrightarrow> \<forall>e \<in> set (em_entries s). 0 \<le> em_blockOffset e"
  by (simp add: em_good_def em_typed_def)

lemma em_typed_freed [simp]: "em_typed (em_freed e) = em_typed e"
  by (simp add: em_typed_def em_freed_def)

lemma em_typed_fields [simp]:
  "em_typed (e\<lparr>em_status := st\<rparr>) = em_typed e" "em_typed (e\<lparr>em_cprange := c\<rparr>) = em_typed e"
  "em_typed e \<Longrightarrow> 0 \<le> h \<Longrightarrow> h < 2 ^ 32 \<Longrightarrow> em_typed (e\<lparr>em_HWM := h\<rparr>)"
  "em_typed e \<Longrightarrow> 0 \<le> h \<Longrightarrow> h < 2 ^ 32 \<Longrightarrow> em_typed (e\<lparr>em_HWM := h, em_status := st\<rparr>)"
  "em_typed e \<Longrightarrow> length d = MAX_DATA_REPLICATESIZE \<Longrightarrow> em_typed (e\<lparr>em_dbRoots := d\<rparr>)"
  by (simp_all add: em_typed_def)

lemma take_bit_16_bounds [simp]: "0 \<le> take_bit 16 (n::int)" "take_bit 16 n < 2 ^ 16" "take_bit 16 n < 65536"
  using take_bit_int_less_exp [of 16 n] by simp_all

section \<open>Sweeps\<close>

lemma fw_calc_bounds:
  assumes "fw_calc hwm e w = Some w'" "0 \<le> fw_hi w \<and> fw_hi w < 2 ^ 32"
  shows "0 \<le> fw_hi w' \<and> fw_hi w' < 2 ^ 32"
  using assms by (auto simp: fw_calc_def Let_def split: if_splits)

lemma reset_hwm_typed: "em_typed e \<Longrightarrow> 0 \<le> h \<Longrightarrow> h < 2 ^ 32 \<Longrightarrow> em_typed (act_entry (reset_hwm h e) e)"
  by (simp add: reset_hwm_def)

lemma stripe_act_typed:
  assumes "em_typed e" "0 \<le> hwm" "hwm < 2 ^ 32" "0 \<le> fw_hi w" "fw_hi w < 2 ^ 32"
  shows "em_typed (act_entry (stripe_act part seg hwm w e) e)"
  using assms by (simp add: stripe_act_def reset_hwm_typed)

definition fw_ok :: "fbo_window \<Rightarrow> bool" where
  "fw_ok w \<longleftrightarrow> 0 \<le> fw_hi w \<and> fw_hi w < 2 ^ 32"

lemma fw_ok_init [simp]: "fw_ok fbo_window0"
  by (simp add: fw_ok_def fbo_window0_def)

lemma fw_ok_calc: "fw_ok w \<Longrightarrow> fw_calc hwm e w = Some w' \<Longrightarrow> fw_ok w'"
  using fw_calc_bounds by (simp add: fw_ok_def)

lemma dbr_remove_length: "length (snd (dbr_remove r d)) = length d"
proof -
  have down: "length (shift_down xs) = length xs" for xs :: "uint16 list"
    by (induction xs rule: shift_down.induct) simp_all
  have "length (snd (dbr_remove_from n r d)) = length d" for n
    by (induction n r d rule: dbr_remove_from.induct) (auto simp: down split: prod.splits)
  then show ?thesis by (simp add: dbr_remove_def)
qed

definition seg_hwm_ok :: "(int \<times> int) std_map \<Rightarrow> bool" where
  "seg_hwm_ok m \<longleftrightarrow> (\<forall>v \<in> set m. 0 \<le> fst (snd v) \<and> fst (snd v) < 2 ^ 32)"

lemma seg_hwm_ok_empty [simp]: "seg_hwm_ok []"
  by (simp add: seg_hwm_ok_def)

lemma seg_to_hwm_ok: "\<forall>x \<in> set xs. 0 \<le> snd x \<and> snd x < 2 ^ 32 \<Longrightarrow> seg_hwm_ok m \<Longrightarrow> seg_hwm_ok (seg_to_hwm rng xs m)"
proof (induction xs arbitrary: m)
  case (Cons x xs)
  let ?m = "sm_put (fst x) (snd x, u32 (snd x - snd x mod rng)) m"
  have "seg_hwm_ok ?m" unfolding seg_hwm_ok_def
  proof
    fix v assume "v \<in> set ?m"
    then have "v = (fst x, snd x, u32 (snd x - snd x mod rng)) \<or> v \<in> set m"
      using set_sm_put_subset [of "fst x" "(snd x, u32 (snd x - snd x mod rng))" m] by blast
    with Cons.prems show "0 \<le> fst (snd v) \<and> fst (snd v) < 2 ^ 32" by (auto simp: seg_hwm_ok_def)
  qed
  with Cons.IH [of ?m] Cons.prems(1) show ?case by simp
qed simp

context em_sweeper
begin

lemma sweep_good:
  assumes good: "em_good s" and a: "Q a"
    and keep: "\<And>a e. Q a \<Longrightarrow> em_typed e \<Longrightarrow> Q (fst (f a e)) \<and> em_typed (act_entry (snd (f a e)) e)"
  obtains acc s' where "em_sweep_all f a s = Some (acc, s')" "em_good s'"
proof -
  have s: "em_inv s" "em_small s" "\<forall>e \<in> set (em_entries s). em_typed e" using good by (simp_all add: em_good_def)
  obtain s' where s': "em_sweep_all f a s = Some (swept_acc f a (em_entries s), s')" "em_inv s'"
    "em_entries s' = swept f a (em_entries s)" by (rule sweep_ok [OF s(1,2)])
  have "em_good s'"
    using s'(2) swept_sizes [of "em_entries s"] swept_state [of Q em_typed f, OF keep a s(3)] s(2)
    by (simp add: em_good_def s'(3) em_small_def)
  with s'(1) show thesis by (rule that)
qed

end

lemma deleteOID_good:
  assumes "em_good s"
  obtains r s' where "em_deleteOID OID s = Some (r, s')" "em_good s'"
proof -
  obtain acc s' where "em_sweep_all (deleteOID_act OID) False s = Some (acc, s')" "em_good s'"
    by (rule deleteOID.sweep_good [where Q = "\<lambda>_. True", OF assms TrueI]) (simp_all add: deleteOID_act_def)
  then show thesis by (intro that) (simp_all add: em_deleteOID_def)
qed

lemma deleteOIDs_good:
  assumes "em_good s"
  obtains s' where "em_deleteOIDs OIDs s = Some s'" "em_good s'"
proof -
  obtain acc s' where "em_sweep_all (deleteOIDs_act OIDs) () s = Some (acc, s')" "em_good s'"
    by (rule deleteOIDs.sweep_good [where Q = "\<lambda>_. True", OF assms TrueI]) (simp_all add: deleteOIDs_act_def)
  then show thesis by (intro that [of s']) (simp_all add: em_deleteOIDs_def)
qed

lemma deleteDBRoot_good:
  assumes "em_good s"
  obtains s' where "em_deleteDBRoot dbr s = Some s'" "em_good s'"
proof -
  have keep: "True \<and> em_typed (act_entry (snd (deleteDBRoot_act dbr a e)) e)" if "em_typed e" for a e
  proof -
    have "length (em_dbRoots e) = MAX_DATA_REPLICATESIZE" using that by (simp add: em_typed_def)
    with that show ?thesis by (simp add: deleteDBRoot_act_def dbr_remove_length)
  qed
  obtain acc s' where "em_sweep_all (deleteDBRoot_act dbr) () s = Some (acc, s')" "em_good s'"
    by (rule deleteDBRoot.sweep_good [where Q = "\<lambda>_. True", OF assms TrueI keep])
  then show thesis by (intro that [of s']) (simp_all add: em_deleteDBRoot_def)
qed

lemma rollbackColumn_good:
  assumes "em_good s" and h: "0 \<le> hwm" "hwm < 2 ^ 32"
  obtains s' where "em_rollbackColumnExtents_DBroot oid bDeleteAll dbRoot part seg hwm s = Some s'" "em_good s'"
proof -
  let ?f = "rollbackColumn_act oid bDeleteAll dbRoot part seg hwm"
  have keep: "fw_ok (fst (?f a e)) \<and> em_typed (act_entry (snd (?f a e)) e)" if "fw_ok a" "em_typed e" for a e
    using that h fw_ok_calc [of a hwm e] stripe_act_typed [of e hwm]
    by (auto simp: rollbackColumn_act_def fw_ok_def split: option.splits)
  obtain acc s' where "em_sweep_all ?f fbo_window0 s = Some (acc, s')" "em_good s'"
    by (rule rollbackColumn.sweep_good [where Q = fw_ok, OF assms(1) fw_ok_init keep])
  then show thesis by (intro that [of s']) (simp_all add: em_rollbackColumnExtents_DBroot_def)
qed

lemma rollbackDict_good:
  assumes "em_good s" and h: "\<forall>h \<in> set hwms. 0 \<le> h \<and> h < 2 ^ 32" and len: "length hwms \<le> length segNums"
  obtains s' where "em_rollbackDictStoreExtents_DBroot oid dbRoot part segNums hwms s = Some s'" "em_good s'"
proof -
  let ?xs = "zip segNums hwms"
  let ?f = "rollbackDict_act oid dbRoot part ?xs"
  have xs: "\<forall>x \<in> set ?xs. 0 \<le> snd x \<and> snd x < 2 ^ 32" using h by (auto dest: set_zip_rightD)
  have keep: "seg_hwm_ok (fst (?f m e)) \<and> em_typed (act_entry (snd (?f m e)) e)" if Q: "seg_hwm_ok m" and e: "em_typed e" for m e
  proof -
    define m' where "m' = (if m = [] then seg_to_hwm (fbo_range e) ?xs [] else m)"
    have m': "seg_hwm_ok m'" using Q seg_to_hwm_ok [OF xs] by (simp add: m'_def)
    then have v: "0 \<le> hw" "hw < 2 ^ 32" if "map_of m' g = Some (hw, lo)" for g hw lo
      using map_of_SomeD [OF that] by (auto simp: seg_hwm_ok_def)
    have reset: "em_typed (act_entry (reset_hwm hw e) e)" if "map_of m' g = Some (hw, lo)" for g hw lo
      using reset_hwm_typed [OF e v [OF that]] .
    have "?f m e = (m, Keep) \<or> ?f m e = (m, Delete) \<or> ?f m e = (m, Trap) \<or> fst (?f m e) = m' \<and>
        (snd (?f m e) \<in> {Delete, Keep} \<or> (\<exists>hw lo. map_of m' (em_segmentNum e) = Some (hw, lo) \<and> snd (?f m e) = reset_hwm hw e))"
      by (simp add: rollbackDict_act_def Let_def m'_def [symmetric] split: option.split)
    then show ?thesis using Q m' e reset by auto
  qed
  obtain acc s' where "em_sweep_all ?f [] s = Some (acc, s')" "em_good s'"
    by (rule rollbackDict.sweep_good [where Q = seg_hwm_ok, OF assms(1) seg_hwm_ok_empty keep])
  with len show thesis by (intro that [of s']) (simp_all add: em_rollbackDictStoreExtents_DBroot_def)
qed

definition infos_ok :: "(OID_t \<times> ExtentInfo) list \<Rightarrow> bool" where
  "infos_ok xs \<longleftrightarrow> (\<forall>x \<in> set xs. 0 \<le> ei_hwm (snd x) \<and> ei_hwm (snd x) < 2 ^ 32)"

lemma infos_okD: "infos_ok xs \<Longrightarrow> map_of xs k = Some x \<Longrightarrow> 0 \<le> ei_hwm x \<and> ei_hwm x < 2 ^ 32"
  using map_of_SomeD [of xs k x] by (force simp: infos_ok_def)

lemma deleteEmptyCol_good:
  assumes "em_good s" "infos_ok extentsInfo"
  obtains s' where "em_deleteEmptyColExtents extentsInfo s = Some s'" "em_good s'"
proof -
  let ?f = "deleteEmptyCol_act extentsInfo"
  have keep: "fw_ok (fst (?f w e)) \<and> em_typed (act_entry (snd (?f w e)) e)" if "fw_ok w" "em_typed e" for w e
    using that infos_okD [OF assms(2)] fw_ok_calc [of w _ e] stripe_act_typed [of e]
    by (auto simp: deleteEmptyCol_act_def fw_ok_def split: option.splits)
  obtain acc s' where "em_sweep_all ?f fbo_window0 s = Some (acc, s')" "em_good s'"
    by (rule deleteEmptyCol.sweep_good [where Q = fw_ok, OF assms(1) fw_ok_init keep])
  then show thesis by (intro that [of s']) (simp_all add: em_deleteEmptyColExtents_def)
qed

lemma deleteEmptyDict_good:
  assumes "em_good s" "infos_ok extentsInfo" "extentsInfo \<noteq> []"
  obtains s' where "em_deleteEmptyDictStoreExtents extentsInfo s = Some s'" "em_good s'"
proof (cases "ei_newFile (snd (hd extentsInfo))")
  case True
  obtain acc s' where "em_sweep_all (deleteNewDict_act extentsInfo) () s = Some (acc, s')" "em_good s'"
    by (rule deleteNewDict.sweep_good [where Q = "\<lambda>_. True", OF assms(1) TrueI])
      (simp_all add: deleteNewDict_act_def split: option.split)
  with True assms(3) show thesis
    by (intro that [of s']) (cases extentsInfo; simp add: em_deleteEmptyDictStoreExtents_def)+
next
  case False
  let ?f = "deleteOldDict_act extentsInfo"
  have keep: "fw_ok (fst (?f w e)) \<and> em_typed (act_entry (snd (?f w e)) e)" if "fw_ok w" "em_typed e" for w e
    using that infos_okD [OF assms(2)] fw_ok_calc [of w _ e] reset_hwm_typed [of e]
    by (auto simp: deleteOldDict_act_def split: option.splits)
  obtain acc s' where "em_sweep_all ?f fbo_window0 s = Some (acc, s')" "em_good s'"
    by (rule deleteOldDict.sweep_good [where Q = fw_ok, OF assms(1) fw_ok_init keep])
  with False assms(3) show thesis
    by (intro that [of s']) (cases extentsInfo; simp add: em_deleteEmptyDictStoreExtents_def)+
qed

section \<open>Partitions\<close>

lemma em_good_map:
  assumes "em_inv s'" "em_good s" "em_entries s' = map (\<lambda>i. g i (em_entries s ! i)) [0 ..< length (em_entries s)]"
    "\<And>i e. em_typed e \<Longrightarrow> em_typed (g i e)" "\<And>i e. em_size e < 2 ^ 22 \<Longrightarrow> em_size (g i e) < 2 ^ 22"
  shows "em_good s'"
  using assms by (auto simp: em_good_def em_small_def)

lemma set_status_good:
  assumes "em_good s" "\<forall>i \<in> set is. i < length (em_entries s)"
  shows "em_good (fold (em_set_status st) is s)"
proof -
  have "em_inv (fold (em_set_status st) is s)" using em_set_status_inv(1) assms by (simp add: em_good_def)
  from em_good_map [OF this assms(1), where g = "\<lambda>i e. if i \<in> set is then e\<lparr>em_status := st\<rparr> else e"]
  show ?thesis by (simp add: em_set_status_entries)
qed

lemma foundExtents_ok: "i \<in> set (foundExtents oids ps es) \<Longrightarrow> i < length es \<and> em_used (es ! i)"
  by (simp add: foundExtents_def em_in_partitions_def)

lemma deletePartition_good:
  assumes "em_good s"
  obtains rc s' where "em_deletePartition oids ps s = Some (rc, s')" "em_good s'"
proof (cases "oids = []")
  case True
  with assms show thesis by (intro that [of 0 s]) (simp_all add: em_deletePartition_def)
next
  case False
  let ?is = "foundExtents oids ps (em_entries s)"
  have dist: "distinct ?is" by (simp add: foundExtents_def)
  have used: "\<forall>i \<in> set ?is. i < length (em_entries s) \<and> em_used (em_entries s ! i)" using foundExtents_ok by blast
  obtain s' where s': "em_delete_each ?is s = Some s'" "em_inv s'"
    "em_entries s' = map (\<lambda>i. if i \<in> set ?is then em_freed (em_entries s ! i) else em_entries s ! i) [0 ..< length (em_entries s)]"
    using em_delete_each_ok [OF _ dist, of s] used assms by (auto simp: em_good_def)
  have "em_good s'"
    by (rule em_good_map [OF s'(2) assms, where g = "\<lambda>i e. if i \<in> set ?is then em_freed e else e"])
      (simp_all add: s'(3), simp add: em_freed_def)
  with s'(1) False show thesis by (intro that [of _ s']) (simp_all add: em_deletePartition_def Let_def)
qed

lemma markPartition_good: "em_good s \<Longrightarrow> em_good (snd (em_markPartitionForDeletion oids ps s))"
  and markAllPartition_good: "em_good s \<Longrightarrow> em_good (em_markAllPartitionForDeletion oids s)"
  and restorePartition_good: "em_good s \<Longrightarrow> em_good (snd (em_restorePartition oids ps s))"
  by (auto simp: em_markPartitionForDeletion_def em_markAllPartitionForDeletion_def em_restorePartition_def Let_def
      dest: foundExtents_ok intro!: set_status_good)

section \<open>Single entries\<close>

lemma em_put_good:
  assumes "em_good s" "i < length (em_entries s)" "em_range e = em_range (em_entries s ! i)" "em_typed e"
  shows "em_good (em_put i e s)"
proof -
  have s: "em_inv s" "em_small s" "\<forall>e \<in> set (em_entries s). em_typed e" using assms(1) by (simp_all add: em_good_def)
  have es: "em_entries (em_put i e s) = (em_entries s)[i := e]" by (simp add: em_writes)
  have mem: "x = e \<or> x \<in> set (em_entries s)" if "x \<in> set ((em_entries s)[i := e])" for x
    using that set_update_subset_insert [of "em_entries s" i e] by blast
  have "em_size e < 2 ^ 22" using assms(2,3) s(2) by (simp add: em_small_def)
  with em_put_inv [OF s(1) assms(2,3)] s(2,3) assms(4) mem show ?thesis
    unfolding em_good_def em_small_def es by blast
qed

lemma setLocalHWM_good:
  assumes good: "em_good s" and h: "0 \<le> newHWM"
  shows "em_good (snd (em_setLocalHWM OID part seg newHWM s))"
proof -
  let ?P = "em_in_segment OID part seg" and ?es = "em_entries s"
  obtain lst hi old where sc: "setHWM_scan ?P ?es = (lst, hi, old)" by (cases "setHWM_scan ?P ?es")
  note sp = setHWM_scan_spec [OF em_good_offsets [OF good] sc]
  show ?thesis
  proof (cases "lst = None \<or> newHWM \<ge> u32 (em_blockOffset (?es ! the lst) + em_size (?es ! the lst) * 1024)")
    case True
    with good show ?thesis by (auto simp: em_setLocalHWM_def sc Let_def split: option.splits)
  next
    case False
    then obtain i where i: "lst = Some i" "i < length ?es" and lt: "newHWM < u32 (em_blockOffset (?es ! i) + em_size (?es ! i) * 1024)"
      using sp by auto
    let ?s1 = "em_put i ((?es ! i)\<lparr>em_HWM := newHWM, em_status := EXTENTAVAILABLE\<rparr>) s"
    have "newHWM < 2 ^ 32" using lt u32_bounds(2) by (rule less_trans)
    moreover have "em_typed (?es ! i)" using good i(2) by (simp add: em_good_def)
    ultimately have g1: "em_good ?s1" using good i(2) h by (intro em_put_good) simp_all
    have len: "length (em_entries ?s1) = length ?es" by (simp add: em_writes)
    have g2: "em_good (em_put j ((em_entries ?s1 ! j)\<lparr>em_HWM := 0\<rparr>) ?s1)" if "old = Some j" for j
    proof -
      have j: "j < length (em_entries ?s1)" using sp that len by simp
      then have "em_typed (em_entries ?s1 ! j)" using g1 by (simp add: em_good_def)
      then show ?thesis by (intro em_put_good [OF g1 j]) simp_all
    qed
    have "snd (em_setLocalHWM OID part seg newHWM s) = (case old of None \<Rightarrow> ?s1
        | Some j \<Rightarrow> if j \<noteq> i then em_put j ((em_entries ?s1 ! j)\<lparr>em_HWM := 0\<rparr>) ?s1 else ?s1)"
      using lt by (simp add: em_setLocalHWM_def sc i(1) Let_def)
    with g1 g2 show ?thesis by (simp split: option.split)
  qed
qed

lemma bulkSetHWM_good: "em_good s \<Longrightarrow> \<forall>a \<in> set as. 0 \<le> bs_hwm a \<Longrightarrow> em_good (snd (em_bulkSetHWM as s))"
proof (induction "as" arbitrary: s)
  case (Cons a "as")
  have "em_good (snd (em_setLocalHWM (bs_oid a) (bs_partNum a) (bs_segNum a) (bs_hwm a) s))"
    using Cons.prems by (intro setLocalHWM_good) simp_all
  with Cons.IH Cons.prems show ?case by (auto split: prod.splits sum.splits)
qed simp

lemma bulkUpdateDBRoot_good:
  assumes "em_good s" "\<forall>x \<in> set args. length (snd x) = MAX_DATA_REPLICATESIZE"
  shows "em_good (em_bulkUpdateDBRoot args s)"
proof -
  let ?g = "\<lambda>e. case map_of args (em_start e) of None \<Rightarrow> e | Some d \<Rightarrow> e\<lparr>em_dbRoots := d\<rparr>"
  have range: "em_range (?g e) = em_range e" for e by (simp split: option.split)
  have len: "length d = MAX_DATA_REPLICATESIZE" if "map_of args k = Some d" for k d
    using map_of_SomeD [OF that] assms(2) by force
  have typed: "em_typed (?g e)" if "em_typed e" for e using that len by (simp split: option.split)
  have es: "em_entries (em_bulkUpdateDBRoot args s) = map ?g (em_entries s)" by (simp add: em_bulkUpdateDBRoot_def)
  have used: "em_used (?g e) = em_used e" for e by (simp add: em_used_def range)
  have "em_inv (em_bulkUpdateDBRoot args s)"
    using assms(1) unfolding em_good_def em_inv_def em_wf_def em_counted_def em_space_def es
    by (simp add: em_bulkUpdateDBRoot_def range used comp_def filter_map)
  moreover have "em_small (em_bulkUpdateDBRoot args s)" using assms(1) by (simp add: em_good_def em_small_def es range)
  ultimately show ?thesis using assms(1) typed by (simp add: em_good_def es)
qed

lemma em_cp_good: "em_good s \<Longrightarrow> i < length (em_entries s) \<Longrightarrow> em_good (em_put i ((em_entries s ! i)\<lparr>em_cprange := c\<rparr>) s)"
  by (rule em_put_good) (simp_all add: em_good_def)

lemma em_put_length [simp]: "length (em_entries (em_put i e s)) = length (em_entries s)"
  by (simp add: em_writes)

text \<open>What a change of the min/max values keeps.\<close>

definition cp_kept :: "ExtentMap \<Rightarrow> ExtentMap \<Rightarrow> bool" where
  "cp_kept s s' \<longleftrightarrow> (em_good s \<longrightarrow> em_good s') \<and> em_journalled s s' \<and> length (em_entries s') = length (em_entries s)"

lemma cp_kept_refl: "cp_kept s s"
  and cp_kept_trans: "cp_kept s s' \<Longrightarrow> cp_kept s' s'' \<Longrightarrow> cp_kept s s''"
  and cp_kept_put: "i < length (em_entries s) \<Longrightarrow> cp_kept s (em_put i ((em_entries s ! i)\<lparr>em_cprange := c\<rparr>) s)"
  by (auto simp: cp_kept_def em_log.journalled_refl em_cp_good em_put_journalled intro: em_log.journalled_trans)

lemma markInvalid_kept: "cp_kept s (snd (em_markInvalid lbid t s))"
  by (auto simp: em_markInvalid_def cp_kept_refl split: option.split dest!: index_of_SomeD intro: cp_kept_put)

lemma markInvalid_all_kept: "em_markInvalid_all ls ts s = Some s' \<Longrightarrow> cp_kept s s'"
  by (induction ls ts s rule: em_markInvalid_all.induct) (auto simp: cp_kept_refl intro: cp_kept_trans markInvalid_kept)

lemma setMaxMin_kept: "cp_kept s (snd (em_setMaxMin lbid mx mn seqNum s))"
  by (auto simp: em_setMaxMin_def Let_def cp_kept_refl split: option.split dest!: index_of_SomeD intro: cp_kept_put)

lemma setExtents_loop_kept: "\<forall>i \<in> set is. i < length (em_entries s) \<Longrightarrow> cp_kept s (snd (setExtents_loop m is n s))"
proof (induction m "is" n s rule: setExtents_loop.induct)
  case (2 m i "is" n s)
  let ?e = "em_entries s ! i"
  show ?case
  proof (cases "if em_used ?e then map_of m (em_start ?e) else None")
    case None
    with 2 show ?thesis by (simp add: Let_def)
  next
    case (Some x)
    define s' where "s' = (case cp_setExtent x (em_cprange ?e) of None \<Rightarrow> s | Some c \<Rightarrow> em_put i (?e\<lparr>em_cprange := c\<rparr>) s)"
    have s': "cp_kept s s'" using 2(3) cp_kept_put [of i s] by (simp add: s'_def cp_kept_refl split: option.split)
    then have "n \<noteq> 1 \<Longrightarrow> cp_kept s' (snd (setExtents_loop m is (n - 1) s'))"
      using 2(2) [OF refl Some s'_def] 2(3) by (simp add: cp_kept_def)
    with s' Some show ?thesis by (auto simp: Let_def s'_def [symmetric] intro: cp_kept_trans)
  qed
qed (simp add: cp_kept_refl)

lemma mergeExtents_loop_kept: "\<forall>i \<in> set is. i < length (em_entries s) \<Longrightarrow> cp_kept s (snd (mergeExtents_loop m is n s))"
proof (induction m "is" n s rule: mergeExtents_loop.induct)
  case (2 m i "is" n s)
  let ?e = "em_entries s ! i"
  show ?case
  proof (cases "if em_used ?e then map_of m (em_start ?e) else None")
    case None
    with 2 show ?thesis by (simp add: Let_def)
  next
    case (Some x)
    define s' where "s' = (case cp_mergeExtent x (em_cprange ?e) of None \<Rightarrow> s | Some c \<Rightarrow> em_put i (?e\<lparr>em_cprange := c\<rparr>) s)"
    have s': "cp_kept s s'" using 2(3) cp_kept_put [of i s] by (simp add: s'_def cp_kept_refl split: option.split)
    then have "n \<noteq> 1 \<Longrightarrow> cp_kept s' (snd (mergeExtents_loop (sm_erase (em_start ?e) m) is (n - 1) s'))"
      using 2(2) [OF refl Some s'_def] 2(3) by (simp add: cp_kept_def)
    with s' Some show ?thesis by (auto simp: Let_def s'_def [symmetric] intro: cp_kept_trans)
  qed
qed (simp add: cp_kept_refl)

section \<open>Creations\<close>

lemma em_typed_zero [simp]: "em_typed em_zero_entry"
  by (simp add: em_typed_def em_zero_entry_def dbr_zero_def MAX_DATA_REPLICATESIZE_def)

lemma em_created_good:
  assumes good: "em_good s" and cr: "em_created s s' new sz" and new: "\<And>e. new = Some e \<Longrightarrow> em_typed e \<and> em_size e < 2 ^ 22"
  shows "em_good s'"
proof -
  have zero: "em_size em_zero_entry < 2 ^ 22" by (simp add: em_zero_entry_def)
  have s: "em_inv s'" "\<forall>e \<in> set (em_entries s). em_typed e \<and> em_size e < 2 ^ 22"
    using good cr by (auto simp: em_good_def em_small_def em_created_def)
  have "\<forall>e \<in> set (em_entries s'). em_typed e \<and> em_size e < 2 ^ 22"
  proof (cases new)
    case None
    with cr obtain n where "em_entries s' = em_entries s @ replicate n em_zero_entry" by (auto simp: em_created_def)
    with s(2) zero show ?thesis by auto
  next
    case (Some e)
    with cr obtain n k where es: "em_entries s' = (em_entries s @ replicate n em_zero_entry)[k := e]" by (auto simp: em_created_def)
    have "set (em_entries s') \<subseteq> insert e (insert em_zero_entry (set (em_entries s)))"
      unfolding es using set_update_subset_insert [of "em_entries s @ replicate n em_zero_entry" k e] by auto
    with s(2) zero new [OF Some] show ?thesis by auto
  qed
  with s(1) show ?thesis by (simp add: em_good_def em_small_def)
qed

lemma part_scan_typed:
  assumes "\<forall>e \<in> set es. em_typed e" "em_typed lst"
  shows "\<forall>t \<in> fst ` set (ps_segs (part_scan_all OID dbRoot lst es)). 0 \<le> t \<and> t < 2 ^ 16"
    "em_segmentNum lst \<in> fst ` set (ps_segs (part_scan_all OID dbRoot lst es))"
proof -
  define J where "J ps \<longleftrightarrow> (\<forall>t \<in> fst ` set (ps_segs ps). 0 \<le> t \<and> t < (2::int) ^ 16) \<and> em_segmentNum lst \<in> fst ` set (ps_segs ps)" for ps :: part_scan
  have step: "J (part_scan_step OID dbRoot p e ps)" if "J ps" "em_typed e" for p e ps
  proof -
    have "J (part_scan_file dbRoot e ps')" if "J ps'" for ps'
    proof -
      have "0 \<le> em_segmentNum e \<and> em_segmentNum e < 2 ^ 16" using \<open>em_typed e\<close> by (simp add: em_typed_def)
      then show ?thesis using that unfolding J_def part_scan_file_keys by (cases "dbr_eq (em_dbRoots e) dbRoot") simp_all
    qed
    moreover have "J (ps\<lparr>ps_highSeg := h\<rparr>)" "J (ps\<lparr>ps_highSegNext := h\<rparr>)" for h using \<open>J ps\<close> by (simp_all add: J_def)
    ultimately show ?thesis using \<open>J ps\<close> by (simp add: part_scan_step_def)
  qed
  have "J (fold (part_scan_step OID dbRoot p) es ps)" if "J ps" for p ps
    using that assms(1) by (induction es arbitrary: ps) (simp_all add: step)
  moreover have "J (part_scan_init lst)" using assms(2) by (simp add: J_def part_scan_init_def em_typed_def)
  ultimately have "J (part_scan_all OID dbRoot lst es)" by (simp add: part_scan_all_def)
  then show "\<forall>t \<in> fst ` set (ps_segs (part_scan_all OID dbRoot lst es)). 0 \<le> t \<and> t < 2 ^ 16"
    "em_segmentNum lst \<in> fst ` set (ps_segs (part_scan_all OID dbRoot lst es))" by (simp_all add: J_def)
qed

definition place_typed :: "int \<times> int \<times> int \<Rightarrow> bool" where
  "place_typed x \<longleftrightarrow> (case x of (part, seg, off) \<Rightarrow> 0 \<le> part \<and> part < 2 ^ 32 \<and> 0 \<le> seg \<and> seg < 2 ^ 16 \<and> 0 \<le> off \<and> off < 2 ^ 32)"

lemma em_choose_typed:
  assumes typed: "\<forall>e \<in> set es. em_typed e" "em_typed lst"
    and ch: "em_choose cfg colWidth lst (part_scan_all OID dbRoot lst es) = Some x"
  shows "place_typed x"
proof -
  let ?ps = "part_scan_all OID dbRoot lst es"
  note keys = part_scan_typed [OF typed, of OID dbRoot]
  obtain lo hi nxt where sb: "seg_bounds (em_segmentNum lst) (ps_segs ?ps) = (lo, hi, nxt)" by (cases "seg_bounds (em_segmentNum lst) (ps_segs ?ps)")
  note sbs = seg_bounds_spec [OF sb keys(2)]
  have lst: "0 \<le> em_partitionNum lst" "em_partitionNum lst < 2 ^ 32" "0 \<le> em_blockOffset lst" "em_blockOffset lst < 2 ^ 32"
    using typed(2) by (simp_all add: em_typed_def)
  have seg: "0 \<le> g \<and> g < 2 ^ 16" if "g \<in> {lo, em_segmentNum lst} \<or> em_segmentNum lst \<noteq> hi \<and> nxt = Some g" for g
    using that sbs keys by auto
  obtain pl where pl: "em_place cfg colWidth lst ?ps = Some pl" using ch by (auto simp: em_choose_def bind_eq_Some_conv)
  show ?thesis
  proof (cases pl)
    case NewPartition
    with ch pl show ?thesis by (auto simp: em_choose_def place_typed_def)
  next
    case (NewStripe t)
    have "t = lo" using pl NewStripe by (auto simp: em_place_def sb Let_def split: if_splits)
    with ch pl NewStripe lst seg [of lo] show ?thesis by (auto simp: em_choose_def place_typed_def)
  next
    case (SameStripe t)
    have "t = take_bit 16 (ps_highSeg ?ps + 1) \<or> t = em_segmentNum lst \<or> em_segmentNum lst \<noteq> hi \<and> nxt = Some t"
      using pl SameStripe by (auto simp: em_place_def sb Let_def split: if_splits option.splits)
    then have "0 \<le> t \<and> t < 2 ^ 16" using seg [of t] by auto
    with ch pl SameStripe lst show ?thesis by (auto simp: em_choose_def place_typed_def)
  qed
qed

lemma createColumn_place_typed:
  assumes good: "em_good s" and part: "0 \<le> partitionNum" "partitionNum < 2 ^ 32"
    and cr: "em_createColumnExtent_DBroot cfg OID colWidth dbRoot t partitionNum s = Some (Inr (lbid, part, seg, off), s')"
  shows "place_typed (part, seg, off)"
proof -
  have inv: "em_inv s" using good by (simp add: em_good_def)
  obtain s1 n where s1: "em_growIfFull s = Some s1" "em_entries s1 = em_entries s @ replicate n em_zero_entry"
    by (rule em_growIfFull_ok [OF inv])
  obtain s2 where lb: "em_getLBIDsFromFreeList (extent_blocks colWidth div 1024) s1 = (Inr lbid, s2)"
    using cr by (auto simp: em_createColumnExtent_DBroot_def em_createColumnExtent0_def s1(1) Let_def Option.bind_eq_Some_conv
        split: prod.splits sum.splits option.splits)
  let ?es = "em_entries s2"
  have es: "?es = em_entries s1" using em_getLBIDs_cases(3) [OF lb] .
  have typed: "\<forall>e \<in> set ?es. em_typed e" using good by (auto simp: es s1(2) em_good_def)
  let ?c = "col_scan_all OID dbRoot partitionNum ?es"
  have ch: "(case cs_last ?c of
        None \<Rightarrow> Some (partitionNum, case cs_emptySeg ?c of None \<Rightarrow> 0 | Some h \<Rightarrow> take_bit 16 (h + 1), 0)
      | Some i \<Rightarrow> em_choose cfg colWidth (?es ! i) (part_scan_all OID dbRoot (?es ! i) ?es)) = Some (part, seg, off)"
    using cr by (auto simp: em_createColumnExtent_DBroot_def em_createColumnExtent0_def s1(1) lb Let_def Option.bind_eq_Some_conv
        split: option.splits)
  show ?thesis
  proof (cases "cs_last ?c")
    case None
    with ch part show ?thesis by (auto simp: place_typed_def split: option.splits)
  next
    case (Some i)
    with col_scan_spec [OF typed, of OID dbRoot partitionNum] have "i < length ?es" by (simp add: col_scan_inv_def)
    with typed have "em_typed (?es ! i)" by simp
    from em_choose_typed [OF typed this] ch Some show ?thesis by simp
  qed
qed

lemma em_new_entry_typed:
  assumes "place_typed (part, seg, off)" "length dbRoot = MAX_DATA_REPLICATESIZE"
  shows "em_typed (em_new_entry lbid sz OID colWidth dbRoot t part seg off)"
  using assms by (simp add: place_typed_def em_typed_def em_new_entry_def)

lemma createColumn_good:
  assumes good: "em_good s" and w: "0 < colWidth" "colWidth < 512" and cfg: "dbRootCount cfg \<noteq> 0"
    and part: "0 \<le> partitionNum" "partitionNum < 2 ^ 32" and dbr: "length dbRoot = MAX_DATA_REPLICATESIZE"
  obtains r s' where "em_createColumnExtent_DBroot cfg OID colWidth dbRoot t partitionNum s = Some (r, s')" "em_good s'"
    "\<not> em_full s \<Longrightarrow> em_journalled s s'" "\<And>lbid p g off. r = Inr (lbid, p, g, off) \<Longrightarrow> 0 \<le> p \<and> p < 2 ^ 32"
proof -
  have s: "em_inv s" "\<forall>e \<in> set (em_entries s). em_typed e" using good by (simp_all add: em_good_def)
  show thesis
  proof (rule em_createColumnExtent_ok [OF s w cfg, of OID dbRoot t partitionNum])
    fix err s' assume c: "em_createColumnExtent_DBroot cfg OID colWidth dbRoot t partitionNum s = Some (Inl err, s')"
      "em_created s s' None colWidth"
    with em_created_good [OF good c(2)] show thesis by (intro that [OF c(1)]) (simp_all add: em_created_def)
  next
    fix lbid p g off k n s'
    assume c: "em_createColumnExtent_DBroot cfg OID colWidth dbRoot t partitionNum s = Some (Inr (lbid, p, g, off), s')"
      "em_created s s' (Some (em_new_entry lbid colWidth OID colWidth dbRoot t p g off)) colWidth"
    note pt = createColumn_place_typed [OF good part c(1)]
    have "em_size (em_new_entry lbid colWidth OID colWidth dbRoot t p g off) < 2 ^ 22" using w by (simp add: em_new_entry_def)
    with em_created_good [OF good c(2)] em_new_entry_typed [OF pt dbr] pt c(2) show thesis
      by (intro that [OF c(1)]) (auto simp: em_created_def place_typed_def)
  qed
qed

lemma stripe_rest_good:
  assumes cfg: "dbRootCount cfg \<noteq> 0" and dbr: "length dbRoot = MAX_DATA_REPLICATESIZE"
  shows "em_good s \<Longrightarrow> \<forall>c \<in> set cols. 0 < st_width c \<and> st_width c < 512 \<Longrightarrow> 0 \<le> part \<Longrightarrow> part < 2 ^ 32 \<Longrightarrow>
    \<exists>r s'. em_stripe_rest cfg dbRoot part seg cols out s = Some (r, s') \<and> em_good s'"
proof (induction cols arbitrary: out s)
  case (Cons c cols)
  have w: "0 < st_width c" "st_width c < 512" using Cons.prems(2) by simp_all
  obtain r s' where c: "em_createColumnExtent_DBroot cfg (st_oid c) (st_width c) dbRoot (st_colDataType c) part s = Some (r, s')" "em_good s'"
    by (rule createColumn_good [OF Cons.prems(1) w cfg Cons.prems(3,4) dbr])
  with Cons.IH [OF c(2)] Cons.prems show ?case by (auto split: sum.split)
qed simp

lemma stripe_good:
  assumes "em_good s" "dbRootCount cfg \<noteq> 0" "length dbRoot = MAX_DATA_REPLICATESIZE" "0 \<le> part" "part < 2 ^ 32"
    "\<forall>c \<in> set cols. 0 < st_width c \<and> st_width c < 512"
  obtains r s' where "em_createStripeColumnExtents cfg cols dbRoot part seg s = Some (r, s')" "em_good s'"
proof (cases cols)
  case Nil
  with assms(1) show thesis by (intro that [of _ s]) (simp_all add: em_createStripeColumnExtents_def)
next
  case (Cons c rest)
  have w: "0 < st_width c" "st_width c < 512" using assms(6) Cons by simp_all
  obtain r s1 where c: "em_createColumnExtent_DBroot cfg (st_oid c) (st_width c) dbRoot (st_colDataType c) part s = Some (r, s1)"
    "em_good s1" "\<And>lbid p g off. r = Inr (lbid, p, g, off) \<Longrightarrow> 0 \<le> p \<and> p < 2 ^ 32"
    by (rule createColumn_good [OF assms(1) w assms(2,4,5,3)]) blast
  show thesis
  proof (cases r)
    case (Inl err)
    with c Cons show thesis by (intro that [of "Inl err" s1]) (simp_all add: em_createStripeColumnExtents_def)
  next
    case (Inr x)
    obtain lbid p g off where x: "x = (lbid, p, g, off)" by (cases x)
    with stripe_rest_good [OF assms(2,3) c(2), of rest p g "[(lbid, extent_blocks (st_width c), off)]"] c(3) Inr assms(6) Cons
    obtain r' s' where "em_stripe_rest cfg dbRoot p g rest [(lbid, extent_blocks (st_width c), off)] s1 = Some (r', s')" "em_good s'"
      by auto
    with c(1) Cons Inr x show thesis by (intro that [of r' s']) (simp_all add: em_createStripeColumnExtents_def)
  qed
qed

lemma createExactFile_good:
  assumes good: "em_good s" and w: "0 < colWidth" "colWidth < 512"
    and p: "0 \<le> part" "part < 2 ^ 32" "0 \<le> seg" "seg < 2 ^ 16" and dbr: "length dbRoot = MAX_DATA_REPLICATESIZE"
  obtains r s' where "em_createColumnExtentExactFile OID colWidth dbRoot part seg t s = Some (r, s')" "em_good s'"
    "\<not> em_full s \<Longrightarrow> em_journalled s s'"
proof -
  have s: "em_inv s" using good by (simp add: em_good_def)
  show thesis
  proof (rule em_createExactFile_ok [OF s em_good_offsets [OF good] w, of OID dbRoot part seg t])
    fix err s' assume c: "em_createColumnExtentExactFile OID colWidth dbRoot part seg t s = Some (Inl err, s')"
      "em_created s s' None colWidth"
    with em_created_good [OF good c(2)] show thesis by (intro that [OF c(1)]) (simp_all add: em_created_def)
  next
    fix lbid off s'
    assume c: "em_createColumnExtentExactFile OID colWidth dbRoot part seg t s = Some (Inr (lbid, off), s')"
      "em_created s s' (Some (em_new_entry lbid colWidth OID colWidth dbRoot t part seg off)) colWidth" "0 \<le> off \<and> off < 2 ^ 32"
    have "em_size (em_new_entry lbid colWidth OID colWidth dbRoot t part seg off) < 2 ^ 22" using w by (simp add: em_new_entry_def)
    moreover have "place_typed (part, seg, off)" using p c(3) by (simp add: place_typed_def)
    ultimately show thesis
      using em_created_good [OF good c(2)] em_new_entry_typed [OF _ dbr] c(2) by (intro that [OF c(1)]) (auto simp: em_created_def)
  qed
qed

lemma createDict_good:
  assumes good: "em_good s" and p: "0 \<le> part" "part < 2 ^ 32" "0 \<le> seg" "seg < 2 ^ 16" and dbr: "length dbRoot = MAX_DATA_REPLICATESIZE"
  obtains r s' where "em_createDictStoreExtent OID dbRoot part seg s = Some (r, s')" "em_good s'" "\<not> em_full s \<Longrightarrow> em_journalled s s'"
proof -
  have s: "em_inv s" "\<forall>e \<in> set (em_entries s). em_typed e" using good by (simp_all add: em_good_def)
  show thesis
  proof (rule em_createDict_ok [OF s(1) em_good_offsets [OF good], of OID dbRoot part seg])
    fix err s' assume c: "em_createDictStoreExtent OID dbRoot part seg s = Some (Inl err, s')" "em_created s s' None 8"
    with em_created_good [OF good c(2)] show thesis by (intro that [OF c(1)]) (simp_all add: em_created_def)
  next
    fix lbid e s'
    assume c: "em_createDictStoreExtent OID dbRoot part seg s = Some (Inr lbid, s')" "em_created s s' (Some e) 8" "em_size e = 8"
      and t: "\<forall>e \<in> set (em_entries s). em_typed e \<Longrightarrow> 0 \<le> part \<Longrightarrow> part < 2 ^ 32 \<Longrightarrow> 0 \<le> seg \<Longrightarrow> seg < 2 ^ 16 \<Longrightarrow>
        length dbRoot = MAX_DATA_REPLICATESIZE \<Longrightarrow> em_typed e"
    have "em_typed e" using t s(2) p dbr by blast
    with em_created_good [OF good c(2)] c(2,3) show thesis by (intro that [OF c(1)]) (auto simp: em_created_def)
  qed
qed

section \<open>The steps\<close>

text \<open>The operations that journal every write. Creations belong to them unless the table is full and
  has to grow first.\<close>

definition dbr_arg :: "DBROOTS_struct \<Rightarrow> bool" where
  "dbr_arg d \<longleftrightarrow> length d = MAX_DATA_REPLICATESIZE"

definition file_arg :: "DBROOTS_struct \<Rightarrow> int \<Rightarrow> int \<Rightarrow> bool" where
  "file_arg d part seg \<longleftrightarrow> dbr_arg d \<and> 0 \<le> part \<and> part < 2 ^ 32 \<and> 0 \<le> seg \<and> seg < 2 ^ 16"

definition width_arg :: "int \<Rightarrow> bool" where
  "width_arg w \<longleftrightarrow> 0 < w \<and> w < 512"

definition hwm_arg :: "HWM_t \<Rightarrow> bool" where
  "hwm_arg h \<longleftrightarrow> 0 \<le> h \<and> h < 2 ^ 32"

inductive em_create :: "ExtentMap \<Rightarrow> ExtentMap \<Rightarrow> bool" where
  create_column: "width_arg w \<Longrightarrow> file_arg d part 0 \<Longrightarrow> dbRootCount cfg \<noteq> 0 \<Longrightarrow>
    em_createColumnExtent_DBroot cfg OID w d t part s = Some (r, s') \<Longrightarrow> em_create s s'"
| create_exact: "width_arg w \<Longrightarrow> file_arg d part seg \<Longrightarrow>
    em_createColumnExtentExactFile OID w d part seg t s = Some (r, s') \<Longrightarrow> em_create s s'"
| create_dict: "file_arg d part seg \<Longrightarrow> em_createDictStoreExtent OID d part seg s = Some (r, s') \<Longrightarrow> em_create s s'"

inductive em_edit :: "ExtentMap \<Rightarrow> ExtentMap \<Rightarrow> bool" where
  set_hwm: "hwm_arg h \<Longrightarrow> em_setLocalHWM OID part seg h s = (r, s') \<Longrightarrow> em_edit s s'"
| bulk_hwm: "\<forall>a \<in> set as. hwm_arg (bs_hwm a) \<Longrightarrow> em_bulkSetHWM as s = (r, s') \<Longrightarrow> em_edit s s'"
| mark: "em_markPartitionForDeletion oids ps s = (rc, s') \<Longrightarrow> em_edit s s'"
| mark_all: "em_markAllPartitionForDeletion oids s = s' \<Longrightarrow> em_edit s s'"
| restore: "em_restorePartition oids ps s = (rc, s') \<Longrightarrow> em_edit s s'"
| mark_invalid: "em_markInvalid lbid t s = (r, s') \<Longrightarrow> em_edit s s'"
| mark_invalid_all: "em_markInvalid_all lbids ts s = Some s' \<Longrightarrow> em_edit s s'"
| set_max_min: "em_setMaxMin lbid mx mn seqNum s = (r, s') \<Longrightarrow> em_edit s s'"
| set_extents: "em_setExtentsMaxMin m s = (r, s') \<Longrightarrow> em_edit s s'"
| merge_extents: "em_mergeExtentsMaxMin mm s = (r, s') \<Longrightarrow> em_edit s s'"

inductive em_remove :: "ExtentMap \<Rightarrow> ExtentMap \<Rightarrow> bool" where
  delete_oid: "em_deleteOID OID s = Some (r, s') \<Longrightarrow> em_remove s s'"
| delete_oids: "em_deleteOIDs OIDs s = Some s' \<Longrightarrow> em_remove s s'"
| delete_dbroot: "em_deleteDBRoot dbr s = Some s' \<Longrightarrow> em_remove s s'"
| rollback_column: "hwm_arg h \<Longrightarrow> em_rollbackColumnExtents_DBroot OID all_extents d part seg h s = Some s' \<Longrightarrow> em_remove s s'"
| rollback_dict: "\<forall>h \<in> set hwms. hwm_arg h \<Longrightarrow> length hwms \<le> length segs \<Longrightarrow>
    em_rollbackDictStoreExtents_DBroot OID d part segs hwms s = Some s' \<Longrightarrow> em_remove s s'"
| delete_empty_col: "infos_ok xs \<Longrightarrow> em_deleteEmptyColExtents xs s = Some s' \<Longrightarrow> em_remove s s'"
| delete_empty_dict: "infos_ok xs \<Longrightarrow> xs \<noteq> [] \<Longrightarrow> em_deleteEmptyDictStoreExtents xs s = Some s' \<Longrightarrow> em_remove s s'"
| delete_partition: "em_deletePartition oids ps s = Some (rc, s') \<Longrightarrow> em_remove s s'"

inductive em_step :: "ExtentMap \<Rightarrow> ExtentMap \<Rightarrow> bool" where
  step_create: "em_create s s' \<Longrightarrow> em_step s s'"
| step_edit: "em_edit s s' \<Longrightarrow> em_step s s'"
| step_remove: "em_remove s s' \<Longrightarrow> em_step s s'"
| step_stripe: "\<forall>c \<in> set cols. width_arg (st_width c) \<Longrightarrow> file_arg d part 0 \<Longrightarrow> dbRootCount cfg \<noteq> 0 \<Longrightarrow>
    em_createStripeColumnExtents cfg cols d part seg s = Some (r, s') \<Longrightarrow> em_step s s'"
| step_dbroots: "\<forall>x \<in> set args. dbr_arg (snd x) \<Longrightarrow> em_bulkUpdateDBRoot args s = s' \<Longrightarrow> em_step s s'"

lemmas em_args = dbr_arg_def file_arg_def width_arg_def hwm_arg_def

lemma em_create_good: "em_create s s' \<Longrightarrow> em_good s \<Longrightarrow> em_good s' \<and> (\<not> em_full s \<longrightarrow> em_journalled s s')"
proof (induction rule: em_create.induct)
  case (create_column w d part cfg OID t s r s')
  then show ?case using createColumn_good [of s w cfg part d OID t] by (auto simp: em_args)
next
  case (create_exact w d part seg OID t s r s')
  then show ?case using createExactFile_good [of s w part seg d OID t] by (auto simp: em_args)
next
  case (create_dict d part seg OID s r s')
  then show ?case using createDict_good [of s part seg d OID] by (auto simp: em_args)
qed

lemma setLocalHWM_journalled: "em_journalled s (snd (em_setLocalHWM OID part seg h s))"
  by (auto simp: em_setLocalHWM_def Let_def em_log.journalled_refl em_put_journalled
      intro: em_log.journalled_trans [OF em_put_journalled em_put_journalled] split: prod.split option.split)

lemma bulkSetHWM_journalled: "em_journalled s (snd (em_bulkSetHWM as s))"
proof (induction "as" arbitrary: s)
  case (Cons a "as")
  let ?r = "em_setLocalHWM (bs_oid a) (bs_partNum a) (bs_segNum a) (bs_hwm a) s"
  have "em_journalled s (snd ?r)" by (rule setLocalHWM_journalled)
  moreover have "em_journalled (snd ?r) (snd (em_bulkSetHWM as (snd ?r)))" by (rule Cons.IH)
  ultimately show ?case by (auto split: prod.split sum.split intro: em_log.journalled_trans)
qed (simp add: em_log.journalled_refl)

lemma set_status_journalled: "em_journalled s (fold (em_set_status st) is s)"
proof (induction "is" arbitrary: s)
  case (Cons i "is")
  have "em_journalled s (em_set_status st i s)" by (simp add: em_set_status_def em_put_journalled)
  with Cons.IH show ?case by (simp add: em_log.journalled_trans)
qed (simp add: em_log.journalled_refl)

lemma partition_journalled:
  "em_journalled s (snd (em_markPartitionForDeletion oids ps s))" "em_journalled s (em_markAllPartitionForDeletion oids s)"
  "em_journalled s (snd (em_restorePartition oids ps s))"
  by (simp_all add: em_markPartitionForDeletion_def em_markAllPartitionForDeletion_def em_restorePartition_def Let_def
      set_status_journalled em_log.journalled_refl)

lemma cp_loops_kept: "cp_kept s (snd (em_setExtentsMaxMin m s))" "cp_kept s (snd (em_mergeExtentsMaxMin mm s))"
  by (simp_all add: em_setExtentsMaxMin_def em_mergeExtentsMaxMin_def setExtents_loop_kept mergeExtents_loop_kept)

lemma em_edit_journalled: "em_edit s s' \<Longrightarrow> em_journalled s s'"
proof (induction rule: em_edit.induct)
  case (set_hwm h OID part seg s r s')
  then show ?case using setLocalHWM_journalled [of s OID part seg h] by simp
next
  case (bulk_hwm "as" s r s')
  then show ?case using bulkSetHWM_journalled [of s "as"] by simp
next
  case (mark oids ps s rc s')
  then show ?case using partition_journalled(1) [of s oids ps] by simp
next
  case (mark_all oids s s')
  then show ?case using partition_journalled(2) [of s oids] by simp
next
  case (restore oids ps s rc s')
  then show ?case using partition_journalled(3) [of s oids ps] by simp
next
  case (mark_invalid lbid t s r s')
  then show ?case using markInvalid_kept [of s lbid t] by (simp add: cp_kept_def)
next
  case (mark_invalid_all lbids ts s s')
  then show ?case using markInvalid_all_kept [of lbids ts s s'] by (simp add: cp_kept_def)
next
  case (set_max_min lbid mx mn seqNum s r s')
  then show ?case using setMaxMin_kept [of s lbid mx mn seqNum] by (simp add: cp_kept_def)
next
  case (set_extents m s r s')
  then show ?case using cp_loops_kept(1) [of s m] by (simp add: cp_kept_def)
next
  case (merge_extents mm s r s')
  then show ?case using cp_loops_kept(2) [of s mm] by (simp add: cp_kept_def)
qed

lemma em_edit_good: "em_edit s s' \<Longrightarrow> em_good s \<Longrightarrow> em_good s'"
proof (induction rule: em_edit.induct)
  case (set_hwm h OID part seg s r s')
  then show ?case using setLocalHWM_good [of s h OID part seg] by (simp add: em_args)
next
  case (bulk_hwm "as" s r s')
  then show ?case using bulkSetHWM_good [of s "as"] by (simp add: em_args)
next
  case (mark oids ps s rc s')
  then show ?case using markPartition_good [of s oids ps] by simp
next
  case (mark_all oids s s')
  then show ?case using markAllPartition_good [of s oids] by simp
next
  case (restore oids ps s rc s')
  then show ?case using restorePartition_good [of s oids ps] by simp
next
  case (mark_invalid lbid t s r s')
  then show ?case using markInvalid_kept [of s lbid t] by (simp add: cp_kept_def)
next
  case (mark_invalid_all lbids ts s s')
  then show ?case using markInvalid_all_kept [of lbids ts s s'] by (simp add: cp_kept_def)
next
  case (set_max_min lbid mx mn seqNum s r s')
  then show ?case using setMaxMin_kept [of s lbid mx mn seqNum] by (simp add: cp_kept_def)
next
  case (set_extents m s r s')
  then show ?case using cp_loops_kept(1) [of s m] by (simp add: cp_kept_def)
next
  case (merge_extents mm s r s')
  then show ?case using cp_loops_kept(2) [of s mm] by (simp add: cp_kept_def)
qed

lemma em_remove_good: "em_remove s s' \<Longrightarrow> em_good s \<Longrightarrow> em_good s'"
proof (induction rule: em_remove.induct)
  case (delete_oid OID s r s')
  then show ?case using deleteOID_good [of s OID] by auto
next
  case (delete_oids OIDs s s')
  then show ?case using deleteOIDs_good [of s OIDs] by auto
next
  case (delete_dbroot dbr s s')
  then show ?case using deleteDBRoot_good [of s dbr] by auto
next
  case (rollback_column h OID all_extents d part seg s s')
  then show ?case using rollbackColumn_good [of s h OID all_extents d part seg] by (auto simp: em_args)
next
  case (rollback_dict hwms segs OID d part s s')
  then show ?case using rollbackDict_good [of s hwms segs OID d part] by (auto simp: em_args)
next
  case (delete_empty_col xs s s')
  then show ?case using deleteEmptyCol_good [of s xs] by auto
next
  case (delete_empty_dict xs s s')
  then show ?case using deleteEmptyDict_good [of s xs] by auto
next
  case (delete_partition oids ps s rc s')
  then show ?case using deletePartition_good [of s oids ps] by auto
qed

lemma em_step_good: "em_step s s' \<Longrightarrow> em_good s \<Longrightarrow> em_good s'"
proof (induction rule: em_step.induct)
  case (step_stripe cols d part cfg seg s r s')
  then show ?case using stripe_good [of s cfg d part cols seg] by (auto simp: em_args)
next
  case (step_dbroots args s s')
  then show ?case using bulkUpdateDBRoot_good [of s args] by (auto simp: em_args)
qed (auto dest: em_create_good em_edit_good em_remove_good)

lemma em_steps_good: "em_step\<^sup>*\<^sup>* s s' \<Longrightarrow> em_good s \<Longrightarrow> em_good s'"
  by (induction rule: rtranclp_induct) (auto dest: em_step_good)

text \<open>The map after \<^verbatim>\<open>grabEMEntryTable\<close> and \<^verbatim>\<open>grabFreeList\<close> have
  created both segments: all blocks free.\<close>

definition em_empty :: ExtentMap where
  "em_empty = \<lparr>em_entries = [], em_currentSize = 0, em_tableShmkey = 0, em_attached = False,
     fl_entries = [], fl_currentSize = 0, fl_tableShmkey = 0, fl_attached = False,
     em_mapping = 0, fl_mapping = 0, em_undoRecords = []\<rparr>"

definition em_init :: "ExtentMap option" where
  "em_init = Option.bind (em_growEMShmseg 0 em_empty) em_growFLShmseg"

lemma em_init_good: "\<exists>s. em_init = Some s \<and> em_good s"
proof -
  let ?es = "replicate EM_INITIAL_ROWS em_zero_entry"
  let ?r = "fl_zero_entry\<lparr>il_size := MAX_LBID_SIZE\<rparr>"
  let ?rs = "(replicate EM_FREELIST_INITIAL_ROWS fl_zero_entry)[0 := ?r]"
  obtain s where s: "em_init = Some s" "em_entries s = ?es" "fl_entries s = ?rs" "em_currentSize s = 0"
      "fl_currentSize s = sizeof_InlineLBIDRange" "em_attached s" "fl_attached s"
    by (simp add: em_init_def em_growEMShmseg_def em_growFLShmseg_def em_empty_def Let_def EM_FREELIST_INITIAL_ROWS_def)
  have rows: "0 < EM_INITIAL_ROWS" "0 < EM_FREELIST_INITIAL_ROWS" by (simp_all add: EM_INITIAL_ROWS_def EM_INCREMENT_ROWS_def EM_FREELIST_INITIAL_ROWS_def)
  have set_rs: "r = ?r \<or> r = fl_zero_entry" if "r \<in> set ?rs" for r
    using that set_update_subset_insert [of "replicate EM_FREELIST_INITIAL_ROWS fl_zero_entry" 0 ?r] by auto
  have ok: "range_ok (em_range em_zero_entry)" "range_ok fl_zero_entry" "range_ok ?r" "em_size em_zero_entry = 0" "blk fl_zero_entry = {#}"
      "\<not> fl_used fl_zero_entry" "fl_used ?r"
    by (simp_all add: range_ok_def em_zero_entry_def fl_zero_entry_def MAX_LBID_SIZE_def fl_used_def)
  have wf: "em_wf s" using ok rows set_rs by (auto simp: em_wf_def s)
  have "length (filter fl_used ?rs) = 1"
    using length_filter_update [of 0 "replicate EM_FREELIST_INITIAL_ROWS fl_zero_entry" fl_used ?r] rows ok by simp
  then have counted: "em_counted s" by (simp add: em_counted_def s)
  have "blk ?r = mset_set {0 ..< MAX_LBID_SIZE}" by (simp add: blk_def units_def fl_zero_entry_def)
  moreover have "sum_list (map blk ?rs) = blk ?r"
    using sum_list_map_update [of 0 "replicate EM_FREELIST_INITIAL_ROWS fl_zero_entry" blk ?r] rows ok by simp
  ultimately have "em_space s = mset_set {0 ..< MAX_LBID_SIZE}" by (simp add: em_space_def s)
  with wf counted ok(4) s(1) show ?thesis by (auto simp: em_good_def em_inv_def em_small_def s)
qed

end
