(* ===== verification/Slave_Node.thy ===== *)
theory Slave_Node
  imports Vbbm_Image Vss_Undo Copy_Locks Extent_Steps
begin

text \<open>
  The worker node, \<^verbatim>\<open>src/versioning/BRM/slavedbrmnode.cpp\<close>: the extent map, the VSS, the
  VBBM and the copy locks in one object, with the operations that change several of them. A handler
  returns its code; an exception is turned into -1 or another code by the handler, and what had been
  changed before it stays changed until \<^verbatim>\<open>undoChanges\<close>.

  The array \<^verbatim>\<open>locked\<close> says which tables the node holds write-locked, and so which logs
  \<^verbatim>\<open>confirmChanges\<close> and \<^verbatim>\<open>undoChanges\<close> touch. Where a handler gives up its locks
  to wait for a copy lock, the argument \<open>wait\<close> says what the other processes make of the
  tables meanwhile.
\<close>

record SlaveDBRMNode =
  sn_em :: ExtentMap
  sn_vss :: VSS
  sn_vbbm :: VBBM
  sn_copylocks :: CopyLocks
  sn_locked0 :: bool
  sn_locked1 :: bool
  sn_locked2 :: bool

definition sn_lock_vb :: "SlaveDBRMNode \<Rightarrow> SlaveDBRMNode" where
  "sn_lock_vb n = n\<lparr>sn_locked0 := True, sn_locked1 := True\<rparr>"

definition sn_lock_cl :: "SlaveDBRMNode \<Rightarrow> SlaveDBRMNode" where
  "sn_lock_cl n = n\<lparr>sn_locked2 := True\<rparr>"

section \<open>Extents\<close>

text \<open>The handlers that only call the extent map: its exceptions become -1.\<close>

definition sn_em_call :: "'a res \<times> ExtentMap \<Rightarrow> SlaveDBRMNode \<Rightarrow> int \<times> SlaveDBRMNode" where
  "sn_em_call r n = (case fst r of Inl _ \<Rightarrow> -1 | Inr _ \<Rightarrow> 0, n\<lparr>sn_em := snd r\<rparr>)"

definition sn_createStripeColumnExtents ::
  "em_config \<Rightarrow> CreateStripeColumnExtentsArgIn list \<Rightarrow> DBROOTS_struct \<Rightarrow> int \<Rightarrow> int \<Rightarrow> SlaveDBRMNode
    \<Rightarrow> (int \<times> SlaveDBRMNode) option" where
  "sn_createStripeColumnExtents cfg cols dbRoot part seg n =
    map_option (\<lambda>r. sn_em_call r n) (em_createStripeColumnExtents cfg cols dbRoot part seg (sn_em n))"

definition sn_createColumnExtent_DBroot ::
  "em_config \<Rightarrow> OID_t \<Rightarrow> int \<Rightarrow> DBROOTS_struct \<Rightarrow> ColDataType \<Rightarrow> int \<Rightarrow> SlaveDBRMNode \<Rightarrow> (int \<times> SlaveDBRMNode) option" where
  "sn_createColumnExtent_DBroot cfg oid colWidth dbRoot t part n =
    map_option (\<lambda>r. sn_em_call r n) (em_createColumnExtent_DBroot cfg oid colWidth dbRoot t part (sn_em n))"

definition sn_createColumnExtentExactFile ::
  "OID_t \<Rightarrow> int \<Rightarrow> DBROOTS_struct \<Rightarrow> int \<Rightarrow> int \<Rightarrow> ColDataType \<Rightarrow> SlaveDBRMNode \<Rightarrow> (int \<times> SlaveDBRMNode) option" where
  "sn_createColumnExtentExactFile oid colWidth dbRoot part seg t n =
    map_option (\<lambda>r. sn_em_call r n) (em_createColumnExtentExactFile oid colWidth dbRoot part seg t (sn_em n))"

definition sn_createDictStoreExtent ::
  "OID_t \<Rightarrow> DBROOTS_struct \<Rightarrow> int \<Rightarrow> int \<Rightarrow> SlaveDBRMNode \<Rightarrow> (int \<times> SlaveDBRMNode) option" where
  "sn_createDictStoreExtent oid dbRoot part seg n =
    map_option (\<lambda>r. sn_em_call r n) (em_createDictStoreExtent oid dbRoot part seg (sn_em n))"

definition sn_em_done :: "ExtentMap option \<Rightarrow> SlaveDBRMNode \<Rightarrow> (int \<times> SlaveDBRMNode) option" where
  "sn_em_done r n = map_option (\<lambda>em. (0, n\<lparr>sn_em := em\<rparr>)) r"

definition sn_rollbackColumnExtents_DBroot ::
  "OID_t \<Rightarrow> bool \<Rightarrow> DBROOTS_struct \<Rightarrow> int \<Rightarrow> int \<Rightarrow> HWM_t \<Rightarrow> SlaveDBRMNode \<Rightarrow> (int \<times> SlaveDBRMNode) option" where
  "sn_rollbackColumnExtents_DBroot oid bDeleteAll dbRoot part seg hwm n =
    sn_em_done (em_rollbackColumnExtents_DBroot oid bDeleteAll dbRoot part seg hwm (sn_em n)) n"

definition sn_rollbackDictStoreExtents_DBroot ::
  "OID_t \<Rightarrow> DBROOTS_struct \<Rightarrow> int \<Rightarrow> int list \<Rightarrow> HWM_t list \<Rightarrow> SlaveDBRMNode \<Rightarrow> (int \<times> SlaveDBRMNode) option" where
  "sn_rollbackDictStoreExtents_DBroot oid dbRoot part segNums hwms n =
    sn_em_done (em_rollbackDictStoreExtents_DBroot oid dbRoot part segNums hwms (sn_em n)) n"

definition sn_deleteEmptyColExtents ::
  "(OID_t \<times> ExtentInfo) list \<Rightarrow> SlaveDBRMNode \<Rightarrow> (int \<times> SlaveDBRMNode) option" where
  "sn_deleteEmptyColExtents xs n = sn_em_done (em_deleteEmptyColExtents xs (sn_em n)) n"

definition sn_deleteEmptyDictStoreExtents ::
  "(OID_t \<times> ExtentInfo) list \<Rightarrow> SlaveDBRMNode \<Rightarrow> (int \<times> SlaveDBRMNode) option" where
  "sn_deleteEmptyDictStoreExtents xs n = sn_em_done (em_deleteEmptyDictStoreExtents xs (sn_em n)) n"

text \<open>\<^verbatim>\<open>vss.removeEntriesFromDB(range, vbbm)\<close> on both tables.\<close>

primrec vbbm_remove_each :: "(LBID_t \<times> VER_t) list \<Rightarrow> VBBM \<Rightarrow> VBBM option" where
  "vbbm_remove_each [] b = Some b"
| "vbbm_remove_each (x # xs) b = Option.bind (vbbm_on (vbbm_removeEntry (fst x) (snd x)) b) (vbbm_remove_each xs)"

definition vb_removeEntriesFromDB :: "LBIDRange \<Rightarrow> VSS \<times> VBBM \<Rightarrow> (VSS \<times> VBBM) option" where
  "vb_removeEntriesFromDB r vb = do {
     (g, imgs, rm) \<leftarrow> vss_removeEntriesFromDB r (vss_shm (fst vb));
     v \<leftarrow> vss_on (\<lambda>_. Some (g, imgs)) (fst vb);
     b \<leftarrow> vbbm_remove_each rm (snd vb);
     Some (v, b)
   }"

primrec vb_remove_ranges :: "LBIDRange list \<Rightarrow> VSS \<times> VBBM \<Rightarrow> (VSS \<times> VBBM) option" where
  "vb_remove_ranges [] vb = Some vb"
| "vb_remove_ranges (r # rs) vb = Option.bind (vb_removeEntriesFromDB r vb) (vb_remove_ranges rs)"

definition sn_put_vb :: "VSS \<times> VBBM \<Rightarrow> SlaveDBRMNode \<Rightarrow> SlaveDBRMNode" where
  "sn_put_vb vb n = n\<lparr>sn_vss := fst vb, sn_vbbm := snd vb\<rparr>"

definition sn_deleteOID :: "OID_t \<Rightarrow> SlaveDBRMNode \<Rightarrow> (int \<times> SlaveDBRMNode) option" where
  "sn_deleteOID oid n0 =
    (let n = sn_lock_vb n0
     in case em_lookup_OID oid (sn_em n) of
          Inl _ \<Rightarrow> Some (-1, n)
        | Inr [] \<Rightarrow> Some (-1, n)
        | Inr lbids \<Rightarrow> do {
            vb \<leftarrow> vb_remove_ranges lbids (sn_vss n, sn_vbbm n);
            map_option (\<lambda>r. sn_em_call r (sn_put_vb vb n)) (em_deleteOID oid (sn_em n))
          })"

primrec sn_remove_oids :: "OID_t list \<Rightarrow> ExtentMap \<Rightarrow> VSS \<times> VBBM \<Rightarrow> (bool \<times> VSS \<times> VBBM) option" where
  "sn_remove_oids [] em vb = Some (True, vb)"
| "sn_remove_oids (oid # oids) em vb =
    (case em_lookup_OID oid em of
       Inl _ \<Rightarrow> Some (False, vb)
     | Inr lbids \<Rightarrow> Option.bind (vb_remove_ranges lbids vb) (sn_remove_oids oids em))"

definition sn_deleteOIDs :: "OID_t list \<Rightarrow> SlaveDBRMNode \<Rightarrow> (int \<times> SlaveDBRMNode) option" where
  "sn_deleteOIDs oids n0 = do {
     let n = sn_lock_vb n0;
     (ok, vb) \<leftarrow> sn_remove_oids oids (sn_em n) (sn_vss n, sn_vbbm n);
     if ok then sn_em_done (em_deleteOIDs oids (sn_em n)) (sn_put_vb vb n)
     else Some (-1, sn_put_vb vb n)
   }"

section \<open>High water marks and bounds\<close>

definition sn_setLocalHWM :: "OID_t \<Rightarrow> int \<Rightarrow> int \<Rightarrow> HWM_t \<Rightarrow> SlaveDBRMNode \<Rightarrow> int \<times> SlaveDBRMNode" where
  "sn_setLocalHWM oid part seg hwm n = sn_em_call (em_setLocalHWM oid part seg hwm (sn_em n)) n"

definition sn_vbCommit :: "VER_t \<Rightarrow> SlaveDBRMNode \<Rightarrow> (int \<times> SlaveDBRMNode) option" where
  "sn_vbCommit transID n =
    map_option (\<lambda>v. (0, n\<lparr>sn_locked1 := True, sn_vss := v\<rparr>)) (vss_commit_obj transID (sn_vss n))"

definition sn_commit_if :: "VER_t \<Rightarrow> SlaveDBRMNode \<Rightarrow> SlaveDBRMNode option" where
  "sn_commit_if transID n = (if transID \<noteq> 0 then map_option snd (sn_vbCommit transID n) else Some n)"

definition sn_bulkSetHWM :: "BulkSetHWMArg list \<Rightarrow> VER_t \<Rightarrow> SlaveDBRMNode \<Rightarrow> (int \<times> SlaveDBRMNode) option" where
  "sn_bulkSetHWM args transID n =
    map_option (\<lambda>n1. sn_em_call (em_bulkSetHWM args (sn_em n1)) n1) (sn_commit_if transID n)"

record CPInfo =
  ci_firstLbid :: LBID_t
  ci_max :: uint64
  ci_min :: uint64
  ci_seqNum :: int

record CPInfoMerge =
  cg_startLbid :: LBID_t
  cg_max :: uint64
  cg_min :: uint64
  cg_seqNum :: int
  cg_type :: ColDataType
  cg_newExtent :: bool

definition bulkSetCPMap :: "CPInfo list \<Rightarrow> CPMaxMin std_map" where
  "bulkSetCPMap xs =
    fold (\<lambda>x. sm_put (ci_firstLbid x) \<lparr>cm_max = ci_max x, cm_min = ci_min x, cm_seqNum = ci_seqNum x\<rparr>) xs []"

definition bulkMergeCPMap :: "CPInfoMerge list \<Rightarrow> CPMaxMinMerge std_map" where
  "bulkMergeCPMap xs =
    fold (\<lambda>x. sm_put (cg_startLbid x)
      \<lparr>mm_max = cg_max x, mm_min = cg_min x, mm_seqNum = cg_seqNum x,
       mm_type = cg_type x, mm_newExtent = cg_newExtent x\<rparr>) xs []"

definition em_then :: "unit res \<times> ExtentMap \<Rightarrow> (ExtentMap \<Rightarrow> unit res \<times> ExtentMap) \<Rightarrow> unit res \<times> ExtentMap" where
  "em_then r f = (case fst r of Inl err \<Rightarrow> (Inl err, snd r) | Inr _ \<Rightarrow> f (snd r))"

definition sn_bulkSetHWMAndCP ::
  "BulkSetHWMArg list \<Rightarrow> CPInfo list \<Rightarrow> CPInfoMerge list \<Rightarrow> VER_t \<Rightarrow> SlaveDBRMNode \<Rightarrow> (int \<times> SlaveDBRMNode) option" where
  "sn_bulkSetHWMAndCP hwmArgs setArgs mergeArgs transID n =
    map_option (\<lambda>n1. sn_em_call
      (em_then (em_then (em_bulkSetHWM hwmArgs (sn_em n1))
         (\<lambda>em. if setArgs = [] then (Inr (), em) else em_setExtentsMaxMin (bulkSetCPMap setArgs) em))
         (\<lambda>em. if mergeArgs = [] then (Inr (), em) else em_mergeExtentsMaxMin (bulkMergeCPMap mergeArgs) em)) n1)
      (sn_commit_if transID n)"

definition sn_bulkUpdateDBRoot :: "(LBID_t \<times> DBROOTS_struct) list \<Rightarrow> SlaveDBRMNode \<Rightarrow> int \<times> SlaveDBRMNode" where
  "sn_bulkUpdateDBRoot args n = (0, n\<lparr>sn_em := em_bulkUpdateDBRoot args (sn_em n)\<rparr>)"

definition sn_markExtentInvalid :: "LBID_t \<Rightarrow> ColDataType \<Rightarrow> SlaveDBRMNode \<Rightarrow> int \<times> SlaveDBRMNode" where
  "sn_markExtentInvalid lbid t n = sn_em_call (em_markInvalid lbid t (sn_em n)) n"

definition sn_markExtentsInvalid :: "LBID_t list \<Rightarrow> ColDataType list \<Rightarrow> SlaveDBRMNode \<Rightarrow> (int \<times> SlaveDBRMNode) option" where
  "sn_markExtentsInvalid lbids ts n = sn_em_done (em_markInvalid_all lbids ts (sn_em n)) n"

definition sn_setExtentMaxMin :: "LBID_t \<Rightarrow> uint64 \<Rightarrow> uint64 \<Rightarrow> int \<Rightarrow> SlaveDBRMNode \<Rightarrow> int \<times> SlaveDBRMNode" where
  "sn_setExtentMaxMin lbid mx mn seqNum n = sn_em_call (em_setMaxMin lbid mx mn seqNum (sn_em n)) n"

definition sn_setExtentsMaxMin :: "CPMaxMin std_map \<Rightarrow> SlaveDBRMNode \<Rightarrow> int \<times> SlaveDBRMNode" where
  "sn_setExtentsMaxMin m n = sn_em_call (em_setExtentsMaxMin m (sn_em n)) n"

definition sn_mergeExtentsMaxMin :: "CPMaxMinMerge std_map \<Rightarrow> SlaveDBRMNode \<Rightarrow> int \<times> SlaveDBRMNode" where
  "sn_mergeExtentsMaxMin m n = sn_em_call (em_mergeExtentsMaxMin m (sn_em n)) n"

section \<open>Logical partitions\<close>

definition ERR_INVALID_LAST_PARTITION :: int where "ERR_INVALID_LAST_PARTITION = 4001"
definition ERR_INVALID_OP_LAST_PARTITION :: int where "ERR_INVALID_OP_LAST_PARTITION = 10"
definition ERR_PARTITION_DISABLED :: int where "ERR_PARTITION_DISABLED = 11"
definition ERR_NOT_EXIST_PARTITION :: int where "ERR_NOT_EXIST_PARTITION = 12"
definition ERR_PARTITION_ENABLED :: int where "ERR_PARTITION_ENABLED = 13"
definition ERR_NO_PARTITION_PERFORMED :: int where "ERR_NO_PARTITION_PERFORMED = 16"

text \<open>The code of the \<^verbatim>\<open>ERYDBExcept\<close> thrown becomes another one; 0 is no exception.\<close>

definition sn_deletePartition :: "OID_t list \<Rightarrow> LogicalPartition list \<Rightarrow> SlaveDBRMNode \<Rightarrow> (int \<times> SlaveDBRMNode) option" where
  "sn_deletePartition oids ps n =
    map_option (\<lambda>(rc, em).
      (if rc = 0 then 0
       else if rc = ERR_PARTITION_NOT_EXIST then ERR_NOT_EXIST_PARTITION
       else if rc = ERR_INVALID_LAST_PARTITION then ERR_INVALID_OP_LAST_PARTITION
       else if rc = WARN_NO_PARTITION_PERFORMED then ERR_NO_PARTITION_PERFORMED
       else -1, n\<lparr>sn_em := em\<rparr>)) (em_deletePartition oids ps (sn_em n))"

definition sn_markPartitionForDeletion :: "OID_t list \<Rightarrow> LogicalPartition list \<Rightarrow> SlaveDBRMNode \<Rightarrow> int \<times> SlaveDBRMNode" where
  "sn_markPartitionForDeletion oids ps n =
    (let (rc, em) = em_markPartitionForDeletion oids ps (sn_em n)
     in (if rc = 0 then 0
         else if rc = ERR_PARTITION_ALREADY_DISABLED then ERR_PARTITION_DISABLED
         else if rc = ERR_PARTITION_NOT_EXIST then ERR_NOT_EXIST_PARTITION
         else if rc = ERR_INVALID_LAST_PARTITION then ERR_INVALID_OP_LAST_PARTITION
         else if rc = WARN_NO_PARTITION_PERFORMED then ERR_NO_PARTITION_PERFORMED
         else -1, n\<lparr>sn_em := em\<rparr>))"

definition sn_markAllPartitionForDeletion :: "OID_t list \<Rightarrow> SlaveDBRMNode \<Rightarrow> int \<times> SlaveDBRMNode" where
  "sn_markAllPartitionForDeletion oids n = (0, n\<lparr>sn_em := em_markAllPartitionForDeletion oids (sn_em n)\<rparr>)"

definition sn_restorePartition :: "OID_t list \<Rightarrow> LogicalPartition list \<Rightarrow> SlaveDBRMNode \<Rightarrow> int \<times> SlaveDBRMNode" where
  "sn_restorePartition oids ps n =
    (let (rc, em) = em_restorePartition oids ps (sn_em n)
     in (if rc = 0 then 0
         else if rc = ERR_PARTITION_NOT_EXIST then ERR_NOT_EXIST_PARTITION
         else if rc = ERR_PARTITION_ALREADY_ENABLED then ERR_PARTITION_ENABLED
         else if rc = ERR_INVALID_LAST_PARTITION then ERR_INVALID_OP_LAST_PARTITION
         else -1, n\<lparr>sn_em := em\<rparr>))"

definition sn_deleteDBRoot :: "uint16 \<Rightarrow> SlaveDBRMNode \<Rightarrow> (int \<times> SlaveDBRMNode) option" where
  "sn_deleteDBRoot dbr n = sn_em_done (em_deleteDBRoot dbr (sn_em n)) n"

section \<open>Writing a block\<close>

definition ERR_OLDTXN_OVERWRITING_NEWTXN :: int where
  "ERR_OLDTXN_OVERWRITING_NEWTXN = 17"

text \<open>A block the transaction has already written: the place of a replica is written into the VBBM
  entry itself, without an undo record. \<open>None\<close>: the assertion fails or the replica index is
  out of range.\<close>

definition sn_set_replica :: "LBID_t \<Rightarrow> VER_t \<Rightarrow> nat \<Rightarrow> OID_t \<Rightarrow> int \<Rightarrow> SlaveDBRMNode \<Rightarrow> (int \<times> SlaveDBRMNode) option" where
  "sn_set_replica lbid transID dbrIdx vbOID vbFBO n = do {
     oldVerID \<leftarrow> vss_getHighestVerInVB lbid transID (vss_shm (sn_vss n));
     let b = sn_vbbm n;
     r \<leftarrow> vbbm_lookup_entry lbid oldVerID (vbbm_shm b);
     (case r of
        Inl _ \<Rightarrow> Some (-1, n)
      | Inr None \<Rightarrow> None
      | Inr (Some k) \<Rightarrow>
          let e = vb_storage (vbbm_shm b) ! k;
              e' = e\<lparr>vb_vbOids := (vb_vbOids e)[dbrIdx := word_of_int vbOID],
                     vb_vbFbo := (vb_vbFbo e)[dbrIdx := word_of_int vbFBO]\<rparr>
          in if dbrIdx < MAX_DATA_REPLICATESIZE
             then Some (0, n\<lparr>sn_vbbm := b\<lparr>vbbm_shm := (vbbm_shm b)\<lparr>vb_storage := (vb_storage (vbbm_shm b))[k := e']\<rparr>\<rparr>\<rparr>)
             else None)
   }"

text \<open>A block last written by an earlier transaction: the old version goes to the version buffer and
  the block gets the new version, locked.\<close>

definition sn_new_version :: "LBID_t \<Rightarrow> VER_t \<Rightarrow> VER_t \<Rightarrow> nat \<Rightarrow> OID_t \<Rightarrow> int \<Rightarrow> SlaveDBRMNode \<Rightarrow> (int \<times> SlaveDBRMNode) option" where
  "sn_new_version lbid oldVerID transID dbrIdx vbOID vbFBO n =
    (if dbrIdx < MAX_DATA_REPLICATESIZE then do {
       b \<leftarrow> vbbm_insert lbid oldVerID (dbr_zero[dbrIdx := word_of_int vbOID]) (fbo_zero[dbrIdx := word_of_int vbFBO]) False (sn_vbbm n);
       let n1 = n\<lparr>sn_vbbm := b\<rparr>;
       r \<leftarrow> (if oldVerID > 0 then vss_setVBFlag_obj lbid oldVerID True (sn_vss n1)
             else map_option Inr (vss_insert lbid oldVerID True False False (sn_vss n1)));
       (case r of
          Inl _ \<Rightarrow> Some (-1, n1)
        | Inr v1 \<Rightarrow> map_option (\<lambda>v2. (0, n1\<lparr>sn_vss := v2\<rparr>)) (vss_insert lbid transID False True False v1))
     } else None)"

definition sn_writeVBEntry :: "VER_t \<Rightarrow> LBID_t \<Rightarrow> nat \<Rightarrow> OID_t \<Rightarrow> int \<Rightarrow> SlaveDBRMNode \<Rightarrow> (int \<times> SlaveDBRMNode) option" where
  "sn_writeVBEntry transID lbid dbrIdx vbOID vbFBO n0 = do {
     let n = sn_lock_vb n0;
     (oldVerID, _) \<leftarrow> vss_getCurrentVersion lbid (vss_shm (sn_vss n));
     if oldVerID = transID then sn_set_replica lbid transID dbrIdx vbOID vbFBO n
     else if oldVerID > transID then Some (ERR_OLDTXN_OVERWRITING_NEWTXN, n)
     else sn_new_version lbid oldVerID transID dbrIdx vbOID vbFBO n
   }"

section \<open>Copying to the version buffer\<close>

text \<open>One pass over the ranges that grabs every range nobody has locked. The flags are
  \<^verbatim>\<open>lockedRanges\<close>.\<close>

fun lock_pass :: "VER_t \<Rightarrow> (LBIDRange \<times> bool) list \<Rightarrow> CopyLocks \<Rightarrow> (unit res \<times> (LBIDRange \<times> bool) list \<times> CopyLocks) option" where
  "lock_pass txnID [] c = Some (Inr (), [], c)"
| "lock_pass txnID ((r, True) # xs) c =
    map_option (\<lambda>(res, xs', c'). (res, (r, True) # xs', c')) (lock_pass txnID xs c)"
| "lock_pass txnID ((r, False) # xs) c = do {
     isLocked \<leftarrow> cl_isLocked r (cl_shm c);
     if isLocked then map_option (\<lambda>(res, xs', c'). (res, (r, False) # xs', c')) (lock_pass txnID xs c)
     else do {
       l \<leftarrow> cl_lockRange r txnID c;
       (case l of
          Inl err \<Rightarrow> Some (Inl err, (r, False) # xs, c)
        | Inr cl1 \<Rightarrow> map_option (\<lambda>(res, xs', c'). (res, (r, True) # xs', c')) (lock_pass txnID xs cl1))
     }
   }"

text \<open>The loop with the waits; the number is that of the retries left.\<close>

primrec lock_retry ::
  "(nat \<Rightarrow> SlaveDBRMNode \<Rightarrow> SlaveDBRMNode) \<Rightarrow> VER_t \<Rightarrow> nat \<Rightarrow> (LBIDRange \<times> bool) list \<Rightarrow> SlaveDBRMNode
    \<Rightarrow> (unit res \<times> (LBIDRange \<times> bool) list \<times> SlaveDBRMNode) option" where
  "lock_retry wait txnID 0 xs n = Some (Inr (), xs, n)"
| "lock_retry wait txnID (Suc k) xs n = do {
     (r, xs', c) \<leftarrow> lock_pass txnID xs (sn_copylocks n);
     let n' = n\<lparr>sn_copylocks := c\<rparr>;
     (case r of
        Inl err \<Rightarrow> Some (Inl err, xs', n')
      | Inr _ \<Rightarrow> if list_all snd xs' then Some (Inr (), xs', n') else lock_retry wait txnID k xs' (wait k n'))
   }"

text \<open>After the last retry the ranges still missing are released by force.\<close>

fun lock_force :: "VER_t \<Rightarrow> (LBIDRange \<times> bool) list \<Rightarrow> CopyLocks \<Rightarrow> (unit res \<times> (LBIDRange \<times> bool) list \<times> CopyLocks) option" where
  "lock_force txnID [] c = Some (Inr (), [], c)"
| "lock_force txnID ((r, True) # xs) c =
    map_option (\<lambda>(res, xs', c'). (res, (r, True) # xs', c')) (lock_force txnID xs c)"
| "lock_force txnID ((r, False) # xs) c = do {
     cl0 \<leftarrow> cl_forceRelease r c;
     l \<leftarrow> cl_lockRange r txnID cl0;
     (case l of
        Inl err \<Rightarrow> Some (Inl err, (r, False) # xs, cl0)
      | Inr cl1 \<Rightarrow> map_option (\<lambda>(res, xs', c'). (res, (r, True) # xs', c')) (lock_force txnID xs cl1))
   }"

definition maxRetries :: nat where
  "maxRetries = 60 * 1000000 div 50000"

definition sn_grab_ranges ::
  "(nat \<Rightarrow> SlaveDBRMNode \<Rightarrow> SlaveDBRMNode) \<Rightarrow> VER_t \<Rightarrow> LBIDRange list \<Rightarrow> SlaveDBRMNode
    \<Rightarrow> (unit res \<times> (LBIDRange \<times> bool) list \<times> SlaveDBRMNode) option" where
  "sn_grab_ranges wait txnID ranges n = do {
     (r, xs, n1) \<leftarrow> lock_retry wait txnID maxRetries (map (\<lambda>x. (x, False)) ranges) n;
     (case r of
        Inl err \<Rightarrow> Some (Inl err, xs, n1)
      | Inr _ \<Rightarrow> map_option (\<lambda>(r', xs', c). (r', xs', n1\<lparr>sn_copylocks := c\<rparr>)) (lock_force txnID xs (sn_copylocks n1)))
   }"

primrec cl_release_each :: "LBIDRange list \<Rightarrow> CopyLocks \<Rightarrow> CopyLocks option" where
  "cl_release_each [] c = Some c"
| "cl_release_each (r # rs) c = Option.bind (cl_releaseRange r c) (cl_release_each rs)"

definition sn_release_locked :: "(LBIDRange \<times> bool) list \<Rightarrow> SlaveDBRMNode \<Rightarrow> SlaveDBRMNode option" where
  "sn_release_locked xs n =
    map_option (\<lambda>c. n\<lparr>sn_copylocks := c\<rparr>) (cl_release_each (map fst (filter snd xs)) (sn_copylocks n))"

primrec vss_any_locked :: "LBIDRange list \<Rightarrow> VER_t \<Rightarrow> vss_segment \<Rightarrow> bool option" where
  "vss_any_locked [] transID g = Some False"
| "vss_any_locked (r # rs) transID g = do {
     b \<leftarrow> vss_isLocked r transID g;
     if b then Some True else vss_any_locked rs transID g
   }"

definition ERR_VBBM_OVERFLOW :: int where
  "ERR_VBBM_OVERFLOW = 8"

text \<open>The end of \<^verbatim>\<open>beginVBCopy\<close>: the blocks of the version buffer, and the handlers of the
  exceptions. The result has the free ranges and the flush list.\<close>

definition sn_get_blocks ::
  "int option \<Rightarrow> nat \<Rightarrow> int \<Rightarrow> DBROOTS_struct \<Rightarrow> nat \<Rightarrow> (LBIDRange \<times> bool) list \<Rightarrow> SlaveDBRMNode
    \<Rightarrow> (int \<times> VBRange list \<times> LBID_t list \<times> SlaveDBRMNode) option" where
  "sn_get_blocks cfg repSize num vbOID dbrIndex xs n = do {
     (r, b, v) \<leftarrow> vbbm_getBlocks cfg repSize num vbOID dbrIndex (sn_vbbm n) (sn_vss n);
     let n1 = n\<lparr>sn_vbbm := b, sn_vss := v\<rparr>;
     (case r of
        Inr (ranges, flushList) \<Rightarrow> Some (0, ranges, flushList, n1)
      | Inl err \<Rightarrow> map_option (\<lambda>n2. (case err of VBBMBufferOverFlowExcept _ \<Rightarrow> ERR_VBBM_OVERFLOW | _ \<Rightarrow> -1, [], [], n2))
          (sn_release_locked xs n1))
   }"

definition sn_beginVBCopy ::
  "(nat \<Rightarrow> SlaveDBRMNode \<Rightarrow> SlaveDBRMNode) \<Rightarrow> int option \<Rightarrow> nat \<Rightarrow> VER_t \<Rightarrow> DBROOTS_struct \<Rightarrow> nat \<Rightarrow> LBIDRange list
    \<Rightarrow> SlaveDBRMNode \<Rightarrow> (int \<times> VBRange list \<times> LBID_t list \<times> SlaveDBRMNode) option" where
  "sn_beginVBCopy wait cfg repSize transID vbOID dbrIndex ranges n =
    (let num = s32 (sum_list (map range_size ranges))
     in if dbrIndex = 0 then do {
          let n1 = sn_lock_vb n;
          busy \<leftarrow> vss_any_locked ranges transID (vss_shm (sn_vss n1));
          if busy then Some (-1, [], [], n1)
          else do {
            (r, xs, n2) \<leftarrow> sn_grab_ranges wait transID ranges (sn_lock_cl n1);
            (case r of
               Inl _ \<Rightarrow> map_option (\<lambda>n3. (-1, [], [], n3)) (sn_release_locked xs n2)
             | Inr _ \<Rightarrow> sn_get_blocks cfg repSize num vbOID dbrIndex xs n2)
          }
        } else sn_get_blocks cfg repSize num vbOID dbrIndex [] n)"

definition sn_endVBCopy :: "LBIDRange list \<Rightarrow> SlaveDBRMNode \<Rightarrow> (int \<times> SlaveDBRMNode) option" where
  "sn_endVBCopy ranges n =
    map_option (\<lambda>c. (0, (sn_lock_cl n)\<lparr>sn_copylocks := c\<rparr>)) (cl_release_each ranges (sn_copylocks n))"

definition sn_dmlLockLBIDRanges ::
  "(nat \<Rightarrow> SlaveDBRMNode \<Rightarrow> SlaveDBRMNode) \<Rightarrow> LBIDRange list \<Rightarrow> VER_t \<Rightarrow> SlaveDBRMNode \<Rightarrow> (int \<times> SlaveDBRMNode) option" where
  "sn_dmlLockLBIDRanges wait ranges txnID n = do {
     (r, xs, n1) \<leftarrow> sn_grab_ranges wait txnID ranges (sn_lock_cl n);
     (case r of
        Inl _ \<Rightarrow> map_option (Pair (-1)) (sn_release_locked xs n1)
      | Inr _ \<Rightarrow> Some (0, n1))
   }"

definition sn_dmlReleaseLBIDRanges :: "LBIDRange list \<Rightarrow> SlaveDBRMNode \<Rightarrow> (int \<times> SlaveDBRMNode) option" where
  "sn_dmlReleaseLBIDRanges ranges n =
    map_option (\<lambda>c. (0, (sn_lock_cl n)\<lparr>sn_copylocks := c\<rparr>)) (cl_release_each ranges (sn_copylocks n))"

section \<open>Rolling back a transaction\<close>

text \<open>One block. The exception of \<^verbatim>\<open>setVBFlag\<close> ends the handler.\<close>

definition vb_rollback_block :: "VER_t \<Rightarrow> LBID_t \<Rightarrow> VSS \<times> VBBM \<Rightarrow> (unit res \<times> VSS \<times> VBBM) option" where
  "vb_rollback_block transID lbid vb = do {
     oldVerID \<leftarrow> vss_getHighestVerInVB lbid transID (vss_shm (fst vb));
     (r, v, b) \<leftarrow>
       (if oldVerID \<noteq> -1 then do {
          b \<leftarrow> vbbm_on (vbbm_removeEntry lbid oldVerID) (snd vb);
          r \<leftarrow> vss_setVBFlag_obj lbid oldVerID False (fst vb);
          Some (case r of Inl err \<Rightarrow> (Inl err, fst vb, b) | Inr v \<Rightarrow> (Inr (), v, b))
        } else Some (Inr (), vb));
     (case r of
        Inl err \<Rightarrow> Some (Inl err, v, b)
      | Inr _ \<Rightarrow> map_option (\<lambda>v'. (Inr (), v', b)) (vss_removeEntry_obj lbid transID v))
   }"

primrec vb_rollback_blocks :: "VER_t \<Rightarrow> LBID_t list \<Rightarrow> VSS \<times> VBBM \<Rightarrow> (unit res \<times> VSS \<times> VBBM) option" where
  "vb_rollback_blocks transID [] vb = Some (Inr (), vb)"
| "vb_rollback_blocks transID (l # ls) vb = do {
     (r, vb') \<leftarrow> vb_rollback_block transID l vb;
     (case r of Inl err \<Rightarrow> Some (Inl err, vb') | Inr _ \<Rightarrow> vb_rollback_blocks transID ls vb')
   }"

definition sn_vbRollback :: "VER_t \<Rightarrow> LBID_t list \<Rightarrow> SlaveDBRMNode \<Rightarrow> (int \<times> SlaveDBRMNode) option" where
  "sn_vbRollback transID lbidList n0 = do {
     let n = sn_lock_cl (sn_lock_vb n0);
     c \<leftarrow> cl_rollback transID (sn_copylocks n);
     (r, vb) \<leftarrow> vb_rollback_blocks transID lbidList (sn_vss n, sn_vbbm n);
     Some (case r of Inl _ \<Rightarrow> -1 | Inr _ \<Rightarrow> 0, sn_put_vb vb (n\<lparr>sn_copylocks := c\<rparr>))
   }"

definition sn_vbRollback_ranges :: "VER_t \<Rightarrow> LBIDRange list \<Rightarrow> SlaveDBRMNode \<Rightarrow> (int \<times> SlaveDBRMNode) option" where
  "sn_vbRollback_ranges transID ranges n = sn_vbRollback transID (concat (map range_lbids ranges)) n"

section \<open>Confirming, undoing, clearing, checking\<close>

definition sn_confirmChanges :: "SlaveDBRMNode \<Rightarrow> SlaveDBRMNode" where
  "sn_confirmChanges n = n\<lparr>
     sn_em := em_confirmChanges (sn_em n),
     sn_vbbm := (if sn_locked0 n then vbbm_confirmChanges (sn_vbbm n) else sn_vbbm n),
     sn_vss := (if sn_locked1 n then vss_confirmChanges (sn_vss n) else sn_vss n),
     sn_copylocks := (if sn_locked2 n then cl_confirmChanges (sn_copylocks n) else sn_copylocks n),
     sn_locked0 := False, sn_locked1 := False, sn_locked2 := False\<rparr>"

definition sn_undoChanges :: "SlaveDBRMNode \<Rightarrow> SlaveDBRMNode option" where
  "sn_undoChanges n = do {
     em \<leftarrow> em_undoChanges (sn_em n);
     b \<leftarrow> (if sn_locked0 n then vbbm_undoChanges (sn_vbbm n) else Some (sn_vbbm n));
     v \<leftarrow> (if sn_locked1 n then vss_undoChanges (sn_vss n) else Some (sn_vss n));
     c \<leftarrow> (if sn_locked2 n then cl_undoChanges (sn_copylocks n) else Some (sn_copylocks n));
     Some (n\<lparr>sn_em := em, sn_vbbm := b, sn_vss := v, sn_copylocks := c,
             sn_locked0 := False, sn_locked1 := False, sn_locked2 := False\<rparr>)
   }"

definition sn_clear :: "int option \<Rightarrow> SlaveDBRMNode \<Rightarrow> (int \<times> SlaveDBRMNode) option" where
  "sn_clear cfg n = do {
     r \<leftarrow> vbbm_clear cfg (sn_vbbm n);
     (case r of
        Inl _ \<Rightarrow> Some (-1, n)
      | Inr b \<Rightarrow> map_option (\<lambda>v. (0, n\<lparr>sn_vbbm := b, sn_vss := v\<rparr>)) (vss_clear (sn_vss n)))
   }"

text \<open>\<^verbatim>\<open>vss.checkConsistency\<close> calls \<^verbatim>\<open>vbbm.lookup\<close> for the entries in the version
  buffer.\<close>

definition sn_vbbm_lookup :: "SlaveDBRMNode \<Rightarrow> LBID_t \<Rightarrow> VER_t \<Rightarrow> int res option" where
  "sn_vbbm_lookup n lbid ver = map_option (map_sum id fst) (vbbm_lookup lbid ver dbr_zero fbo_zero (vbbm_shm (sn_vbbm n)))"

definition sn_checkConsistency :: "SlaveDBRMNode \<Rightarrow> int option" where
  "sn_checkConsistency n = do {
     r1 \<leftarrow> em_checkConsistency (sn_em n);
     (case r1 of
        Inl _ \<Rightarrow> Some (-1)
      | Inr _ \<Rightarrow> do {
          r2 \<leftarrow> vss_checkConsistency (sn_vbbm_lookup n) (vss_shm (sn_vss n));
          (case r2 of
             Inl _ \<Rightarrow> Some (-1)
           | Inr _ \<Rightarrow> do {
               r3 \<leftarrow> vbbm_checkConsistency (vbbm_shm (sn_vbbm n));
               Some (case r3 of Inl _ \<Rightarrow> -1 | Inr _ \<Rightarrow> 0)
             })
        })
   }"

end
