(* ===== verification/Slave_Versions.thy ===== *)
theory Slave_Versions
  imports Slave_Node
begin

text \<open>
  The VSS and the VBBM of a worker node together. The VSS says which versions of a block exist and
  which of them were copied to the version buffer, the VBBM where those copies are. \<open>vs_ok\<close> is
  what the handlers keep of the versions, \<open>in_step\<close> that the two tables name the same copies.
\<close>

section \<open>Versions and copies\<close>

type_synonym vb_copy = "LBID_t \<times> VER_t \<times> DBROOTS_struct \<times> FBO_struct"

definition vs_key :: "vss_version \<Rightarrow> LBID_t \<times> VER_t" where
  "vs_key x = (vv_lbid x, vv_ver x)"

definition vc_key :: "vb_copy \<Rightarrow> LBID_t \<times> VER_t" where
  "vc_key x = (fst x, fst (snd x))"

definition vs_unique :: "vss_version multiset \<Rightarrow> bool" where
  "vs_unique V \<longleftrightarrow> (\<forall>k. count (image_mset vs_key V) k \<le> 1)"

text \<open>No version twice, one current version per block, every copy older than it, and no version 0
  but as a copy.\<close>

definition vs_ok :: "vss_version multiset \<Rightarrow> bool" where
  "vs_ok V \<longleftrightarrow> vs_unique V \<and>
    (\<forall>x \<in># V. 0 \<le> vv_lbid x \<and> 0 \<le> vv_ver x \<and> (vv_ver x = 0 \<longrightarrow> vv_vb x \<and> \<not> vv_locked x)) \<and>
    (\<forall>x \<in># V. \<forall>y \<in># V. vv_lbid x = vv_lbid y \<longrightarrow> \<not> vv_vb x \<longrightarrow> \<not> vv_vb y \<longrightarrow> x = y) \<and>
    (\<forall>x \<in># V. vv_vb x \<longrightarrow> (\<exists>y \<in># V. vv_lbid y = vv_lbid x \<and> \<not> vv_vb y \<and> vv_ver x < vv_ver y))"

definition in_step :: "vss_version multiset \<Rightarrow> vb_copy multiset \<Rightarrow> bool" where
  "in_step V B \<longleftrightarrow> image_mset vs_key (filter_mset vv_vb V) = image_mset vc_key B"

lemma vs_key_simp [simp]: "vs_key (l, v, vb, lk) = (l, v)"
  by (simp add: vs_key_def)

lemma vc_key_simp [simp]: "vc_key (l, v, d, f) = (l, v)"
  by (simp add: vc_key_def)

lemma count_le_1_add: "(\<forall>k. count (add_mset a M) k \<le> 1) \<longleftrightarrow> (\<forall>k. count M k \<le> 1) \<and> a \<notin># M"
proof (intro iffI conjI allI)
  fix k assume "\<forall>k. count (add_mset a M) k \<le> 1"
  then have "count (add_mset a M) k \<le> 1" by blast
  then show "count M k \<le> 1" by (simp split: if_splits)
next
  assume "\<forall>k. count (add_mset a M) k \<le> 1"
  then have "count (add_mset a M) a \<le> 1" by blast
  then show "a \<notin># M" by (simp add: not_in_iff)
qed (auto simp: not_in_iff)

lemma notin_image_iff: "a \<notin> f ` A \<longleftrightarrow> (\<forall>y \<in> A. f y \<noteq> a)"
  by blast

lemma vs_unique_add:
  "vs_unique (add_mset x V) \<longleftrightarrow> vs_unique V \<and> (\<forall>y \<in># V. vs_key y \<noteq> vs_key x)"
  unfolding vs_unique_def image_mset_add_mset count_le_1_add set_image_mset notin_image_iff by simp

lemma vs_unique_filter: "vs_unique V \<Longrightarrow> vs_unique (filter_mset P V)"
  by (induction V) (auto simp: vs_unique_add)

lemma vs_unique_image: "vs_unique V \<Longrightarrow> (\<And>x. vs_key (f x) = vs_key x) \<Longrightarrow> vs_unique (image_mset f V)"
  by (simp add: vs_unique_def image_mset.compositionality o_def del: count_image_mset)

text \<open>The members as facts over components, the form the handlers' lemmas have.\<close>

lemma vs_ok_unique: "vs_ok V \<Longrightarrow> vs_unique V"
  by (simp add: vs_ok_def)

lemma vs_ok_nonneg: "vs_ok V \<Longrightarrow> (l, v, vb, lk) \<in># V \<Longrightarrow> 0 \<le> l \<and> 0 \<le> v \<and> (v = 0 \<longrightarrow> vb \<and> \<not> lk)"
  by (fastforce simp: vs_ok_def)

lemma vs_ok_current:
  "vs_ok V \<Longrightarrow> (l, v, False, lk) \<in># V \<Longrightarrow> (l, v', False, lk') \<in># V \<Longrightarrow> v' = v \<and> lk' = lk"
  by (fastforce simp: vs_ok_def)

lemma vs_ok_copy:
  assumes "vs_ok V" "(l, v, True, lk) \<in># V"
  obtains v' lk' where "(l, v', False, lk') \<in># V" "v < v'"
  using assms by (fastforce simp: vs_ok_def)

lemma vs_ok_copy_older:
  "vs_ok V \<Longrightarrow> (l, v, True, lk) \<in># V \<Longrightarrow> (l, v', False, lk') \<in># V \<Longrightarrow> v < v'"
  by (metis vs_ok_copy vs_ok_current)

lemma vs_okI:
  assumes "vs_unique V"
    and "\<And>l v vb lk. (l, v, vb, lk) \<in># V \<Longrightarrow> 0 \<le> l \<and> 0 \<le> v \<and> (v = 0 \<longrightarrow> vb \<and> \<not> lk)"
    and "\<And>l v lk v' lk'. (l, v, False, lk) \<in># V \<Longrightarrow> (l, v', False, lk') \<in># V \<Longrightarrow> v = v' \<and> lk = lk'"
    and "\<And>l v lk. (l, v, True, lk) \<in># V \<Longrightarrow> \<exists>v' lk'. (l, v', False, lk') \<in># V \<and> v < v'"
  shows "vs_ok V"
  unfolding vs_ok_def
proof (intro conjI ballI impI)
  show "vs_unique V" by (rule assms(1))
next
  fix x assume x: "x \<in># V"
  obtain l v vb lk where e: "x = (l, v, vb, lk)" by (cases x)
  show "0 \<le> vv_lbid x" "0 \<le> vv_ver x" "vv_ver x = 0 \<Longrightarrow> vv_vb x" "vv_ver x = 0 \<Longrightarrow> \<not> vv_locked x"
    using assms(2) [OF x [unfolded e]] by (simp_all add: e)
next
  fix x y assume xy: "x \<in># V" "y \<in># V" "vv_lbid x = vv_lbid y" "\<not> vv_vb x" "\<not> vv_vb y"
  then obtain l v lk v' lk' where e: "x = (l, v, False, lk)" "y = (l, v', False, lk')" by (cases x, cases y) simp
  show "x = y" using assms(3) [OF xy(1) [unfolded e] xy(2) [unfolded e]] by (simp add: e)
next
  fix x assume x: "x \<in># V" "vv_vb x"
  then obtain l v lk where e: "x = (l, v, True, lk)" by (cases x) simp
  obtain v' lk' where "(l, v', False, lk') \<in># V" "v < v'" using assms(4) [OF x(1) [unfolded e]] by blast
  then show "\<exists>y \<in># V. vv_lbid y = vv_lbid x \<and> \<not> vv_vb y \<and> vv_ver x < vv_ver y"
    by (intro bexI [of _ "(l, v', False, lk')"]) (simp_all add: e)
qed

lemma in_step_mem:
  assumes "in_step V B"
  shows "(\<exists>lk. (l, v, True, lk) \<in># V) \<longleftrightarrow> (\<exists>d f. (l, v, d, f) \<in># B)"
proof -
  have "(l, v) \<in># image_mset vs_key (filter_mset vv_vb V) \<longleftrightarrow> (l, v) \<in># image_mset vc_key B"
    using assms by (simp add: in_step_def)
  then show ?thesis by (auto simp: vs_key_def vc_key_def image_iff Bex_def)
qed

section \<open>The updates on the objects\<close>

lemma vss_setVBFlag_obj_ok:
  assumes s: "vss_obj_wf s" "vss_locks (vss_shm s)" "l \<noteq> -1" and V: "vss_abs (vss_shm s) = add_mset (l, v, vb', lk) R"
    and u: "vs_unique (vss_abs (vss_shm s))"
  obtains s' where "vss_setVBFlag_obj l v vb s = Some (Inr s')" "vss_obj_wf s'" "vss_locks (vss_shm s')"
    "vss_abs (vss_shm s') = add_mset (l, v, vb, lk) R"
proof -
  have wf: "vss_wf (vss_shm s)" using s by (simp add: vss_obj_wf_def)
  have "(l, v, vb', lk) \<in># vss_abs (vss_shm s)" by (simp add: V)
  then obtain g imgs vb1 lk1 R1 where g: "vss_setVBFlag l v vb (vss_shm s) = Some (Inr (g, imgs))"
      "vss_wf g" "vss_locks (vss_shm s) \<longrightarrow> vss_locks g"
      "vss_abs (vss_shm s) = add_mset (l, v, vb1, lk1) R1" "vss_abs g = add_mset (l, v, vb, lk1) R1"
    using vss_setVBFlag_correct [OF wf s(3), of v vb] by blast
  have "\<forall>y \<in># R. vs_key y \<noteq> (l, v)" using u unfolding V by (simp add: vs_unique_add)
  then have "(l, v, vb1, lk1) \<notin># R" by fastforce
  moreover have "(l, v, vb1, lk1) \<in># add_mset (l, v, vb', lk) R" using g(4) V by simp
  ultimately have "vb1 = vb'" "lk1 = lk" by auto
  then have "R1 = R" using g(4) V by simp
  then have abs: "vss_abs g = add_mset (l, v, vb, lk) R" using g(5) \<open>lk1 = lk\<close> by simp
  let ?s = "s\<lparr>vss_shm := g, vss_undoRecords := vss_undoRecords s @ map (Pair (vss_mapping s)) imgs\<rparr>"
  from g(1) have "vss_setVBFlag_obj l v vb s = Some (Inr ?s)" by (simp add: vss_setVBFlag_obj_def vss_on_def)
  then show ?thesis by (rule that) (use abs g(2,3) s in \<open>simp_all add: vss_obj_wf_def\<close>)
qed

lemma vss_removeEntry_obj_ok:
  assumes s: "vss_obj_wf s" "vss_locks (vss_shm s)" "l \<noteq> -1" and V: "vss_abs (vss_shm s) = add_mset (l, v, vb', lk) R"
    and u: "vs_unique (vss_abs (vss_shm s))"
  obtains s' where "vss_removeEntry_obj l v s = Some s'" "vss_obj_wf s'" "vss_locks (vss_shm s')"
    "vss_abs (vss_shm s') = (if vss_needed l R then R else vss_without l R)"
proof -
  have wf: "vss_wf (vss_shm s)" using s by (simp add: vss_obj_wf_def)
  have "(l, v, vb', lk) \<in># vss_abs (vss_shm s)" by (simp add: V)
  then obtain g imgs fl vb1 lk1 R1 where g: "vss_removeEntry l v (vss_shm s) = Some (g, imgs, fl)"
      "vss_wf g" "vss_locks (vss_shm s) \<longrightarrow> vss_locks g"
      "vss_abs (vss_shm s) = add_mset (l, v, vb1, lk1) R1"
      "if vss_needed l R1 then vss_abs g = R1 \<and> fl = [] else vss_abs g = vss_without l R1 \<and> fl = [l]"
    using vss_removeEntry_correct [OF wf s(3), of v] by blast
  have "\<forall>y \<in># R. vs_key y \<noteq> (l, v)" using u unfolding V by (simp add: vs_unique_add)
  then have "(l, v, vb1, lk1) \<notin># R" by fastforce
  moreover have "(l, v, vb1, lk1) \<in># add_mset (l, v, vb', lk) R" using g(4) V by simp
  ultimately have "vb1 = vb'" "lk1 = lk" by auto
  then have "R1 = R" using g(4) V by simp
  then have abs: "vss_abs g = (if vss_needed l R then R else vss_without l R)" using g(5) by (simp split: if_splits)
  let ?s = "s\<lparr>vss_shm := g, vss_undoRecords := vss_undoRecords s @ map (Pair (vss_mapping s)) imgs\<rparr>"
  from g(1) have "vss_removeEntry_obj l v s = Some ?s" by (simp add: vss_removeEntry_obj_def vss_on_def)
  then show ?thesis by (rule that) (use abs g(2,3) s in \<open>simp_all add: vss_obj_wf_def\<close>)
qed

lemma vbbm_remove_ok:
  assumes s: "vbbm_obj_wf s" "l \<noteq> -1" and B: "vb_abs (vbbm_shm s) = add_mset (l, v, d, f) R"
    and u: "\<forall>x \<in># R. vc_key x \<noteq> (l, v)"
  obtains s' where "vbbm_on (vbbm_removeEntry l v) s = Some s'" "vbbm_obj_wf s'" "vb_abs (vbbm_shm s') = R"
proof -
  have wf: "vb_wf (vbbm_shm s)" using s by (simp add: vbbm_obj_wf_def)
  have "(l, v, d, f) \<in># vb_abs (vbbm_shm s)" by (simp add: B)
  then obtain k g imgs where g: "vbbm_removeEntry l v (vbbm_shm s) = Some (g, imgs)" "vb_wf g"
      "vb_removed k (vbbm_shm s) g" "vb_lbid (vb_storage (vbbm_shm s) ! k) = l" "vb_verID (vb_storage (vbbm_shm s) ! k) = v"
    using vbbm_removeEntry_correct [OF wf s(2), of v] by blast
  let ?e = "vb_storage (vbbm_shm s) ! k"
  have e: "vb_abs (vbbm_shm s) = add_mset (vb_payload ?e) (vb_abs g)" using g(3) by (simp add: vb_removed_def)
  have "vc_key (vb_payload ?e) = (l, v)" using g(4,5) by (simp add: vb_payload_def)
  then have "vb_payload ?e \<notin># R" using u by blast
  moreover have "vb_payload ?e \<in># add_mset (l, v, d, f) R" using e B by simp
  ultimately have "vb_payload ?e = (l, v, d, f)" by auto
  then have abs: "vb_abs g = R" using e B by simp
  let ?s = "s\<lparr>vbbm_shm := g, vbbm_undoRecords := vbbm_undoRecords s @ map (Pair (vbbm_mapping s)) imgs\<rparr>"
  from g(1) have "vbbm_on (vbbm_removeEntry l v) s = Some ?s" by (simp add: vbbm_on_def)
  then show ?thesis by (rule that) (use abs g(2) s in \<open>simp_all add: vbbm_obj_wf_def\<close>)
qed

end
