(* ===== verification/Slave_Write.thy ===== *)
theory Slave_Write
  imports Slave_Versions
begin

text \<open>
  The invariant of a worker node, \<open>sn_ok\<close>, and what \<^verbatim>\<open>writeVBEntry\<close> makes of
  the versions and of the copies, on each of its branches.
\<close>

definition vb_ok :: "VSS \<times> VBBM \<Rightarrow> bool" where
  "vb_ok vb \<longleftrightarrow> vss_obj_wf (fst vb) \<and> vss_locks (vss_shm (fst vb)) \<and> vbbm_obj_wf (snd vb) \<and>
    vs_ok (vss_abs (vss_shm (fst vb))) \<and> in_step (vss_abs (vss_shm (fst vb))) (vb_abs (vbbm_shm (snd vb)))"

definition sn_ok :: "SlaveDBRMNode \<Rightarrow> bool" where
  "sn_ok n \<longleftrightarrow> em_good (sn_em n) \<and> vb_ok (sn_vss n, sn_vbbm n) \<and> cl_inv (sn_copylocks n)"

abbreviation sn_versions :: "SlaveDBRMNode \<Rightarrow> vss_version multiset" where
  "sn_versions n \<equiv> vss_abs (vss_shm (sn_vss n))"

abbreviation sn_copies :: "SlaveDBRMNode \<Rightarrow> vb_copy multiset" where
  "sn_copies n \<equiv> vb_abs (vbbm_shm (sn_vbbm n))"

lemma vb_okD:
  assumes "vb_ok (v, b)"
  shows "vss_obj_wf v" "vss_wf (vss_shm v)" "vss_locks (vss_shm v)" "vbbm_obj_wf b" "vb_struct (vbbm_shm b)"
    "vs_ok (vss_abs (vss_shm v))" "in_step (vss_abs (vss_shm v)) (vb_abs (vbbm_shm b))"
  using assms by (simp_all add: vb_ok_def vss_obj_wf_def vbbm_obj_wf_def vb_wf_def)

section \<open>A new version\<close>

lemma vs_ok_over:
  assumes ok: "vs_ok (add_mset (l, v, False, lk) R)" and t: "v < t"
  shows "vs_ok (add_mset (l, t, False, True) (add_mset (l, v, True, lk) R))" (is "vs_ok ?V'")
proof (rule vs_okI)
  let ?V = "add_mset (l, v, False, lk) R"
  have u: "vs_unique R" "\<forall>y \<in># R. vs_key y \<noteq> (l, v)"
    using vs_ok_unique [OF ok] by (simp_all add: vs_unique_add)
  have old: "v' < v \<and> vb" if "(l, v', vb, lk') \<in># R" for v' vb lk'
  proof (cases vb)
    case True
    then show ?thesis using vs_ok_copy_older [OF ok, of l v' lk' v lk] that by simp
  next
    case False
    then have "v' = v" using vs_ok_current [OF ok, of l v lk v' lk'] that by simp
    then show ?thesis using u(2) that by force
  qed
  have "vs_key y \<noteq> (l, t)" if "y \<in># R" for y
    using old [of "vv_ver y" "vv_vb y" "vv_locked y"] that t by (auto simp: vs_key_def)
  then show "vs_unique ?V'" using u t by (simp add: vs_unique_add)
  have v: "0 < v" "0 \<le> l" using vs_ok_nonneg [OF ok, of l v False lk] by auto
  show "0 \<le> l' \<and> 0 \<le> v' \<and> (v' = 0 \<longrightarrow> vb \<and> \<not> lk')" if "(l', v', vb, lk') \<in># ?V'" for l' v' vb lk'
    using that vs_ok_nonneg [OF ok, of l' v' vb lk'] v t by auto
  show "v1 = v2 \<and> lk1 = lk2" if "(l', v1, False, lk1) \<in># ?V'" "(l', v2, False, lk2) \<in># ?V'" for l' v1 lk1 v2 lk2
    using that old [of v1 False lk1] old [of v2 False lk2] vs_ok_current [OF ok, of l' v1 lk1 v2 lk2] by auto
  show "\<exists>v2 lk2. (l', v2, False, lk2) \<in># ?V' \<and> v1 < v2" if m: "(l', v1, True, lk1) \<in># ?V'" for l' v1 lk1
  proof (cases "l' = l")
    case True
    then have "v1 < t" using m old [of v1 True lk1] t by auto
    then show ?thesis using True by auto
  next
    case False
    then have "(l', v1, True, lk1) \<in># ?V" using m by auto
    then obtain v2 lk2 where "(l', v2, False, lk2) \<in># ?V" "v1 < v2" by (rule vs_ok_copy [OF ok])
    then show ?thesis using False by auto
  qed
qed

lemma vs_ok_first:
  assumes ok: "vs_ok V" and l: "\<forall>x \<in># V. vv_lbid x \<noteq> l" "0 \<le> l" and t: "0 < t"
  shows "vs_ok (add_mset (l, t, False, True) (add_mset (l, 0, True, False) V))" (is "vs_ok ?V'")
proof (rule vs_okI)
  have no: "(l, v, vb, lk) \<notin># V" for v vb lk using l(1) by force
  have "\<forall>y \<in># V. vs_key y \<noteq> (l, v)" for v using l(1) by (auto simp: vs_key_def)
  then show "vs_unique ?V'" using vs_ok_unique [OF ok] t by (simp add: vs_unique_add)
  show "0 \<le> l' \<and> 0 \<le> v' \<and> (v' = 0 \<longrightarrow> vb \<and> \<not> lk')" if "(l', v', vb, lk') \<in># ?V'" for l' v' vb lk'
    using that vs_ok_nonneg [OF ok, of l' v' vb lk'] l(2) t by auto
  show "v1 = v2 \<and> lk1 = lk2" if "(l', v1, False, lk1) \<in># ?V'" "(l', v2, False, lk2) \<in># ?V'" for l' v1 lk1 v2 lk2
    using that no vs_ok_current [OF ok, of l' v1 lk1 v2 lk2] by auto
  show "\<exists>v2 lk2. (l', v2, False, lk2) \<in># ?V' \<and> v1 < v2" if m: "(l', v1, True, lk1) \<in># ?V'" for l' v1 lk1
  proof (cases "l' = l")
    case True
    then have "v1 = 0" using m no by auto
    then show ?thesis using True t by auto
  next
    case False
    then have "(l', v1, True, lk1) \<in># V" using m by auto
    then obtain v2 lk2 where "(l', v2, False, lk2) \<in># V" "v1 < v2" by (rule vs_ok_copy [OF ok])
    then show ?thesis by auto
  qed
qed

text \<open>The versions after a write of transaction \<open>t\<close> over version \<open>v\<close>.\<close>

definition vs_written :: "LBID_t \<Rightarrow> VER_t \<Rightarrow> VER_t \<Rightarrow> vss_version multiset \<Rightarrow> vss_version multiset \<Rightarrow> bool" where
  "vs_written l v t V V' \<longleftrightarrow>
    (\<exists>R lk. V = add_mset (l, v, False, lk) R \<and> V' = add_mset (l, t, False, True) (add_mset (l, v, True, lk) R)) \<or>
    v = 0 \<and> (\<forall>x \<in># V. vv_lbid x \<noteq> l) \<and> V' = add_mset (l, t, False, True) (add_mset (l, 0, True, False) V)"

lemma vs_written_ok: "vs_written l v t V V' \<Longrightarrow> vs_ok V \<Longrightarrow> 0 \<le> l \<Longrightarrow> v < t \<Longrightarrow> vs_ok V'"
  unfolding vs_written_def using vs_ok_over vs_ok_first by blast

lemma vs_written_in_step: "vs_written l v t V V' \<Longrightarrow> in_step V B \<Longrightarrow> in_step V' (add_mset (l, v, d, f) B)"
  unfolding vs_written_def in_step_def by auto

lemma vs_current_cases:
  assumes wf: "vss_wf g" and ok: "vs_ok (vss_abs g)" and l: "0 \<le> l"
  obtains (some) v lk R where "vss_getCurrentVersion l g = Some (v, lk)" "0 < v" "vss_abs g = add_mset (l, v, False, lk) R"
  | (none) lk where "vss_getCurrentVersion l g = Some (0, lk)" "\<forall>x \<in># vss_abs g. vv_lbid x \<noteq> l"
proof -
  have "l \<noteq> -1" using l by simp
  from vss_getCurrentVersion_correct [OF wf this] obtain v lk where v: "vss_getCurrentVersion l g = Some (v, lk)"
    "(l, v, False, lk) \<in># vss_abs g \<or> v = 0 \<and> (\<forall>v' lk'. (l, v', False, lk') \<notin># vss_abs g)" by blast
  show ?thesis
  proof (cases "(l, v, False, lk) \<in># vss_abs g")
    case True
    moreover obtain R where "vss_abs g = add_mset (l, v, False, lk) R" using True by (metis mset_add)
    ultimately show ?thesis using some [OF v(1)] vs_ok_nonneg [OF ok, of l v False lk] by force
  next
    case False
    with v(2) have no: "v = 0" "\<And>v' lk'. (l, v', False, lk') \<notin># vss_abs g" by auto
    have "vv_lbid x \<noteq> l" if x: "x \<in># vss_abs g" for x
    proof
      assume "vv_lbid x = l"
      then obtain v' vb lk' where e: "x = (l, v', vb, lk')" by (cases x) auto
      show False
      proof (cases vb)
        case True
        then have "(l, v', True, lk') \<in># vss_abs g" using x e by simp
        then obtain v1 lk1 where "(l, v1, False, lk1) \<in># vss_abs g" by (rule vs_ok_copy [OF ok])
        then show False using no(2) by blast
      next
        case False
        then show False using no(2) x e by simp
      qed
    qed
    then show ?thesis using none [of lk] v(1) no(1) by simp
  qed
qed

lemma sn_new_version_ok:
  assumes ok: "vb_ok (sn_vss n, sn_vbbm n)" and l: "0 \<le> l" and v: "v < t" and k: "dbrIdx < MAX_DATA_REPLICATESIZE"
    and cur: "(\<exists>lk R. sn_versions n = add_mset (l, v, False, lk) R) \<and> 0 < v \<or> v = 0 \<and> (\<forall>x \<in># sn_versions n. vv_lbid x \<noteq> l)"
  obtains n' where "sn_new_version l v t dbrIdx vbOID vbFBO n = Some (0, n')" "vb_ok (sn_vss n', sn_vbbm n')"
    "vs_written l v t (sn_versions n) (sn_versions n')"
    "sn_copies n' = add_mset (l, v, dbr_zero[dbrIdx := word_of_int vbOID], fbo_zero[dbrIdx := word_of_int vbFBO]) (sn_copies n)"
    "sn_em n' = sn_em n" "sn_copylocks n' = sn_copylocks n"
proof -
  note D = vb_okD [OF ok]
  have l1: "l \<noteq> -1" using l by simp
  let ?d = "dbr_zero[dbrIdx := word_of_int vbOID]" and ?f = "fbo_zero[dbrIdx := word_of_int vbFBO]"
  obtain b where b: "vbbm_insert l v ?d ?f False (sn_vbbm n) = Some b" "vbbm_obj_wf b"
      "vb_abs (vbbm_shm b) = add_mset (l, v, ?d, ?f) (sn_copies n)"
    using vbbm_insert_correct [OF D(4) l1, of v ?d ?f False] by blast
  have "\<exists>v1. (if v > 0 then vss_setVBFlag_obj l v True (sn_vss n)
             else map_option Inr (vss_insert l v True False False (sn_vss n))) = Some (Inr v1) \<and>
      vss_obj_wf v1 \<and> vss_locks (vss_shm v1) \<and>
      vs_written l v t (sn_versions n) (add_mset (l, t, False, True) (vss_abs (vss_shm v1)))"
  proof (cases "0 < v")
    case True
    then obtain lk R where R: "sn_versions n = add_mset (l, v, False, lk) R" using cur by auto
    obtain v1 where "vss_setVBFlag_obj l v True (sn_vss n) = Some (Inr v1)" "vss_obj_wf v1" "vss_locks (vss_shm v1)"
        "vss_abs (vss_shm v1) = add_mset (l, v, True, lk) R"
      by (rule vss_setVBFlag_obj_ok [OF D(1,3) l1 R vs_ok_unique [OF D(6)], where vb = True])
    then show ?thesis using True R by (auto simp: vs_written_def)
  next
    case False
    then have v0: "v = 0" "\<forall>x \<in># sn_versions n. vv_lbid x \<noteq> l" using cur by auto
    obtain v1 where "vss_insert l 0 True False False (sn_vss n) = Some v1" "vss_obj_wf v1"
        "vss_abs (vss_shm v1) = add_mset (l, 0, True, False) (sn_versions n)" "vss_locks (vss_shm v1)"
      using vss_insert_correct [OF D(1) l1, of 0 True False False] D(3) by blast
    then show ?thesis using v0 by (simp add: vs_written_def)
  qed
  then obtain v1 where v1: "(if v > 0 then vss_setVBFlag_obj l v True (sn_vss n)
             else map_option Inr (vss_insert l v True False False (sn_vss n))) = Some (Inr v1)"
      "vss_obj_wf v1" "vss_locks (vss_shm v1)"
      "vs_written l v t (sn_versions n) (add_mset (l, t, False, True) (vss_abs (vss_shm v1)))" by blast
  obtain v2 where v2: "vss_insert l t False True False v1 = Some v2" "vss_obj_wf v2"
      "vss_abs (vss_shm v2) = add_mset (l, t, False, True) (vss_abs (vss_shm v1))" "vss_locks (vss_shm v2)"
    using vss_insert_correct [OF v1(2) l1, of t False True False] v1(3) by blast
  let ?n' = "n\<lparr>sn_vbbm := b, sn_vss := v2\<rparr>"
  have w: "vs_written l v t (sn_versions n) (vss_abs (vss_shm v2))" using v1(4) v2(3) by simp
  have "sn_new_version l v t dbrIdx vbOID vbFBO n = Some (0, ?n')"
    using k b(1) v1(1) v2(1) by (auto simp: sn_new_version_def split: if_splits)
  moreover have "vb_ok (sn_vss ?n', sn_vbbm ?n')"
    using v2 b(2) vs_written_ok [OF w D(6) l v] vs_written_in_step [OF w D(7), of ?d ?f] by (simp add: vb_ok_def b(3))
  ultimately show ?thesis by (rule that) (simp_all add: w b(3))
qed

section \<open>Another replica of a copy\<close>

lemma vb_wf_moved:
  assumes wf: "vb_wf g" and k: "k < length (vb_storage g)" "vb_lbid (vb_storage g ! k) = l" "vb_verID (vb_storage g ! k) = v" "l \<noteq> -1"
    and g': "g' = g\<lparr>vb_storage := (vb_storage g)[k := (vb_storage g ! k)\<lparr>vb_vbOids := d', vb_vbFbo := f'\<rparr>]\<rparr>"
  obtains d f R where "vb_wf g'" "vb_abs g = add_mset (l, v, d, f) R" "vb_abs g' = add_mset (l, v, d', f') R"
proof -
  let ?e = "vb_storage g ! k" let ?e' = "?e\<lparr>vb_vbOids := d', vb_vbFbo := f'\<rparr>"
  have used: "vb_used ?e" "vb_used ?e'" using k by (simp_all add: vb_used_def)
  have pay: "vb_payload ?e = (l, v, vb_vbOids ?e, vb_vbFbo ?e)" "vb_payload ?e' = (l, v, d', f')"
    using k by (simp_all add: vb_payload_def)
  have "vb_payload ?e \<in># vb_abs g" using k(1) used by (simp add: vb_abs_def)
  then obtain R where R: "vb_abs g = add_mset (l, v, vb_vbOids ?e, vb_vbFbo ?e) R"
    using pay(1) by (metis mset_add)
  have "vb_abs g' + {#vb_payload ?e#} = vb_abs g + {#vb_payload ?e'#}"
    using mset_filter_update [OF k(1), of vb_payload vb_used ?e'] used by (simp add: vb_abs_def g')
  then have abs: "vb_abs g' = add_mset (l, v, d', f') R" unfolding R pay by (auto simp: add_eq_conv_ex)
  have "hash_wf vb_used vb_next vb_bkt (vb_storage g') (vb_buckets g)"
  proof (rule hash_wf_cong)
    show "hash_wf vb_used vb_next vb_bkt (vb_storage g) (vb_buckets g)" using wf by (simp add: vb_wf_def vb_struct_def)
  qed (auto simp: g' nth_update_if vb_used_def vb_bkt_def)
  moreover have "vb_used (vb_storage g' ! i)" if "i < nat (vb_LWM g)" for i
    using that wf used(2) k(1) by (auto simp: vb_wf_def vb_struct_def g' nth_list_update)
  moreover have "vb_header g' = vb_header g" "vb_files g' = vb_files g" "vb_buckets g' = vb_buckets g"
      "length (vb_storage g') = length (vb_storage g)" by (simp_all add: g')
  ultimately have "vb_wf g'" using wf abs R by (simp add: vb_wf_def vb_struct_def)
  then show ?thesis using R abs by (rule that)
qed

lemma sn_set_replica_ok:
  assumes ok: "vb_ok (sn_vss n, sn_vbbm n)" and l: "0 \<le> l" and k: "dbrIdx < MAX_DATA_REPLICATESIZE"
  obtains r n' where "sn_set_replica l t dbrIdx vbOID vbFBO n = Some (r, n')" "vb_ok (sn_vss n', sn_vbbm n')"
    "sn_vss n' = sn_vss n" "sn_em n' = sn_em n" "sn_copylocks n' = sn_copylocks n"
proof -
  note D = vb_okD [OF ok]
  have l1: "l \<noteq> -1" using l by simp
  have wfb: "vb_wf (vbbm_shm (sn_vbbm n))" using D(4) by (simp add: vbbm_obj_wf_def)
  obtain ov where ov: "vss_getHighestVerInVB l t (vss_shm (sn_vss n)) = Some ov"
      "ov = -1 \<or> (\<exists>lk. (l, ov, True, lk) \<in># sn_versions n)"
    using vss_getHighestVerInVB_correct [OF D(2) l1, of t] by blast
  show ?thesis
  proof (cases "ov = -1")
    case True
    then have "sn_set_replica l t dbrIdx vbOID vbFBO n = Some (-1, n)"
      using ov l by (simp add: sn_set_replica_def vbbm_lookup_entry_def)
    then show ?thesis by (rule that) (simp_all add: ok)
  next
    case False
    then obtain lk where m: "(l, ov, True, lk) \<in># sn_versions n" using ov(2) by blast
    then have ov0: "0 \<le> ov" using vs_ok_nonneg [OF D(6)] by blast
    from m obtain d f where c: "(l, ov, d, f) \<in># sn_copies n" using in_step_mem [OF D(7), of l ov] by blast
    show ?thesis
    proof (cases rule: vbbm_getIndex_cases [OF D(5) l1, of ov])
      case (1 prev)
      then show ?thesis using c by blast
    next
      case (2 b xs i ys)
      let ?g = "vbbm_shm (sn_vbbm n)"
      let ?d = "(vb_vbOids (vb_storage ?g ! i))[dbrIdx := word_of_int vbOID]"
      let ?f = "(vb_vbFbo (vb_storage ?g ! i))[dbrIdx := word_of_int vbFBO]"
      let ?g' = "?g\<lparr>vb_storage := (vb_storage ?g)[i := (vb_storage ?g ! i)\<lparr>vb_vbOids := ?d, vb_vbFbo := ?f\<rparr>]\<rparr>"
      let ?n' = "n\<lparr>sn_vbbm := (sn_vbbm n)\<lparr>vbbm_shm := ?g'\<rparr>\<rparr>"
      obtain d1 f1 R where g': "vb_wf ?g'" "vb_abs ?g = add_mset (l, ov, d1, f1) R" "vb_abs ?g' = add_mset (l, ov, ?d, ?f) R"
        using vb_wf_moved [OF wfb 2(4,5,6) l1 refl] by blast
      have "sn_set_replica l t dbrIdx vbOID vbFBO n = Some (0, ?n')"
        using ov(1) l ov0 2(1) k by (simp add: sn_set_replica_def vbbm_lookup_entry_def Let_def)
      moreover have "vb_ok (sn_vss ?n', sn_vbbm ?n')"
        using D(1,3,4,6,7) g' by (simp add: vb_ok_def vbbm_obj_wf_def in_step_def)
      ultimately show ?thesis by (rule that) simp_all
    qed
  qed
qed

section \<open>Writing\<close>

lemma sn_lock_vb_simps [simp]:
  "sn_vss (sn_lock_vb n) = sn_vss n" "sn_vbbm (sn_lock_vb n) = sn_vbbm n"
  "sn_em (sn_lock_vb n) = sn_em n" "sn_copylocks (sn_lock_vb n) = sn_copylocks n"
  by (simp_all add: sn_lock_vb_def)

lemma sn_writeVBEntry_new:
  assumes ok: "vb_ok (sn_vss n, sn_vbbm n)" and l: "0 \<le> l" and k: "dbrIdx < MAX_DATA_REPLICATESIZE"
    and cur: "vss_getCurrentVersion l (vss_shm (sn_vss n)) = Some (v, lk)" "v < t"
  obtains n' where "sn_writeVBEntry t l dbrIdx vbOID vbFBO n = Some (0, n')" "vb_ok (sn_vss n', sn_vbbm n')"
    "vs_written l v t (sn_versions n) (sn_versions n')"
    "sn_copies n' = add_mset (l, v, dbr_zero[dbrIdx := word_of_int vbOID], fbo_zero[dbrIdx := word_of_int vbFBO]) (sn_copies n)"
    "sn_em n' = sn_em n" "sn_copylocks n' = sn_copylocks n"
proof -
  note D = vb_okD [OF ok]
  have c: "(\<exists>lk R. sn_versions n = add_mset (l, v, False, lk) R) \<and> 0 < v \<or> v = 0 \<and> (\<forall>x \<in># sn_versions n. vv_lbid x \<noteq> l)"
  proof (cases rule: vs_current_cases [OF D(2,6) l])
    case (1 v1 lk1 R)
    then have "v = v1" using cur(1) by simp
    then show ?thesis using 1 by blast
  next
    case (2 lk1)
    then show ?thesis using cur(1) by simp
  qed
  obtain n' where n': "sn_new_version l v t dbrIdx vbOID vbFBO (sn_lock_vb n) = Some (0, n')" "vb_ok (sn_vss n', sn_vbbm n')"
    "vs_written l v t (sn_versions n) (sn_versions n')"
    "sn_copies n' = add_mset (l, v, dbr_zero[dbrIdx := word_of_int vbOID], fbo_zero[dbrIdx := word_of_int vbFBO]) (sn_copies n)"
    "sn_em n' = sn_em n" "sn_copylocks n' = sn_copylocks n"
    using sn_new_version_ok [of "sn_lock_vb n" l v t dbrIdx vbOID vbFBO, unfolded sn_lock_vb_simps, OF ok l cur(2) k c] by blast
  have "sn_writeVBEntry t l dbrIdx vbOID vbFBO n = Some (0, n')"
    using cur n'(1) by (simp add: sn_writeVBEntry_def)
  then show ?thesis using n'(2-) by (rule that)
qed

lemma sn_writeVBEntry_ok:
  assumes ok: "sn_ok n" and l: "0 \<le> l" and k: "dbrIdx < MAX_DATA_REPLICATESIZE"
    and w: "sn_writeVBEntry t l dbrIdx vbOID vbFBO n = Some (r, n')"
  shows "sn_ok n'"
proof -
  have ok1: "vb_ok (sn_vss n, sn_vbbm n)" and cl: "cl_inv (sn_copylocks n)" "em_good (sn_em n)" using ok by (simp_all add: sn_ok_def)
  have l1: "l \<noteq> -1" using l by simp
  obtain v lk where cur: "vss_getCurrentVersion l (vss_shm (sn_vss n)) = Some (v, lk)"
    using vss_getCurrentVersion_correct [OF vb_okD(2) [OF ok1] l1] by blast
  consider "v < t" | "v = t" | "t < v" by linarith
  then show ?thesis
  proof cases
    case 1
    obtain n1 where "sn_writeVBEntry t l dbrIdx vbOID vbFBO n = Some (0, n1)" "vb_ok (sn_vss n1, sn_vbbm n1)"
        "sn_copylocks n1 = sn_copylocks n" "sn_em n1 = sn_em n"
      by (rule sn_writeVBEntry_new [OF ok1 l k cur 1])
    then show ?thesis using w cl by (simp add: sn_ok_def)
  next
    case 2
    have "vb_ok (sn_vss (sn_lock_vb n), sn_vbbm (sn_lock_vb n))" using ok1 by simp
    then obtain r1 n1 where "sn_set_replica l t dbrIdx vbOID vbFBO (sn_lock_vb n) = Some (r1, n1)" "vb_ok (sn_vss n1, sn_vbbm n1)"
        "sn_copylocks n1 = sn_copylocks (sn_lock_vb n)" "sn_em n1 = sn_em (sn_lock_vb n)"
      by (rule sn_set_replica_ok [OF _ l k])
    then show ?thesis using w cl 2 cur by (simp add: sn_ok_def sn_writeVBEntry_def)
  next
    case 3
    then show ?thesis using w cur ok by (auto simp: sn_ok_def sn_writeVBEntry_def)
  qed
qed

end
