(* ===== verification/Slave_Update.thy ===== *)
theory Slave_Update
  imports Slave_Write
begin

text \<open>
  What \<^verbatim>\<open>vbRollback\<close>, \<^verbatim>\<open>vbCommit\<close> and \<^verbatim>\<open>deleteOID\<close> of a worker node make
  of the versions and of the copies, and that each of them keeps the node's invariant.
\<close>

section \<open>Rolling a block back\<close>

lemma vs_ok_filter:
  assumes ok: "vs_ok V"
  shows "vs_ok (filter_mset (\<lambda>x. P (vv_lbid x)) V)" (is "vs_ok ?F")
proof (rule vs_okI)
  show "vs_unique ?F" using vs_ok_unique [OF ok] by (rule vs_unique_filter)
  show "0 \<le> l \<and> 0 \<le> v \<and> (v = 0 \<longrightarrow> vb \<and> \<not> lk)" if "(l, v, vb, lk) \<in># ?F" for l v vb lk
    using that vs_ok_nonneg [OF ok, of l v vb lk] by simp
  show "v = v' \<and> lk = lk'" if "(l, v, False, lk) \<in># ?F" "(l, v', False, lk') \<in># ?F" for l v lk v' lk'
    using that vs_ok_current [OF ok, of l v lk v' lk'] by simp
  show "\<exists>v' lk'. (l, v', False, lk') \<in># ?F \<and> v < v'" if m: "(l, v, True, lk) \<in># ?F" for l v lk
  proof -
    have "(l, v, True, lk) \<in># V" "P l" using m by simp_all
    then obtain v' lk' where "(l, v', False, lk') \<in># V" "v < v'" by (elim vs_ok_copy [OF ok])
    then show ?thesis using \<open>P l\<close> by auto
  qed
qed

lemma vs_ok_below:
  assumes ok: "vs_ok (add_mset (l, t, False, lk) R)" and m: "(l, v, vb, lk') \<in># R"
  shows "vb \<and> v < t"
proof (cases vb)
  case True
  then show ?thesis using vs_ok_copy_older [OF ok, of l v lk' t lk] m by simp
next
  case False
  then have "v = t" using vs_ok_current [OF ok, of l t lk v lk'] m by simp
  then show ?thesis using vs_ok_unique [OF ok] m by (force simp: vs_unique_add)
qed

lemma vs_ok_back:
  assumes ok: "vs_ok (add_mset (l, t, False, lk) (add_mset (l, r, True, lk1) R))" (is "vs_ok ?V")
    and top: "\<forall>v lk'. (l, v, True, lk') \<in># R \<longrightarrow> v \<le> r"
    and need: "vss_needed l (add_mset (l, r, False, lk1) R)"
  shows "vs_ok (add_mset (l, r, False, lk1) R)" (is "vs_ok ?W")
proof (rule vs_okI)
  have u: "vs_unique R" "\<forall>y \<in># R. vs_key y \<noteq> (l, r)" using vs_ok_unique [OF ok] by (simp_all add: vs_unique_add)
  then show "vs_unique ?W" by (simp add: vs_unique_add)
  have R: "vb \<and> v < r" if "(l, v, vb, lk') \<in># R" for v vb lk'
  proof -
    have "vb" using vs_ok_below [OF ok, of v vb lk'] that by simp
    moreover have "v \<noteq> r" using u(2) that by force
    ultimately show ?thesis using top that by force
  qed
  have pos: "0 \<le> r" "r = 0 \<longrightarrow> \<not> lk1" "0 \<le> l" using vs_ok_nonneg [OF ok, of l r True lk1] by auto
  obtain x where x: "x \<in># ?W" "vv_lbid x = l" "vv_vb x \<or> vv_locked x" using need unfolding vss_needed_def by blast
  have "0 < r"
  proof (cases "x = (l, r, False, lk1)")
    case True
    then show ?thesis using x(3) pos by auto
  next
    case False
    then have xR: "(l, vv_ver x, vv_vb x, vv_locked x) \<in># R" using x by auto
    then have "0 \<le> vv_ver x" using vs_ok_nonneg [OF ok, of l "vv_ver x" "vv_vb x" "vv_locked x"] by simp
    then show ?thesis using R [OF xR] by simp
  qed
  then show "0 \<le> l' \<and> 0 \<le> v' \<and> (v' = 0 \<longrightarrow> vb \<and> \<not> lk')" if "(l', v', vb, lk') \<in># ?W" for l' v' vb lk'
    using that vs_ok_nonneg [OF ok, of l' v' vb lk'] pos by auto
  show "v1 = v2 \<and> lk1' = lk2" if "(l', v1, False, lk1') \<in># ?W" "(l', v2, False, lk2) \<in># ?W" for l' v1 lk1' v2 lk2
    using that R [of v1 False lk1'] R [of v2 False lk2] vs_ok_current [OF ok, of l' v1 lk1' v2 lk2] by auto
  show "\<exists>v2 lk2. (l', v2, False, lk2) \<in># ?W \<and> v1 < v2" if m: "(l', v1, True, lk1') \<in># ?W" for l' v1 lk1'
  proof (cases "l' = l")
    case True
    then show ?thesis using m R [of v1 True lk1'] by auto
  next
    case False
    then have "(l', v1, True, lk1') \<in># ?V" using m by auto
    then obtain v2 lk2 where "(l', v2, False, lk2) \<in># ?V" "v1 < v2" by (rule vs_ok_copy [OF ok])
    then show ?thesis using False by auto
  qed
qed

definition vs_settled :: "LBID_t \<Rightarrow> vss_version multiset \<Rightarrow> vss_version multiset" where
  "vs_settled l V = (if vss_needed l V then V else vss_without l V)"

text \<open>The versions and copies after block \<open>l\<close> is rolled back: version \<open>t\<close> goes, the newest
  copy is the current version again.\<close>

definition vs_rolled ::
  "LBID_t \<Rightarrow> VER_t \<Rightarrow> vss_version multiset \<Rightarrow> vss_version multiset \<Rightarrow> vb_copy multiset \<Rightarrow> vb_copy multiset \<Rightarrow> bool" where
  "vs_rolled l t V V' B B' \<longleftrightarrow>
    (\<exists>lk R. V = add_mset (l, t, False, lk) R \<and> (\<forall>x \<in># R. vv_lbid x \<noteq> l) \<and> V' = R \<and> B' = B) \<or>
    (\<exists>lk r lk1 R d f. V = add_mset (l, t, False, lk) (add_mset (l, r, True, lk1) R) \<and>
       (\<forall>v lk'. (l, v, True, lk') \<in># R \<longrightarrow> v \<le> r) \<and>
       V' = vs_settled l (add_mset (l, r, False, lk1) R) \<and> B = add_mset (l, r, d, f) B')"

lemma vs_without_ok: "vs_ok V \<Longrightarrow> vs_ok (vss_without l V)"
  unfolding vss_without_def by (rule vs_ok_filter)

lemma vs_rolled_ok: "vs_rolled l t V V' B B' \<Longrightarrow> vs_ok V \<Longrightarrow> vs_ok V'"
  unfolding vs_rolled_def
proof (elim disjE exE conjE)
  fix lk R assume "V = add_mset (l, t, False, lk) R" "\<forall>x \<in># R. vv_lbid x \<noteq> l" "V' = R" "vs_ok V"
  moreover from this have "R = vss_without l V" by (auto simp: vss_without_def intro: filter_mset_eq_conv [THEN iffD2, symmetric])
  ultimately show "vs_ok V'" using vs_without_ok by simp
next
  fix lk r lk1 R d f
  assume V: "V = add_mset (l, t, False, lk) (add_mset (l, r, True, lk1) R)" "vs_ok V"
    and top: "\<forall>v lk'. (l, v, True, lk') \<in># R \<longrightarrow> v \<le> r"
    and V': "V' = vs_settled l (add_mset (l, r, False, lk1) R)"
  show "vs_ok V'"
  proof (cases "vss_needed l (add_mset (l, r, False, lk1) R)")
    case True
    then show ?thesis using vs_ok_back [OF V(2) [unfolded V(1)] top True] V' by (simp add: vs_settled_def)
  next
    case False
    then have "V' = vss_without l V" using V' V(1) by (simp add: vs_settled_def vss_without_def)
    then show ?thesis using vs_without_ok [OF V(2)] by simp
  qed
qed

lemma filter_without_unneeded: "\<not> vss_needed l V \<Longrightarrow> filter_mset vv_vb (vss_without l V) = filter_mset vv_vb V"
  unfolding vss_without_def filter_filter_mset by (rule filter_mset_cong) (auto simp: vss_needed_def)

lemma vs_rolled_in_step: "vs_rolled l t V V' B B' \<Longrightarrow> in_step V B \<Longrightarrow> in_step V' B'"
  unfolding vs_rolled_def in_step_def vs_settled_def
  by (elim disjE exE conjE) (auto simp: filter_without_unneeded)

lemma vb_ok_unique_copies:
  assumes "vb_ok (v, b)"
  shows "count (image_mset vc_key (vb_abs (vbbm_shm b))) k \<le> 1"
proof -
  have "vs_unique (filter_mset vv_vb (vss_abs (vss_shm v)))"
    using vs_unique_filter [OF vs_ok_unique [OF vb_okD(6) [OF assms]]] .
  then show ?thesis using vb_okD(7) [OF assms] by (simp only: vs_unique_def in_step_def)
qed

lemma vb_rollback_last:
  assumes ok: "vb_ok (v, b)" and V: "vss_abs (vss_shm v) = add_mset (l, t, False, lk) R" and l: "l \<noteq> -1"
    and r: "vss_getHighestVerInVB l t (vss_shm v) = Some (-1)" "\<forall>x \<in># R. vv_lbid x \<noteq> l"
  shows "\<exists>v'. vb_rollback_block t l (v, b) = Some (Inr (), v', b) \<and> vss_obj_wf v' \<and> vss_locks (vss_shm v') \<and>
    vs_rolled l t (vss_abs (vss_shm v)) (vss_abs (vss_shm v')) (vb_abs (vbbm_shm b)) (vb_abs (vbbm_shm b))"
proof -
  note D = vb_okD [OF ok]
  obtain v' where v': "vss_removeEntry_obj l t v = Some v'" "vss_obj_wf v'" "vss_locks (vss_shm v')"
      "vss_abs (vss_shm v') = (if vss_needed l R then R else vss_without l R)"
    by (rule vss_removeEntry_obj_ok [OF D(1,3) l V vs_ok_unique [OF D(6)]])
  have "vss_without l R = R" using r(2) by (simp add: vss_without_def filter_mset_eq_conv)
  then have "vss_abs (vss_shm v') = R" using v'(4) by simp
  then have "vs_rolled l t (vss_abs (vss_shm v)) (vss_abs (vss_shm v')) (vb_abs (vbbm_shm b)) (vb_abs (vbbm_shm b))"
    unfolding vs_rolled_def V using r(2) by blast
  moreover have "vb_rollback_block t l (v, b) = Some (Inr (), v', b)"
    using r(1) v'(1) by (simp add: vb_rollback_block_def)
  ultimately show ?thesis using v'(2,3) by blast
qed

lemma vb_rollback_copy:
  assumes ok: "vb_ok (v, b)" and l: "l \<noteq> -1"
    and V: "vss_abs (vss_shm v) = add_mset (l, t, False, lk) (add_mset (l, r, True, lk1) R)"
    and r: "vss_getHighestVerInVB l t (vss_shm v) = Some r" "r \<noteq> -1" "\<forall>v lk'. (l, v, True, lk') \<in># R \<longrightarrow> v \<le> r"
  shows "\<exists>v' b'. vb_rollback_block t l (v, b) = Some (Inr (), v', b') \<and> vss_obj_wf v' \<and> vss_locks (vss_shm v') \<and> vbbm_obj_wf b' \<and>
    vs_rolled l t (vss_abs (vss_shm v)) (vss_abs (vss_shm v')) (vb_abs (vbbm_shm b)) (vb_abs (vbbm_shm b'))"
proof -
  note D = vb_okD [OF ok]
  let ?V = "vss_abs (vss_shm v)" and ?B = "vb_abs (vbbm_shm b)"
  have "\<exists>lk. (l, r, True, lk) \<in># ?V" unfolding V by auto
  then obtain d f where "(l, r, d, f) \<in># ?B" using in_step_mem [OF D(7), of l r] by blast
  then obtain B' where B': "?B = add_mset (l, r, d, f) B'" by (metis mset_add)
  have "count (image_mset vc_key B') (l, r) = 0"
    using vb_ok_unique_copies [OF ok, of "(l, r)"] unfolding B' by simp
  then have "(l, r) \<notin># image_mset vc_key B'" by (simp only: not_in_iff)
  then have u: "\<forall>x \<in># B'. vc_key x \<noteq> (l, r)" by force
  obtain b' where b': "vbbm_on (vbbm_removeEntry l r) b = Some b'" "vbbm_obj_wf b'" "vb_abs (vbbm_shm b') = B'"
    by (rule vbbm_remove_ok [OF D(4) l B' u])
  have V': "?V = add_mset (l, r, True, lk1) (add_mset (l, t, False, lk) R)" unfolding V by (rule add_mset_commute)
  obtain v1 where v1: "vss_setVBFlag_obj l r False v = Some (Inr v1)" "vss_obj_wf v1" "vss_locks (vss_shm v1)"
      "vss_abs (vss_shm v1) = add_mset (l, r, False, lk1) (add_mset (l, t, False, lk) R)"
    by (rule vss_setVBFlag_obj_ok [OF D(1,3) l V' vs_ok_unique [OF D(6)], where vb = False])
  let ?W = "add_mset (l, r, False, lk1) R"
  have W: "vss_abs (vss_shm v1) = add_mset (l, t, False, lk) ?W" unfolding v1(4) by (rule add_mset_commute)
  have "vs_unique (vss_abs (vss_shm v1))" using vs_ok_unique [OF D(6)] unfolding V W by (simp add: vs_unique_add)
  then obtain v' where v': "vss_removeEntry_obj l t v1 = Some v'" "vss_obj_wf v'" "vss_locks (vss_shm v')"
      "vss_abs (vss_shm v') = (if vss_needed l ?W then ?W else vss_without l ?W)"
    by (elim vss_removeEntry_obj_ok [OF v1(2,3) l W])
  have "vs_rolled l t ?V (vss_abs (vss_shm v')) ?B (vb_abs (vbbm_shm b'))"
    unfolding vs_rolled_def vs_settled_def b'(3) v'(4) using V B' r(3) by blast
  moreover have "vb_rollback_block t l (v, b) = Some (Inr (), v', b')"
    using r(1,2) b'(1) v1(1) v'(1) by (simp add: vb_rollback_block_def)
  ultimately show ?thesis using v'(2,3) b'(2) by blast
qed

lemma vb_rollback_block_ok:
  assumes ok: "vb_ok (v, b)" and m: "(l, t, False, lk) \<in># vss_abs (vss_shm v)"
  obtains v' b' where "vb_rollback_block t l (v, b) = Some (Inr (), v', b')" "vb_ok (v', b')"
    "vs_rolled l t (vss_abs (vss_shm v)) (vss_abs (vss_shm v')) (vb_abs (vbbm_shm b)) (vb_abs (vbbm_shm b'))"
proof -
  note D = vb_okD [OF ok]
  let ?V = "vss_abs (vss_shm v)" and ?B = "vb_abs (vbbm_shm b)"
  have l: "l \<noteq> -1" using vs_ok_nonneg [OF D(6) m] by auto
  obtain R0 where R0: "?V = add_mset (l, t, False, lk) R0" using m by (metis mset_add)
  note below = vs_ok_below [OF D(6) [unfolded R0]]
  obtain r where r: "vss_getHighestVerInVB l t (vss_shm v) = Some r" "r = -1 \<or> r \<le> t \<and> (\<exists>lk. (l, r, True, lk) \<in># ?V)"
      "\<And>v' lk'. (l, v', True, lk') \<in># ?V \<Longrightarrow> v' \<le> t \<Longrightarrow> v' \<le> r"
    using vss_getHighestVerInVB_correct [OF D(2) l, of t] by blast
  have top: "0 \<le> v' \<and> v' \<le> r \<and> vb" if "(l, v', vb, lk') \<in># R0" for v' vb lk'
    using below [OF that] r(3) [of v' lk'] vs_ok_nonneg [OF D(6), of l v' vb lk'] that R0 by auto
  have "\<exists>v' b'. vb_rollback_block t l (v, b) = Some (Inr (), v', b') \<and> vss_obj_wf v' \<and> vss_locks (vss_shm v') \<and>
    vbbm_obj_wf b' \<and> vs_rolled l t ?V (vss_abs (vss_shm v')) ?B (vb_abs (vbbm_shm b'))"
  proof (cases "r = -1")
    case True
    then have "\<forall>x \<in># R0. vv_lbid x \<noteq> l" using top by fastforce
    then show ?thesis using vb_rollback_last [OF ok R0 l] r(1) True D(4) by blast
  next
    case False
    then obtain lk1 where m1: "(l, r, True, lk1) \<in># ?V" using r(2) by blast
    then have "(l, r, True, lk1) \<in># R0" using R0 by simp
    then obtain R where R: "R0 = add_mset (l, r, True, lk1) R" by (metis mset_add)
    have "\<forall>v lk'. (l, v, True, lk') \<in># R \<longrightarrow> v \<le> r" using top R by auto
    then show ?thesis by (rule vb_rollback_copy [OF ok l R0 [unfolded R] r(1) False])
  qed
  then obtain v' b' where n: "vb_rollback_block t l (v, b) = Some (Inr (), v', b')" "vss_obj_wf v'" "vss_locks (vss_shm v')"
    "vbbm_obj_wf b'" and rolled: "vs_rolled l t ?V (vss_abs (vss_shm v')) ?B (vb_abs (vbbm_shm b'))" by blast
  have "vb_ok (v', b')"
    using n vs_rolled_ok [OF rolled D(6)] vs_rolled_in_step [OF rolled D(7)] by (simp add: vb_ok_def)
  with n(1) show ?thesis using rolled by (rule that)
qed

text \<open>Rolling one block back leaves the other blocks alone.\<close>

lemma vs_rolled_other: "vs_rolled l t V V' B B' \<Longrightarrow> vv_lbid x \<noteq> l \<Longrightarrow> x \<in># V' \<longleftrightarrow> x \<in># V"
  unfolding vs_rolled_def vs_settled_def vss_without_def by (elim disjE exE conjE) (auto split: if_splits)

lemma vb_rollback_blocks_ok:
  assumes "vb_ok (v, b)" "distinct ls" "\<forall>l \<in> set ls. \<exists>lk. (l, t, False, lk) \<in># vss_abs (vss_shm v)"
  shows "\<exists>v' b'. vb_rollback_blocks t ls (v, b) = Some (Inr (), v', b') \<and> vb_ok (v', b')"
  using assms
proof (induction ls arbitrary: v b)
  case (Cons l ls)
  from Cons.prems(3) obtain lk where m: "(l, t, False, lk) \<in># vss_abs (vss_shm v)" by auto
  obtain v1 b1 where s1: "vb_rollback_block t l (v, b) = Some (Inr (), v1, b1)" "vb_ok (v1, b1)"
    "vs_rolled l t (vss_abs (vss_shm v)) (vss_abs (vss_shm v1)) (vb_abs (vbbm_shm b)) (vb_abs (vbbm_shm b1))"
    by (rule vb_rollback_block_ok [OF Cons.prems(1) m])
  have "\<forall>l' \<in> set ls. \<exists>lk. (l', t, False, lk) \<in># vss_abs (vss_shm v1)"
  proof
    fix l' assume l': "l' \<in> set ls"
    then have "l' \<noteq> l" using Cons.prems(2) by auto
    moreover obtain lk' where "(l', t, False, lk') \<in># vss_abs (vss_shm v)" using Cons.prems(3) l' by auto
    ultimately have "(l', t, False, lk') \<in># vss_abs (vss_shm v1)" using vs_rolled_other [OF s1(3), of "(l', t, False, lk')"] by simp
    then show "\<exists>lk. (l', t, False, lk) \<in># vss_abs (vss_shm v1)" ..
  qed
  then obtain v' b' where "vb_rollback_blocks t ls (v1, b1) = Some (Inr (), v', b')" "vb_ok (v', b')"
    using Cons.IH [OF s1(2)] Cons.prems(2) by auto
  then show ?case using s1(1) by simp
qed simp

lemma cl_rollback_ok:
  assumes "cl_inv c"
  obtains c' where "cl_rollback t c = Some c'" "cl_inv c'"
proof -
  obtain c' where "cl_on (\<lambda>g. for_each (cl_free_if (\<lambda>e. cl_txnID e = t)) [0 ..< cl_numEntries g] g) c = Some c'"
      "cl_wf (cl_shm c')" "cl_attached c' = cl_attached c"
    using assms by (auto simp: cl_inv_def elim: cl_on_free)
  then show ?thesis using assms by (intro that [of c']) (simp_all add: cl_rollback_def cl_inv_def)
qed

lemma sn_lock_cl_simps [simp]:
  "sn_vss (sn_lock_cl n) = sn_vss n" "sn_vbbm (sn_lock_cl n) = sn_vbbm n"
  "sn_em (sn_lock_cl n) = sn_em n" "sn_copylocks (sn_lock_cl n) = sn_copylocks n"
  by (simp_all add: sn_lock_cl_def)

lemma sn_put_vb_simps [simp]:
  "sn_vss (sn_put_vb vb n) = fst vb" "sn_vbbm (sn_put_vb vb n) = snd vb"
  "sn_em (sn_put_vb vb n) = sn_em n" "sn_copylocks (sn_put_vb vb n) = sn_copylocks n"
  by (simp_all add: sn_put_vb_def)

lemma sn_vbRollback_ok:
  assumes ok: "sn_ok n" and ls: "distinct ls" "\<forall>l \<in> set ls. \<exists>lk. (l, t, False, lk) \<in># sn_versions n"
  obtains n' where "sn_vbRollback t ls n = Some (0, n')" "sn_ok n'"
proof -
  have ok1: "vb_ok (sn_vss n, sn_vbbm n)" "cl_inv (sn_copylocks n)" "em_good (sn_em n)" using ok by (simp_all add: sn_ok_def)
  obtain c where c: "cl_rollback t (sn_copylocks n) = Some c" "cl_inv c" by (rule cl_rollback_ok [OF ok1(2)])
  obtain v b where vb: "vb_rollback_blocks t ls (sn_vss n, sn_vbbm n) = Some (Inr (), v, b)" "vb_ok (v, b)"
    using vb_rollback_blocks_ok [OF ok1(1) ls] by blast
  have "sn_vbRollback t ls n = Some (0, sn_put_vb (v, b) (sn_lock_cl (sn_lock_vb n)\<lparr>sn_copylocks := c\<rparr>))"
    using c(1) vb(1) by (simp add: sn_vbRollback_def)
  then show ?thesis by (rule that) (simp add: sn_ok_def c(2) vb(2) ok1(3))
qed

section \<open>Committing\<close>

lemma vs_key_commit [simp]: "vs_key (vv_commit t x) = vs_key x"
  by (simp add: vv_commit_def vs_key_def)

lemma vs_ok_commit:
  assumes ok: "vs_ok V"
  shows "vs_ok (image_mset (vv_commit t) V)" (is "vs_ok ?C")
proof -
  have mem: "\<exists>lk0. (l, v, vb, lk0) \<in># V \<and> lk = (lk0 \<and> v \<noteq> t)" if "(l, v, vb, lk) \<in># ?C" for l v vb lk
    using that by (auto simp: vv_commit_def)
  show ?thesis
  proof (rule vs_okI)
    show "vs_unique ?C" using vs_ok_unique [OF ok] by (rule vs_unique_image) simp
    show "0 \<le> l \<and> 0 \<le> v \<and> (v = 0 \<longrightarrow> vb \<and> \<not> lk)" if "(l, v, vb, lk) \<in># ?C" for l v vb lk
      using mem [OF that] vs_ok_nonneg [OF ok] by blast
    show "v = v' \<and> lk = lk'" if "(l, v, False, lk) \<in># ?C" "(l, v', False, lk') \<in># ?C" for l v lk v' lk'
      using mem [OF that(1)] mem [OF that(2)] vs_ok_current [OF ok] by blast
    show "\<exists>v' lk'. (l, v', False, lk') \<in># ?C \<and> v < v'" if m: "(l, v, True, lk) \<in># ?C" for l v lk
    proof -
      obtain lk0 where "(l, v, True, lk0) \<in># V" using mem [OF m] by blast
      then obtain v' lk' where "(l, v', False, lk') \<in># V" "v < v'" by (rule vs_ok_copy [OF ok])
      then have "vv_commit t (l, v', False, lk') \<in># ?C" by simp
      then show ?thesis using \<open>v < v'\<close> by (auto simp: vv_commit_def)
    qed
  qed
qed

lemma in_step_commit: "in_step (image_mset (vv_commit t) V) B = in_step V B"
proof -
  have "image_mset vs_key (filter_mset vv_vb (image_mset (vv_commit t) V)) = image_mset vs_key (filter_mset vv_vb V)"
    by (induction V) (auto simp: vv_commit_def vs_key_def)
  then show ?thesis by (simp add: in_step_def)
qed

lemma sn_vbCommit_ok:
  assumes ok: "sn_ok n" and held: "\<forall>x \<in># sn_versions n. vv_ver x = t \<longrightarrow> vv_locked x"
  obtains n' where "sn_vbCommit t n = Some (0, n')" "sn_ok n'"
    "sn_versions n' = image_mset (vv_commit t) (sn_versions n)" "sn_vbbm n' = sn_vbbm n"
proof -
  have ok1: "vb_ok (sn_vss n, sn_vbbm n)" "cl_inv (sn_copylocks n)" "em_good (sn_em n)" using ok by (simp_all add: sn_ok_def)
  note D = vb_okD [OF ok1(1)]
  have "0 \<le> vss_lockedCount (vss_shm (sn_vss n))" using D(3) by (simp add: vss_locks_def)
  then obtain g imgs where g: "vss_commit t (vss_shm (sn_vss n)) = Some (g, imgs)" "vss_wf g"
      "vss_abs g = image_mset (vv_commit t) (sn_versions n)"
    using vss_commit_correct [OF D(2), of t] by blast
  have lk: "vss_locks g" by (rule vss_commit_locks [OF D(2,3) held g(1)])
  let ?v = "(sn_vss n)\<lparr>vss_shm := g, vss_undoRecords := vss_undoRecords (sn_vss n) @ map (Pair (vss_mapping (sn_vss n))) imgs\<rparr>"
  have vb: "vb_ok (?v, sn_vbbm n)" using D g lk vs_ok_commit [OF D(6), of t] by (simp add: vb_ok_def vss_obj_wf_def in_step_commit)
  have "sn_vbCommit t n = Some (0, n\<lparr>sn_locked1 := True, sn_vss := ?v\<rparr>)"
    using g(1) by (simp add: sn_vbCommit_def vss_commit_obj_def vss_on_def)
  then show ?thesis by (rule that) (simp_all add: sn_ok_def vb ok1(2,3) g(3))
qed

section \<open>Deleting the versions of a range\<close>

lemma vbbm_remove_each_ok:
  assumes "vbbm_obj_wf b" "\<forall>x \<in> set xs. fst x \<noteq> -1" "\<forall>k. count (image_mset vc_key (vb_abs (vbbm_shm b))) k \<le> 1"
  shows "\<exists>b'. vbbm_remove_each xs b = Some b' \<and> vbbm_obj_wf b' \<and>
    vb_abs (vbbm_shm b') = filter_mset (\<lambda>x. vc_key x \<notin> set xs) (vb_abs (vbbm_shm b))"
  using assms
proof (induction xs arbitrary: b)
  case (Cons x xs)
  obtain l v where x: "x = (l, v)" by (cases x)
  have l: "l \<noteq> -1" using Cons.prems(2) x by simp
  have wf: "vb_wf (vbbm_shm b)" using Cons.prems(1) by (simp add: vbbm_obj_wf_def)
  let ?B = "vb_abs (vbbm_shm b)"
  have "\<exists>b1. vbbm_on (vbbm_removeEntry l v) b = Some b1 \<and> vbbm_obj_wf b1 \<and>
      vb_abs (vbbm_shm b1) = filter_mset (\<lambda>x. vc_key x \<noteq> (l, v)) ?B"
  proof (cases "\<exists>d f. (l, v, d, f) \<in># ?B")
    case True
    then obtain d f B' where B': "?B = add_mset (l, v, d, f) B'" by (metis mset_add)
    have "(l, v) \<notin># image_mset vc_key B'"
      using Cons.prems(3) unfolding B' image_mset_add_mset count_le_1_add by simp
    then have u: "\<forall>x \<in># B'. vc_key x \<noteq> (l, v)" by force
    obtain b1 where "vbbm_on (vbbm_removeEntry l v) b = Some b1" "vbbm_obj_wf b1" "vb_abs (vbbm_shm b1) = B'"
      by (rule vbbm_remove_ok [OF Cons.prems(1) l B' u])
    moreover have "filter_mset (\<lambda>x. vc_key x \<noteq> (l, v)) ?B = B'" using u by (simp add: B' filter_mset_eq_conv)
    ultimately show ?thesis by auto
  next
    case False
    from vbbm_removeEntry_correct [OF wf l, of v] have "vbbm_removeEntry l v (vbbm_shm b) = Some (vbbm_shm b, [])"
    proof (elim disjE exE conjE)
      fix k g' imgs
      let ?e = "vb_storage (vbbm_shm b) ! k"
      assume "vb_removed k (vbbm_shm b) g'" "vb_lbid ?e = l" "vb_verID ?e = v"
      then have "(l, v, vb_vbOids ?e, vb_vbFbo ?e) \<in># ?B" by (simp add: vb_removed_def vb_payload_def)
      then show ?thesis using False by blast
    qed
    moreover have "filter_mset (\<lambda>x. vc_key x \<noteq> (l, v)) ?B = ?B"
      using False by (auto simp: filter_mset_eq_conv vc_key_def)
    ultimately show ?thesis using Cons.prems(1) by (simp add: vbbm_on_def vbbm_obj_wf_def)
  qed
  then obtain b1 where b1: "vbbm_on (vbbm_removeEntry l v) b = Some b1" "vbbm_obj_wf b1"
      "vb_abs (vbbm_shm b1) = filter_mset (\<lambda>x. vc_key x \<noteq> (l, v)) ?B" by blast
  have "count (image_mset vc_key (vb_abs (vbbm_shm b1))) k \<le> count (image_mset vc_key ?B) k" for k
    unfolding b1(3) by (intro mset_subset_eq_count image_mset_subseteq_mono) simp
  then have "\<forall>k. count (image_mset vc_key (vb_abs (vbbm_shm b1))) k \<le> 1" using Cons.prems(3) order.trans by blast
  then obtain b' where b': "vbbm_remove_each xs b1 = Some b'" "vbbm_obj_wf b'"
      "vb_abs (vbbm_shm b') = filter_mset (\<lambda>x. vc_key x \<notin> set xs) (vb_abs (vbbm_shm b1))"
    using Cons.IH [OF b1(2)] Cons.prems(2) by auto
  have "vb_abs (vbbm_shm b') = filter_mset (\<lambda>y. vc_key y \<notin> set (x # xs)) ?B"
    unfolding b'(3) b1(3) filter_filter_mset x by (rule filter_mset_cong) auto
  then show ?case using b1(1) b'(1,2) x by simp
qed simp

lemma in_step_filter:
  assumes "in_step V B"
  shows "in_step (filter_mset (\<lambda>x. P (vv_lbid x)) V) (filter_mset (\<lambda>x. P (fst x)) B)"
proof -
  have "image_mset vs_key (filter_mset vv_vb (filter_mset (\<lambda>x. P (vv_lbid x)) V)) =
      filter_mset (\<lambda>k. P (fst k)) (image_mset vs_key (filter_mset vv_vb V))"
    by (induction V) (auto simp: vs_key_def)
  also have "\<dots> = filter_mset (\<lambda>k. P (fst k)) (image_mset vc_key B)" using assms by (simp add: in_step_def)
  also have "\<dots> = image_mset vc_key (filter_mset (\<lambda>x. P (fst x)) B)" by (induction B) (auto simp: vc_key_def)
  finally show ?thesis by (simp add: in_step_def)
qed

text \<open>What is left when the blocks of \<open>S\<close> go.\<close>

definition vb_rest :: "LBID_t set \<Rightarrow> VSS \<times> VBBM \<Rightarrow> VSS \<times> VBBM \<Rightarrow> bool" where
  "vb_rest S vb vb' \<longleftrightarrow>
    vss_abs (vss_shm (fst vb')) = filter_mset (\<lambda>x. vv_lbid x \<notin> S) (vss_abs (vss_shm (fst vb))) \<and>
    vb_abs (vbbm_shm (snd vb')) = filter_mset (\<lambda>x. fst x \<notin> S) (vb_abs (vbbm_shm (snd vb)))"

lemma vb_rest_trans: "vb_rest S a b \<Longrightarrow> vb_rest T b c \<Longrightarrow> vb_rest (S \<union> T) a c"
  by (simp add: vb_rest_def filter_filter_mset conj_commute)

lemma vb_removeEntriesFromDB_ok:
  assumes ok: "vb_ok (v, b)" and r: "0 \<le> range_start r"
  shows "\<exists>v' b'. vb_removeEntriesFromDB r (v, b) = Some (v', b') \<and> vb_ok (v', b') \<and>
    vb_rest (set (range_lbids r)) (v, b) (v', b')"
proof -
  note D = vb_okD [OF ok]
  let ?V = "vss_abs (vss_shm v)" and ?B = "vb_abs (vbbm_shm b)" and ?S = "set (range_lbids r)"
  obtain g imgs rm where g: "vss_removeEntriesFromDB r (vss_shm v) = Some (g, imgs, rm)" "vss_wf g"
      "vss_locks (vss_shm v) \<longrightarrow> vss_locks g" "vss_abs g = filter_mset (\<lambda>x. vv_lbid x \<notin> ?S) ?V"
      "mset rm = image_mset (\<lambda>x. (vv_lbid x, vv_ver x)) (filter_mset (\<lambda>x. vv_lbid x \<in> ?S \<and> vv_vb x) ?V)"
    using vss_removeEntriesFromDB_correct [OF D(2) r] by blast
  have "set rm = vs_key ` {x. x \<in># ?V \<and> vv_lbid x \<in> ?S \<and> vv_vb x}"
    using arg_cong [OF g(5), of set_mset] by (simp add: vs_key_def [abs_def])
  then have rm: "(l, u) \<in> set rm \<longleftrightarrow> l \<in> ?S \<and> (\<exists>lk. (l, u, True, lk) \<in># ?V)" for l u
    by (auto simp: vs_key_def image_iff Bex_def)
  have "\<forall>x \<in> set rm. fst x \<noteq> -1" using rm vs_ok_nonneg [OF D(6)] by fastforce
  then obtain b' where b': "vbbm_remove_each rm b = Some b'" "vbbm_obj_wf b'"
      "vb_abs (vbbm_shm b') = filter_mset (\<lambda>x. vc_key x \<notin> set rm) ?B"
    using vbbm_remove_each_ok [OF D(4)] vb_ok_unique_copies [OF ok] by blast
  have "vc_key x \<in> set rm \<longleftrightarrow> fst x \<in> ?S" if "x \<in># ?B" for x
    using rm [of "fst x" "fst (snd x)"] in_step_mem [OF D(7), of "fst x" "fst (snd x)"] that by (cases x) (auto simp: vc_key_def)
  then have B: "vb_abs (vbbm_shm b') = filter_mset (\<lambda>x. fst x \<notin> ?S) ?B" unfolding b'(3) by (auto intro: filter_mset_cong)
  let ?v = "v\<lparr>vss_shm := g, vss_undoRecords := vss_undoRecords v @ map (Pair (vss_mapping v)) imgs\<rparr>"
  have "vb_ok (?v, b')"
    using D(1,3) g(2,3,4) b'(2) vs_ok_filter [OF D(6), of "\<lambda>l. l \<notin> ?S"] in_step_filter [OF D(7), of "\<lambda>l. l \<notin> ?S"]
    by (simp add: vb_ok_def vss_obj_wf_def B)
  moreover have "vb_removeEntriesFromDB r (v, b) = Some (?v, b')"
    using g(1) b'(1) by (simp add: vb_removeEntriesFromDB_def vss_on_def)
  ultimately show ?thesis using g(4) B by (auto simp: vb_rest_def)
qed

lemma vb_remove_ranges_ok:
  "vb_ok vb \<Longrightarrow> \<forall>r \<in> set rs. 0 \<le> range_start r \<Longrightarrow>
    \<exists>vb'. vb_remove_ranges rs vb = Some vb' \<and> vb_ok vb' \<and> vb_rest (\<Union>r \<in> set rs. set (range_lbids r)) vb vb'"
proof (induction rs arbitrary: vb)
  case (Cons r rs)
  obtain vb1 where 1: "vb_removeEntriesFromDB r vb = Some vb1" "vb_ok vb1" "vb_rest (set (range_lbids r)) vb vb1"
    using vb_removeEntriesFromDB_ok [of "fst vb" "snd vb" r] Cons.prems by auto
  obtain vb2 where "vb_remove_ranges rs vb1 = Some vb2" "vb_ok vb2" "vb_rest (\<Union>r \<in> set rs. set (range_lbids r)) vb1 vb2"
    using Cons.IH [OF 1(2)] Cons.prems by auto
  then show ?case using 1 vb_rest_trans by fastforce
qed (simp add: vb_rest_def)

section \<open>Deleting a column\<close>

definition oid_blocks :: "OID_t \<Rightarrow> ExtentMap \<Rightarrow> LBID_t set" where
  "oid_blocks oid em = (case em_lookup_OID oid em of Inl _ \<Rightarrow> {} | Inr rs \<Rightarrow> \<Union>r \<in> set rs. set (range_lbids r))"

lemma em_lookup_OID_starts:
  "em_good em \<Longrightarrow> em_lookup_OID oid em = Inr rs \<Longrightarrow> r \<in> set rs \<Longrightarrow> 0 \<le> range_start r"
  by (auto simp: em_lookup_OID_def em_good_def em_inv_def em_wf_def range_ok_def split: if_splits)

lemma sn_deleteOID_ok:
  assumes ok: "sn_ok n"
  obtains (none) "\<And>rs. em_lookup_OID oid (sn_em n) = Inr rs \<Longrightarrow> rs = []" "sn_deleteOID oid n = Some (-1, sn_lock_vb n)"
  | (gone) rc em vb where
      "em_deleteOID oid (sn_em n) = Some (rc, em)" "em_good em" "vb_ok vb"
      "vb_rest (oid_blocks oid (sn_em n)) (sn_vss n, sn_vbbm n) vb"
      "sn_deleteOID oid n = Some (sn_em_call (rc, em) (sn_put_vb vb (sn_lock_vb n)))"
proof -
  have ok1: "vb_ok (sn_vss n, sn_vbbm n)" "em_good (sn_em n)" using ok by (simp_all add: sn_ok_def)
  obtain rc em where em: "em_deleteOID oid (sn_em n) = Some (rc, em)" "em_good em" by (rule deleteOID_good [OF ok1(2), of oid])
  show ?thesis
  proof (cases "em_lookup_OID oid (sn_em n)")
    case (Inl err)
    then show ?thesis by (intro none) (simp_all add: sn_deleteOID_def)
  next
    case (Inr rs)
    then have st: "\<forall>r \<in> set rs. 0 \<le> range_start r" using em_lookup_OID_starts [OF ok1(2) Inr] by blast
    obtain vb where vb: "vb_remove_ranges rs (sn_vss n, sn_vbbm n) = Some vb" "vb_ok vb"
        "vb_rest (\<Union>r \<in> set rs. set (range_lbids r)) (sn_vss n, sn_vbbm n) vb"
      using vb_remove_ranges_ok [OF ok1(1) st] by blast
    show ?thesis
    proof (cases rs)
      case Nil
      then show ?thesis using Inr by (intro none) (simp_all add: sn_deleteOID_def)
    next
      case (Cons r0 rs0)
      have "sn_deleteOID oid n = Some (sn_em_call (rc, em) (sn_put_vb vb (sn_lock_vb n)))"
        using Inr Cons vb(1) em(1) by (simp add: sn_deleteOID_def Let_def del: vb_remove_ranges.simps)
      moreover have "vb_rest (oid_blocks oid (sn_em n)) (sn_vss n, sn_vbbm n) vb" using vb(3) Inr by (simp add: oid_blocks_def)
      ultimately show ?thesis using em vb(2) by (intro gone)
    qed
  qed
qed

lemma sn_remove_oids_ok:
  "vb_ok vb \<Longrightarrow> em_good em \<Longrightarrow> \<exists>b vb'. sn_remove_oids oids em vb = Some (b, vb') \<and> vb_ok vb'"
proof (induction oids arbitrary: vb)
  case (Cons oid oids)
  show ?case
  proof (cases "em_lookup_OID oid em")
    case (Inl err)
    then show ?thesis using Cons.prems by auto
  next
    case (Inr rs)
    have "\<forall>r \<in> set rs. 0 \<le> range_start r" using em_lookup_OID_starts [OF Cons.prems(2) Inr] by blast
    then obtain vb1 where "vb_remove_ranges rs vb = Some vb1" "vb_ok vb1" using vb_remove_ranges_ok [OF Cons.prems(1)] by blast
    then show ?thesis using Cons.IH [of vb1] Cons.prems(2) Inr by simp
  qed
qed auto

lemma sn_deleteOIDs_ok:
  assumes ok: "sn_ok n"
  obtains rc n' where "sn_deleteOIDs oids n = Some (rc, n')" "sn_ok n'"
proof -
  have ok1: "vb_ok (sn_vss n, sn_vbbm n)" "em_good (sn_em n)" "cl_inv (sn_copylocks n)" using ok by (simp_all add: sn_ok_def)
  obtain b vb where vb: "sn_remove_oids oids (sn_em n) (sn_vss n, sn_vbbm n) = Some (b, vb)" "vb_ok vb"
    using sn_remove_oids_ok [OF ok1(1,2)] by blast
  obtain em where em: "em_deleteOIDs oids (sn_em n) = Some em" "em_good em" by (rule deleteOIDs_good [OF ok1(2)])
  let ?n = "sn_put_vb vb (sn_lock_vb n)"
  have "sn_deleteOIDs oids n = Some (if b then (0, ?n\<lparr>sn_em := em\<rparr>) else (-1, ?n))"
    using vb(1) em(1) by (simp add: sn_deleteOIDs_def sn_em_done_def)
  then show ?thesis using that ok1 vb(2) em(2) by (cases b) (simp_all add: sn_ok_def)
qed

end
