(* ===== verification/Slave_Steps.thy ===== *)
theory Slave_Steps
  imports Slave_Update
begin

text \<open>
  Ageing of the version buffer on both tables, the passes over the copy locks, and the handlers of a worker
  node as the step relation \<open>sn_step\<close>, each of which keeps the node's invariant. Between the passes
  over the copy locks other processes may run.
\<close>

section \<open>Ageing\<close>

lemma vs_ok_remove_copy:
  assumes ok: "vs_ok (add_mset (l, v, True, lk) R)"
  shows "vs_ok R"
proof (rule vs_okI)
  let ?V = "add_mset (l, v, True, lk) R"
  show "vs_unique R" using vs_ok_unique [OF ok] by (simp add: vs_unique_add)
  show "0 \<le> l' \<and> 0 \<le> v' \<and> (v' = 0 \<longrightarrow> vb \<and> \<not> lk')" if "(l', v', vb, lk') \<in># R" for l' v' vb lk'
    using that vs_ok_nonneg [OF ok, of l' v' vb lk'] by simp
  show "v1 = v2 \<and> lk1 = lk2" if "(l', v1, False, lk1) \<in># R" "(l', v2, False, lk2) \<in># R" for l' v1 lk1 v2 lk2
    using that vs_ok_current [OF ok, of l' v1 lk1 v2 lk2] by simp
  show "\<exists>v2 lk2. (l', v2, False, lk2) \<in># R \<and> v1 < v2" if m: "(l', v1, True, lk1) \<in># R" for l' v1 lk1
  proof -
    have "(l', v1, True, lk1) \<in># ?V" using m by simp
    then obtain v2 lk2 where "(l', v2, False, lk2) \<in># ?V" "v1 < v2" by (rule vs_ok_copy [OF ok])
    then show ?thesis by auto
  qed
qed

lemma vb_age_remove_ok:
  assumes ok: "vb_ok (v, b)" and m: "(l, w, d, f) \<in># vb_abs (vbbm_shm b)"
  shows "\<exists>v' b'. vss_removeEntry_obj l w v = Some v' \<and> vbbm_on (vbbm_removeEntry l w) b = Some b' \<and> vb_ok (v', b')"
proof -
  note D = vb_okD [OF ok]
  let ?V = "vss_abs (vss_shm v)" and ?B = "vb_abs (vbbm_shm b)"
  obtain lk where lk: "(l, w, True, lk) \<in># ?V" using in_step_mem [OF D(7), of l w] m by blast
  then obtain R where R: "?V = add_mset (l, w, True, lk) R" by (metis mset_add)
  have l: "l \<noteq> -1" using vs_ok_nonneg [OF D(6) lk] by auto
  obtain B' where B': "?B = add_mset (l, w, d, f) B'" using m by (metis mset_add)
  have "count (image_mset vc_key B') (l, w) = 0"
    using vb_ok_unique_copies [OF ok, of "(l, w)"] unfolding B' by simp
  then have "(l, w) \<notin># image_mset vc_key B'" by (simp only: not_in_iff)
  then have u: "\<forall>x \<in># B'. vc_key x \<noteq> (l, w)" by force
  obtain b' where b': "vbbm_on (vbbm_removeEntry l w) b = Some b'" "vbbm_obj_wf b'" "vb_abs (vbbm_shm b') = B'"
    by (rule vbbm_remove_ok [OF D(4) l B' u])
  obtain v' where v': "vss_removeEntry_obj l w v = Some v'" "vss_obj_wf v'" "vss_locks (vss_shm v')"
      "vss_abs (vss_shm v') = (if vss_needed l R then R else vss_without l R)"
    by (rule vss_removeEntry_obj_ok [OF D(1,3) l R vs_ok_unique [OF D(6)]])
  have "vs_ok R" by (rule vs_ok_remove_copy [OF D(6) [unfolded R]])
  then have "vs_ok (vss_abs (vss_shm v'))" using v'(4) vs_without_ok by simp
  moreover have "in_step R B'" using D(7) unfolding R B' by (simp add: in_step_def)
  then have "in_step (vss_abs (vss_shm v')) B'" using v'(4) by (simp add: in_step_def filter_without_unneeded)
  ultimately show ?thesis using v'(1-3) b' by (simp add: vb_ok_def)
qed

lemma vbbm_removeEntry_capacity: "vbbm_removeEntry l v g = Some (g', imgs) \<Longrightarrow> vb_capacity g' = vb_capacity g"
  by (auto simp: vbbm_removeEntry_def Let_def Option.bind_eq_Some_conv split: if_splits prod.splits)

definition age_ok :: "vb_age_state \<Rightarrow> bool" where
  "age_ok st \<longleftrightarrow> vb_ok (fst (snd st), fst st)"

lemma vbbm_age_entry_ok:
  assumes ok: "age_ok st" and e: "vbbm_age_entry repSize dbr lo hi i st = Some r" and i: "i < length (vb_storage (vbbm_shm (fst st)))"
  shows "case r of Inl st' \<Rightarrow> age_ok st' | Inr st' \<Rightarrow> age_ok st' \<and> length (vb_storage (vbbm_shm (fst st'))) = length (vb_storage (vbbm_shm (fst st)))"
proof -
  obtain b v fl where st: "st = (b, v, fl)" by (cases st)
  let ?e = "vb_storage (vbbm_shm b) ! i"
  show ?thesis
  proof (cases "vb_in_interval repSize dbr lo hi ?e \<and> vss_isEntryLocked (vb_lbid ?e) (vb_verID ?e) (vss_shm v) = Some False")
    case False
    then show ?thesis using e ok by (auto simp: st vbbm_age_entry_def Let_def Option.bind_eq_Some_conv split: if_splits)
  next
    case True
    have ok1: "vb_ok (v, b)" using ok by (simp add: age_ok_def st)
    have "vb_used ?e" using True by (simp add: vb_in_interval_place)
    then have "(vb_lbid ?e, vb_verID ?e, vb_vbOids ?e, vb_vbFbo ?e) \<in># vb_abs (vbbm_shm b)"
      using i by (auto simp: in_vb_abs vb_payload_def st)
    then obtain v' b' where vb: "vss_removeEntry_obj (vb_lbid ?e) (vb_verID ?e) v = Some v'"
        "vbbm_on (vbbm_removeEntry (vb_lbid ?e) (vb_verID ?e)) b = Some b'" "vb_ok (v', b')"
      using vb_age_remove_ok [OF ok1] by blast
    obtain fl' where r: "r = Inr (b', v', fl')"
      using e True vb(1,2) by (auto simp: st vbbm_age_entry_def Let_def vss_removeEntry_obj_def vss_on_def Option.bind_eq_Some_conv)
    have "vb_capacity (vbbm_shm b') = vb_capacity (vbbm_shm b)" using vb(2) by (auto simp: vbbm_on_def Option.bind_eq_Some_conv dest: vbbm_removeEntry_capacity)
    then have "length (vb_storage (vbbm_shm b')) = length (vb_storage (vbbm_shm b))"
      using vb_okD(5) [OF ok1] vb_okD(5) [OF vb(3)] by (simp add: vb_struct_def)
    then show ?thesis using vb(3) by (simp add: r age_ok_def st)
  qed
qed

lemma vbbm_age_entries_ok:
  assumes "age_ok st" "\<forall>i \<in> set is. i < length (vb_storage (vbbm_shm (fst st)))"
    and "vbbm_age_loop (vbbm_age_entry repSize dbr lo hi) is st = Some r"
  shows "case r of Inl st' \<Rightarrow> age_ok st' | Inr st' \<Rightarrow> age_ok st'"
  using assms
proof (induction "is" arbitrary: st)
  case (Cons i "is")
  then obtain q where q: "vbbm_age_entry repSize dbr lo hi i st = Some q"
      "(case q of Inl st' \<Rightarrow> Some (Inl st') | Inr st' \<Rightarrow> vbbm_age_loop (vbbm_age_entry repSize dbr lo hi) is st') = Some r"
    by (auto simp: Option.bind_eq_Some_conv)
  have "i < length (vb_storage (vbbm_shm (fst st)))" using Cons.prems(2) by simp
  note q' = vbbm_age_entry_ok [OF Cons.prems(1) q(1) this]
  show ?case
  proof (cases q)
    case (Inl st1)
    then show ?thesis using q' q(2) by auto
  next
    case (Inr st1)
    then show ?thesis using q' q(2) Cons.prems(2) Cons.IH [of st1] by simp
  qed
qed auto

lemma vbbm_age_range_ok:
  assumes "age_ok st" "vbbm_age_range repSize dbr fileSize r st = Some q"
  shows "case q of Inl st' \<Rightarrow> age_ok st' | Inr st' \<Rightarrow> age_ok st'"
proof (cases "vb_age_interval fileSize r")
  case None
  then show ?thesis using assms by (auto simp: vbbm_age_range_def)
next
  case (Some iv)
  obtain lo hi where "iv = (lo, hi)" by (cases iv)
  then have q: "vbbm_age_loop (vbbm_age_entry repSize dbr lo hi) [0..<nat (vb_capacity (vbbm_shm (fst st)))] st = Some q"
    using assms(2) Some by (simp add: vbbm_age_range_def)
  have "vb_ok (fst (snd st), fst st)" using assms(1) by (simp add: age_ok_def)
  then have "nat (vb_capacity (vbbm_shm (fst st))) = length (vb_storage (vbbm_shm (fst st)))"
    using vb_okD(5) by (simp add: vb_struct_def)
  then show ?thesis using vbbm_age_entries_ok [OF assms(1) _ q] by simp
qed

lemma vbbm_age_ranges_ok:
  "age_ok st \<Longrightarrow> vbbm_age_loop (vbbm_age_range repSize dbr fileSize) rs st = Some q \<Longrightarrow>
    case q of Inl st' \<Rightarrow> age_ok st' | Inr st' \<Rightarrow> age_ok st'"
proof (induction rs arbitrary: st)
  case (Cons r rs)
  then obtain p where p: "vbbm_age_range repSize dbr fileSize r st = Some p"
      "(case p of Inl st' \<Rightarrow> Some (Inl st') | Inr st' \<Rightarrow> vbbm_age_loop (vbbm_age_range repSize dbr fileSize) rs st') = Some q"
    by (auto simp: Option.bind_eq_Some_conv)
  note p' = vbbm_age_range_ok [OF Cons.prems(1) p(1)]
  show ?case
  proof (cases p)
    case (Inl st1)
    then show ?thesis using p' p(2) by auto
  next
    case (Inr st1)
    then show ?thesis using p' p(2) Cons.IH [of st1] by simp
  qed
qed auto

text \<open>Room for the blocks in a table that need not grow.\<close>

definition sn_room :: "DBROOTS_struct \<Rightarrow> nat \<Rightarrow> int \<Rightarrow> SlaveDBRMNode \<Rightarrow> bool" where
  "sn_room vbOID k num n \<longleftrightarrow> vb_has_file (uint (vbOID ! k)) (vbbm_shm (sn_vbbm n)) \<and>
    vb_currentSize (vbbm_shm (sn_vbbm n)) + num \<le> vb_capacity (vbbm_shm (sn_vbbm n))"

lemma vbbm_getBlocks_keeps:
  assumes ok: "vb_ok (v, b)" and vf: "vb_has_file (uint (vbOID ! k)) (vbbm_shm b)"
    and room: "vb_currentSize (vbbm_shm b) + num \<le> vb_capacity (vbbm_shm b)"
    and r: "vbbm_getBlocks cfg repSize num vbOID k b v = Some (r, b', v')"
  shows "vb_ok (v', b')"
proof -
  let ?dbr = "uint (vbOID ! k)" let ?i = "nat (?dbr - 1)"
  let ?f = "vb_files (vbbm_shm b) ! ?i"
  show ?thesis
  proof (cases "u32 num > vf_fileSize ?f")
    case True
    then show ?thesis using r ok vb_has_file_add [OF vf] by (auto simp: vbbm_getBlocks_def Let_def split: if_splits)
  next
    case False
    have e: "vbbm_getBlocks cfg repSize num vbOID k b v = do {
        (f', olds, rs) \<leftarrow> vb_gather num 0 ?f;
        b3 \<leftarrow> vbbm_on (\<lambda>g. Some (g\<lparr>vb_files := (vb_files g)[?i := f']\<rparr>, map (VbFileImage ?i) olds)) b;
        q \<leftarrow> vbbm_age_loop (vbbm_age_range repSize ?dbr (vf_fileSize f')) rs (b3, v, []);
        Some (case q of
            Inl (b4, v4, _) \<Rightarrow> (Inl (VBBMBufferOverFlowExcept ''VBBM::getBlocks(): version buffer overflow''), b4, v4)
          | Inr (b4, v4, flushList) \<Rightarrow> (Inr (rs, flushList), b4, v4)) } \<or>
        vbbm_getBlocks cfg repSize num vbOID k b v = None"
      using False vb_has_file_add [OF vf] vbbm_grow_until_room [OF room] by (simp add: vbbm_getBlocks_def Let_def)
    obtain f' olds rs where g1: "vb_gather num 0 ?f = Some (f', olds, rs)"
      using e r by (cases "vb_gather num 0 ?f") auto
    obtain b3 where g2: "vbbm_on (\<lambda>g. Some (g\<lparr>vb_files := (vb_files g)[?i := f']\<rparr>, map (VbFileImage ?i) olds)) b = Some b3"
      by (simp add: vbbm_on_def)
    obtain q where g3: "vbbm_age_loop (vbbm_age_range repSize ?dbr (vf_fileSize f')) rs (b3, v, []) = Some q"
      using e r g1 g2 by (cases "vbbm_age_loop (vbbm_age_range repSize ?dbr (vf_fileSize f')) rs (b3, v, [])") auto
    have g4: "(b', v') = (case q of Inl (b4, v4, _) \<Rightarrow> (b4, v4) | Inr (b4, v4, _) \<Rightarrow> (b4, v4))"
      using e r g1 g2 g3 by (auto split: sum.splits)
    let ?g = "vbbm_shm b"
    have b3: "vbbm_shm b3 = ?g\<lparr>vb_files := (vb_files ?g)[?i := f']\<rparr>" "vbbm_attached b3 = vbbm_attached b"
      using g2 by (auto simp: vbbm_on_def)
    have "vb_ok (v, b3)" using ok by (simp add: vb_ok_def vbbm_obj_wf_def b3 vb_wf_def vb_struct_def vb_abs_def)
    then have "age_ok (b3, v, [])" by (simp add: age_ok_def)
    then show ?thesis using vbbm_age_ranges_ok [OF _ g3] g4 by (auto simp: age_ok_def split: sum.splits)
  qed
qed

section \<open>Copy locks\<close>

definition range_arg :: "LBIDRange \<Rightarrow> bool" where
  "range_arg r \<longleftrightarrow> 0 < range_size r \<and> range_size r < 2 ^ 31"

lemma cl_lockRange_keeps:
  assumes "cl_inv c" "range_arg r"
  obtains c' where "cl_lockRange r t c = Some (Inr c')" "cl_inv c'"
  using cl_lockRange_ok [OF assms(1), of r t] assms(2) by (auto simp: range_arg_def)

lemma cl_free_keeps:
  assumes "cl_inv c"
  shows "\<exists>c'. cl_releaseRange r c = Some c' \<and> cl_inv c'" "\<exists>c'. cl_forceRelease r c = Some c' \<and> cl_inv c'"
proof -
  have "cl_wf (cl_shm c)" "cl_attached c" using assms by (simp_all add: cl_inv_def)
  moreover obtain c' where "cl_on (\<lambda>g. for_each (cl_free_if (cl_overlaps r)) [0 ..< cl_numEntries g] g) c = Some c'"
      "cl_wf (cl_shm c')" "cl_attached c' = cl_attached c" by (rule cl_on_free [OF calculation(1)])
  ultimately show "\<exists>c'. cl_releaseRange r c = Some c' \<and> cl_inv c'" "\<exists>c'. cl_forceRelease r c = Some c' \<and> cl_inv c'"
    by (simp_all add: cl_releaseRange_def cl_forceRelease_def cl_inv_def)
qed

lemma lock_pass_keeps:
  "cl_inv c \<Longrightarrow> \<forall>x \<in> set xs. range_arg (fst x) \<Longrightarrow> lock_pass t xs c = Some (res, xs', c') \<Longrightarrow> cl_inv c' \<and> map fst xs' = map fst xs"
proof (induction t xs c arbitrary: res xs' c' rule: lock_pass.induct)
  case (3 t r xs c)
  have a: "range_arg r" using 3(4) by simp
  obtain cl1 where cl1: "cl_lockRange r t c = Some (Inr cl1)" "cl_inv cl1" by (rule cl_lockRange_keeps [OF 3(3) a])
  obtain b where b: "cl_isLocked r (cl_shm c) = Some b" using 3(5) by (cases "cl_isLocked r (cl_shm c)") auto
  show ?case
  proof (cases b)
    case True
    then show ?thesis using 3(1) [OF b True 3(3)] 3(4,5) b by auto
  next
    case False
    then show ?thesis using 3(2) [OF b _ cl1(1) refl cl1(2)] 3(4,5) b cl1(1) by auto
  qed
qed auto

lemma lock_force_keeps:
  "cl_inv c \<Longrightarrow> \<forall>x \<in> set xs. range_arg (fst x) \<Longrightarrow> lock_force t xs c = Some (res, xs', c') \<Longrightarrow> cl_inv c'"
proof (induction t xs c arbitrary: res xs' c' rule: lock_force.induct)
  case (3 t r xs c)
  have a: "range_arg r" using 3(3) by simp
  obtain cl0 where cl0: "cl_forceRelease r c = Some cl0" "cl_inv cl0" using cl_free_keeps(2) [OF 3(2), of r] by blast
  obtain cl1 where cl1: "cl_lockRange r t cl0 = Some (Inr cl1)" "cl_inv cl1" by (rule cl_lockRange_keeps [OF cl0(2) a])
  show ?case using 3(1) [OF cl0(1) cl1(1) refl cl1(2)] 3(3,4) cl0(1) cl1(1) by auto
qed auto

lemma cl_release_each_keeps: "cl_inv c \<Longrightarrow> \<exists>c'. cl_release_each rs c = Some c' \<and> cl_inv c'"
proof (induction rs arbitrary: c)
  case (Cons r rs)
  obtain c1 where "cl_releaseRange r c = Some c1" "cl_inv c1" using cl_free_keeps(1) [OF Cons.prems, of r] by blast
  then show ?case using Cons.IH [of c1] by simp
qed simp

text \<open>Whatever holds of the node whatever copy locks are held, and the other processes keep, the retries
  keep.\<close>

lemma lock_retry_keeps:
  assumes locks: "\<And>m c. P m \<Longrightarrow> cl_inv c \<Longrightarrow> P (m\<lparr>sn_copylocks := c\<rparr>)" and cl: "\<And>m. P m \<Longrightarrow> cl_inv (sn_copylocks m)"
    and others: "\<And>k m. P m \<Longrightarrow> P (wait k m)"
  shows "P n \<Longrightarrow> \<forall>x \<in> set xs. range_arg (fst x) \<Longrightarrow> lock_retry wait t k xs n = Some (r, xs', n') \<Longrightarrow>
    P n' \<and> map fst xs' = map fst xs"
proof (induction k arbitrary: xs n)
  case (Suc k)
  then obtain q ys c where p: "lock_pass t xs (sn_copylocks n) = Some (q, ys, c)"
    by (auto simp: Option.bind_eq_Some_conv)
  have c: "cl_inv c" "map fst ys = map fst xs" using lock_pass_keeps [OF cl [OF Suc.prems(1)] Suc.prems(2) p] by auto
  have n: "P (n\<lparr>sn_copylocks := c\<rparr>)" by (rule locks [OF Suc.prems(1) c(1)])
  have ys: "\<forall>x \<in> set ys. range_arg (fst x)"
    using Suc.prems(2) c(2) by (metis (mono_tags, lifting) image_iff list.set_map)
  show ?case
  proof (cases "\<exists>u. q = Inr u \<and> \<not> list_all snd ys")
    case True
    then show ?thesis using Suc.IH [OF others [OF n] ys, of k] Suc.prems(3) p c(2) by (auto simp: Let_def)
  next
    case False
    then show ?thesis using Suc.prems(3) p n c(2) by (auto simp: Let_def split: sum.splits if_splits)
  qed
qed simp

lemma sn_grab_ranges_keeps:
  assumes P: "\<And>m c. P m \<Longrightarrow> cl_inv c \<Longrightarrow> P (m\<lparr>sn_copylocks := c\<rparr>)" "\<And>m. P m \<Longrightarrow> cl_inv (sn_copylocks m)"
    "\<And>k m. P m \<Longrightarrow> P (wait k m)"
    and n: "P n" "\<forall>r \<in> set rs. range_arg r" "sn_grab_ranges wait t rs n = Some (r, xs, n')"
  shows "P n'"
proof -
  let ?xs = "map (\<lambda>x. (x, False)) rs"
  obtain q ys n1 where q: "lock_retry wait t maxRetries ?xs n = Some (q, ys, n1)"
    using n(3) by (auto simp: sn_grab_ranges_def Option.bind_eq_Some_conv)
  have ys: "P n1" "map fst ys = map fst ?xs"
    using lock_retry_keeps [of P wait n ?xs t maxRetries q ys n1, OF P n(1) _ q] n(2) by auto
  have "\<forall>x \<in> set ys. range_arg (fst x)"
    using n(2) ys(2) by (metis (mono_tags, lifting) image_iff list.set_map list.map_comp map_idI comp_apply fst_conv)
  then show ?thesis
    using n(3) q ys(1) P(1) [OF ys(1)] lock_force_keeps [OF P(2) [OF ys(1)], of ys t]
    by (auto simp: sn_grab_ranges_def split: sum.splits)
qed

section \<open>Steps of the node\<close>

lemma sn_ok_locks: "sn_ok n \<Longrightarrow> cl_inv c \<Longrightarrow> sn_ok (n\<lparr>sn_copylocks := c\<rparr>)"
  by (simp add: sn_ok_def)

lemma sn_ok_flags [simp]: "sn_ok (sn_lock_vb n) = sn_ok n" "sn_ok (sn_lock_cl n) = sn_ok n"
  by (simp_all add: sn_ok_def)

lemma sn_release_locked_ok: "sn_ok n \<Longrightarrow> sn_release_locked xs n = Some n' \<Longrightarrow> sn_ok n'"
  using cl_release_each_keeps [of "sn_copylocks n" "map fst (filter snd xs)"]
  by (auto simp: sn_release_locked_def sn_ok_def)

lemma sn_get_blocks_ok:
  assumes ok: "sn_ok n" "sn_room vbOID k num n" and r: "sn_get_blocks cfg repSize num vbOID k xs n = Some (rc, rs, fl, n')"
  shows "sn_ok n'"
proof -
  obtain q b v where q: "vbbm_getBlocks cfg repSize num vbOID k (sn_vbbm n) (sn_vss n) = Some (q, b, v)"
    using r by (auto simp: sn_get_blocks_def Option.bind_eq_Some_conv)
  have "vb_ok (v, b)"
    using ok vbbm_getBlocks_keeps [of "sn_vss n" "sn_vbbm n" vbOID k num, OF _ _ _ q] by (simp add: sn_ok_def sn_room_def)
  then have "sn_ok (n\<lparr>sn_vbbm := b, sn_vss := v\<rparr>)" using ok(1) by (simp add: sn_ok_def)
  from sn_release_locked_ok [OF this, of xs] this show ?thesis
    using r q by (auto simp: sn_get_blocks_def Let_def split: sum.splits)
qed

text \<open>What the other processes may do while a handler waits for a copy lock.\<close>

definition others_keep :: "(SlaveDBRMNode \<Rightarrow> bool) \<Rightarrow> (nat \<Rightarrow> SlaveDBRMNode \<Rightarrow> SlaveDBRMNode) \<Rightarrow> bool" where
  "others_keep P wait \<longleftrightarrow> (\<forall>k n. P n \<longrightarrow> P (wait k n))"

lemma sn_beginVBCopy_ok:
  assumes ok: "sn_ok n" "sn_room vbOID k num n" and num: "num = s32 (sum_list (map range_size ranges))"
    and args: "\<forall>r \<in> set ranges. range_arg r" "others_keep (\<lambda>m. sn_ok m \<and> sn_room vbOID k num m) wait"
    and r: "sn_beginVBCopy wait cfg repSize t vbOID k ranges n = Some (rc, rs, fl, n')"
  shows "sn_ok n'"
proof (cases "k = 0")
  case False
  then show ?thesis using r sn_get_blocks_ok [OF ok] num by (simp add: sn_beginVBCopy_def)
next
  case True
  let ?P = "\<lambda>m. sn_ok m \<and> sn_room vbOID k num m"
  let ?n = "sn_lock_cl (sn_lock_vb n)"
  obtain b where b: "vss_any_locked ranges t (vss_shm (sn_vss n)) = Some b"
    using r True by (auto simp: sn_beginVBCopy_def Let_def Option.bind_eq_Some_conv)
  show ?thesis
  proof (cases b)
    case True
    then show ?thesis using r b \<open>k = 0\<close> ok(1) by (auto simp: sn_beginVBCopy_def Let_def)
  next
    case False
    then obtain q xs n2 where q: "sn_grab_ranges wait t ranges ?n = Some (q, xs, n2)"
        "(case q of Inl _ \<Rightarrow> map_option (\<lambda>n3. (-1, [], [], n3)) (sn_release_locked xs n2)
            | Inr _ \<Rightarrow> sn_get_blocks cfg repSize num vbOID k xs n2) = Some (rc, rs, fl, n')"
      using r b \<open>k = 0\<close> num by (auto simp: sn_beginVBCopy_def Let_def Option.bind_eq_Some_conv)
    have "?P ?n" using ok by (simp add: sn_room_def)
    have "?P n2"
    proof (rule sn_grab_ranges_keeps [where P = ?P, OF _ _ _ \<open>?P ?n\<close> args(1) q(1)])
      show "?P (wait j m)" if "?P m" for j m using args(2) that unfolding others_keep_def by blast
    qed (simp_all add: sn_ok_def sn_room_def)
    then have n2: "sn_ok n2" "sn_room vbOID k num n2" by simp_all
    show ?thesis
    proof (cases q)
      case (Inl err)
      then show ?thesis using q(2) sn_release_locked_ok [OF n2(1)] by auto
    next
      case (Inr u)
      then show ?thesis using q(2) sn_get_blocks_ok [OF n2] by simp
    qed
  qed
qed

lemma sn_dmlLock_ok:
  assumes ok: "sn_ok n" and args: "\<forall>r \<in> set ranges. range_arg r" "others_keep sn_ok wait"
    and r: "sn_dmlLockLBIDRanges wait ranges t n = Some (rc, n')"
  shows "sn_ok n'"
proof -
  obtain q xs n1 where q: "sn_grab_ranges wait t ranges (sn_lock_cl n) = Some (q, xs, n1)"
      "(case q of Inl _ \<Rightarrow> map_option (Pair (-1)) (sn_release_locked xs n1) | Inr _ \<Rightarrow> Some (0, n1)) = Some (rc, n')"
    using r by (auto simp: sn_dmlLockLBIDRanges_def Option.bind_eq_Some_conv)
  have n: "sn_ok (sn_lock_cl n)" using ok by simp
  have "sn_ok n1"
  proof (rule sn_grab_ranges_keeps [where P = sn_ok, OF _ _ _ n args(1) q(1)])
    show "sn_ok (wait j m)" if "sn_ok m" for j m using args(2) that unfolding others_keep_def by blast
  qed (simp_all add: sn_ok_def)
  then show ?thesis using q(2) sn_release_locked_ok [of n1 xs] by (auto split: sum.splits)
qed

inductive sn_step :: "SlaveDBRMNode \<Rightarrow> SlaveDBRMNode \<Rightarrow> bool" where
  begin_copy: "sn_room vbOID k (s32 (sum_list (map range_size ranges))) n \<Longrightarrow> \<forall>r \<in> set ranges. range_arg r \<Longrightarrow>
    others_keep (\<lambda>m. sn_ok m \<and> sn_room vbOID k (s32 (sum_list (map range_size ranges))) m) wait \<Longrightarrow>
    sn_beginVBCopy wait cfg repSize t vbOID k ranges n = Some (rc, rs, fl, n') \<Longrightarrow> sn_step n n'"
| write_entry: "0 \<le> l \<Longrightarrow> k < MAX_DATA_REPLICATESIZE \<Longrightarrow> sn_writeVBEntry t l k vbOID vbFBO n = Some (rc, n') \<Longrightarrow> sn_step n n'"
| end_copy: "sn_endVBCopy ranges n = Some (rc, n') \<Longrightarrow> sn_step n n'"
| commit: "\<forall>x \<in># sn_versions n. vv_ver x = t \<longrightarrow> vv_locked x \<Longrightarrow> sn_vbCommit t n = Some (rc, n') \<Longrightarrow> sn_step n n'"
| rollback: "distinct ls \<Longrightarrow> \<forall>l \<in> set ls. \<exists>lk. (l, t, False, lk) \<in># sn_versions n \<Longrightarrow>
    sn_vbRollback t ls n = Some (rc, n') \<Longrightarrow> sn_step n n'"
| delete_oid: "sn_deleteOID oid n = Some (rc, n') \<Longrightarrow> sn_step n n'"
| delete_oids: "sn_deleteOIDs oids n = Some (rc, n') \<Longrightarrow> sn_step n n'"
| dml_lock: "\<forall>r \<in> set ranges. range_arg r \<Longrightarrow> others_keep sn_ok wait \<Longrightarrow>
    sn_dmlLockLBIDRanges wait ranges t n = Some (rc, n') \<Longrightarrow> sn_step n n'"
| dml_release: "sn_dmlReleaseLBIDRanges ranges n = Some (rc, n') \<Longrightarrow> sn_step n n'"
| extents: "em_step (sn_em n) em \<Longrightarrow> sn_step n (n\<lparr>sn_em := em\<rparr>)"
| confirm: "sn_step n (sn_confirmChanges n)"

lemma em_good_confirm: "em_good em \<Longrightarrow> em_good (em_confirmChanges em)"
  by (simp add: em_confirmChanges_def confirmChanges_def em_set_undo_def em_good_def em_inv_def em_wf_def em_counted_def
      em_space_def em_small_def)

lemma sn_confirmChanges_ok: "sn_ok n \<Longrightarrow> sn_ok (sn_confirmChanges n)"
  by (simp add: sn_ok_def sn_confirmChanges_def vb_ok_def em_good_confirm vss_obj_wf_def vbbm_obj_wf_def cl_inv_def
      vss_confirmChanges_def vbbm_confirmChanges_def cl_confirmChanges_def confirmChanges_def
      vss_set_undo_def vb_set_undo_def cl_set_undo_def)

lemma sn_step_ok: "sn_step n n' \<Longrightarrow> sn_ok n \<Longrightarrow> sn_ok n'"
proof (induction rule: sn_step.induct)
  case (begin_copy vbOID k ranges n wait cfg repSize t rc rs fl n')
  then show ?case using sn_beginVBCopy_ok [OF _ begin_copy(1) refl begin_copy(2,3,4)] by blast
next
  case (write_entry l k t vbOID vbFBO n rc n')
  then show ?case using sn_writeVBEntry_ok [OF _ write_entry(1,2,3)] by blast
next
  case (end_copy ranges n rc n')
  then show ?case using cl_release_each_keeps [of "sn_copylocks n" ranges] by (auto simp: sn_endVBCopy_def sn_ok_def)
next
  case (commit n t rc n')
  obtain n1 where "sn_vbCommit t n = Some (0, n1)" "sn_ok n1" by (rule sn_vbCommit_ok [OF commit(3,1)])
  then show ?case using commit(2) by simp
next
  case (rollback ls t n rc n')
  obtain n1 where "sn_vbRollback t ls n = Some (0, n1)" "sn_ok n1" by (rule sn_vbRollback_ok [OF rollback(4,1,2)])
  then show ?case using rollback(3) by simp
next
  case (delete_oid oid n rc n')
  then show ?case by (cases rule: sn_deleteOID_ok [OF delete_oid(2), of oid]) (auto simp: sn_em_call_def sn_ok_def)
next
  case (delete_oids oids n rc n')
  obtain rc1 n1 where "sn_deleteOIDs oids n = Some (rc1, n1)" "sn_ok n1" by (rule sn_deleteOIDs_ok [OF delete_oids(2)])
  then show ?case using delete_oids(1) by simp
next
  case (dml_lock ranges wait t n rc n')
  then show ?case using sn_dmlLock_ok [OF _ dml_lock(1,2,3)] by blast
next
  case (dml_release ranges n rc n')
  then show ?case using cl_release_each_keeps [of "sn_copylocks n" ranges] by (auto simp: sn_dmlReleaseLBIDRanges_def sn_ok_def)
next
  case (extents n em)
  then show ?case using em_step_good by (simp add: sn_ok_def)
next
  case (confirm n)
  then show ?case by (rule sn_confirmChanges_ok)
qed

lemma sn_steps_ok: "sn_step\<^sup>*\<^sup>* n n' \<Longrightarrow> sn_ok n \<Longrightarrow> sn_ok n'"
  by (induction rule: rtranclp_induct) (auto dest: sn_step_ok)

end
