(* ===== verification/Slave_Undo.thy ===== *)
theory Slave_Undo
  imports Slave_Steps
begin

text \<open>
  Undoing what a message did to a worker node. A handler is journalled when each of the four tables it
  changed has the undo records of the change and the flag of a table is up when the table changed, so that
  \<^verbatim>\<open>undoChanges\<close> of the node reaches it.
\<close>

abbreviation vss_journalled :: "VSS \<Rightarrow> VSS \<Rightarrow> bool" where
  "vss_journalled \<equiv> journalled vss_restore vss_undoRecords vss_set_undo"

abbreviation vbbm_journalled :: "VBBM \<Rightarrow> VBBM \<Rightarrow> bool" where
  "vbbm_journalled \<equiv> journalled vb_restore vbbm_undoRecords vb_set_undo"

abbreviation cl_journalled :: "CopyLocks \<Rightarrow> CopyLocks \<Rightarrow> bool" where
  "cl_journalled \<equiv> journalled cl_restore cl_undoRecords cl_set_undo"

definition sn_journalled :: "SlaveDBRMNode \<Rightarrow> SlaveDBRMNode \<Rightarrow> bool" where
  "sn_journalled n n' \<longleftrightarrow> em_journalled (sn_em n) (sn_em n') \<and> vbbm_journalled (sn_vbbm n) (sn_vbbm n') \<and>
    vss_journalled (sn_vss n) (sn_vss n') \<and> cl_journalled (sn_copylocks n) (sn_copylocks n') \<and>
    (sn_locked0 n \<longrightarrow> sn_locked0 n') \<and> (sn_locked1 n \<longrightarrow> sn_locked1 n') \<and> (sn_locked2 n \<longrightarrow> sn_locked2 n') \<and>
    (sn_locked0 n' \<or> sn_vbbm n' = sn_vbbm n) \<and> (sn_locked1 n' \<or> sn_vss n' = sn_vss n) \<and>
    (sn_locked2 n' \<or> sn_copylocks n' = sn_copylocks n)"

definition sn_confirmed :: "SlaveDBRMNode \<Rightarrow> bool" where
  "sn_confirmed n \<longleftrightarrow> em_undoRecords (sn_em n) = [] \<and> vbbm_undoRecords (sn_vbbm n) = [] \<and>
    vss_undoRecords (sn_vss n) = [] \<and> cl_undoRecords (sn_copylocks n) = [] \<and>
    \<not> sn_locked0 n \<and> \<not> sn_locked1 n \<and> \<not> sn_locked2 n"

lemmas journalled_refls = em_log.journalled_refl vbbm_log.journalled_refl vss_log.journalled_refl cl_log.journalled_refl

lemma sn_journalled_refl: "sn_journalled n n"
  by (simp add: sn_journalled_def journalled_refls)

lemma sn_journalled_trans: "sn_journalled n n1 \<Longrightarrow> sn_journalled n1 n2 \<Longrightarrow> sn_journalled n n2"
  unfolding sn_journalled_def
  using em_log.journalled_trans [of "sn_em n" "sn_em n1" "sn_em n2"]
    vbbm_log.journalled_trans [of "sn_vbbm n" "sn_vbbm n1" "sn_vbbm n2"]
    vss_log.journalled_trans [of "sn_vss n" "sn_vss n1" "sn_vss n2"]
    cl_log.journalled_trans [of "sn_copylocks n" "sn_copylocks n1" "sn_copylocks n2"]
  by auto

lemma sn_undo_journalled:
  assumes n: "sn_confirmed n" and j: "sn_journalled n n'"
  shows "sn_undoChanges n' = Some n"
proof -
  have u: "em_undoChanges (sn_em n') = Some (sn_em n)" "vbbm_undoChanges (sn_vbbm n') = Some (sn_vbbm n)"
      "vss_undoChanges (sn_vss n') = Some (sn_vss n)" "cl_undoChanges (sn_copylocks n') = Some (sn_copylocks n)"
    using n j unfolding sn_confirmed_def sn_journalled_def
    by (simp_all add: em_undoChanges_def vbbm_undoChanges_def vss_undoChanges_def cl_undoChanges_def
        em_log.undo_to_confirmed vbbm_log.undo_to_confirmed vss_log.undo_to_confirmed cl_log.undo_to_confirmed)
  have "(if sn_locked0 n' then vbbm_undoChanges (sn_vbbm n') else Some (sn_vbbm n')) = Some (sn_vbbm n)"
    "(if sn_locked1 n' then vss_undoChanges (sn_vss n') else Some (sn_vss n')) = Some (sn_vss n)"
    "(if sn_locked2 n' then cl_undoChanges (sn_copylocks n') else Some (sn_copylocks n')) = Some (sn_copylocks n)"
    using u j by (auto simp: sn_journalled_def)
  then show ?thesis using u(1) n by (simp add: sn_undoChanges_def sn_confirmed_def)
qed

section \<open>Rolling back and releasing\<close>

lemma vbbm_remove_journalled: "vbbm_on (vbbm_removeEntry l v) b = Some b' \<Longrightarrow> vbbm_journalled b b'"
  by (erule vbbm_on_journalled) (rule vbbm_removeEntry_undo)

lemma vb_rollback_block_journalled:
  assumes "vb_rollback_block t l (v, b) = Some (r, v', b')"
  shows "vss_journalled v v' \<and> vbbm_journalled b b'"
proof -
  obtain ov where ov: "vss_getHighestVerInVB l t (vss_shm v) = Some ov"
    using assms by (auto simp: vb_rollback_block_def Option.bind_eq_Some_conv)
  have rm: "vss_journalled w w'" if "vss_removeEntry_obj l t w = Some w'" for w w'
    by (rule vss_step_journalled [OF vss_step.remove [OF that]])
  show ?thesis
  proof (cases "ov = -1")
    case True
    then obtain v2 where "vss_removeEntry_obj l t v = Some v2" "v' = v2" "b' = b"
      using assms ov by (auto simp: vb_rollback_block_def)
    then show ?thesis using rm [of v v2] by (simp add: journalled_refls)
  next
    case False
    then obtain b1 q where q: "vbbm_on (vbbm_removeEntry l ov) b = Some b1" "vss_setVBFlag_obj l ov False v = Some q"
      using assms ov by (auto simp: vb_rollback_block_def Option.bind_eq_Some_conv)
    have b1: "vbbm_journalled b b1" by (rule vbbm_remove_journalled [OF q(1)])
    show ?thesis
    proof (cases q)
      case (Inl err)
      then show ?thesis using assms ov False q b1 by (simp add: vb_rollback_block_def journalled_refls)
    next
      case (Inr v1)
      have v1: "vss_journalled v v1" using q(2) Inr by (intro vss_step_journalled vss_step.setVBFlag) simp
      obtain v2 where "vss_removeEntry_obj l t v1 = Some v2" "v' = v2" "b' = b1"
        using assms ov False q Inr by (auto simp: vb_rollback_block_def)
      then show ?thesis using b1 vss_log.journalled_trans [OF v1 rm [of v1 v2]] by simp
    qed
  qed
qed

lemma vb_rollback_blocks_journalled:
  "vb_rollback_blocks t ls (v, b) = Some (r, v', b') \<Longrightarrow> vss_journalled v v' \<and> vbbm_journalled b b'"
proof (induction ls arbitrary: v b)
  case (Cons l ls)
  then obtain q v1 b1 where q: "vb_rollback_block t l (v, b) = Some (q, v1, b1)"
    by (auto simp: Option.bind_eq_Some_conv)
  note j = vb_rollback_block_journalled [OF q]
  show ?case
  proof (cases q)
    case (Inl err)
    then show ?thesis using Cons.prems q j by simp
  next
    case (Inr u)
    then have "vss_journalled v1 v' \<and> vbbm_journalled b1 b'" using Cons.prems q by (intro Cons.IH) simp
    then show ?thesis using j vss_log.journalled_trans [of v v1 v'] vbbm_log.journalled_trans [of b b1 b'] by blast
  qed
qed (simp add: journalled_refls)

lemma cl_release_each_journalled: "cl_release_each rs c = Some c' \<Longrightarrow> cl_journalled c c'"
proof (induction rs arbitrary: c)
  case (Cons r rs)
  then obtain c1 where c1: "cl_releaseRange r c = Some c1" "cl_release_each rs c1 = Some c'"
    by (auto simp: Option.bind_eq_Some_conv)
  then show ?case
    using cl_log.journalled_trans [OF cl_step_journalled [OF cl_step.release_range [OF c1(1)]] Cons.IH [OF c1(2)]] by simp
qed (simp add: journalled_refls)

section \<open>A new version\<close>

lemma vss_setVBFlag_header: "vss_setVBFlag_obj l v vb s = Some (Inr s') \<Longrightarrow> vss_header (vss_shm s') = vss_header (vss_shm s)"
  by (auto simp: vss_setVBFlag_obj_def vss_setVBFlag_def vss_on_def Let_def Option.bind_eq_Some_conv split: if_splits sum.splits)

lemma vss_insert_room:
  assumes s: "vss_obj_wf s" "vss_currentSize (vss_shm s) < vss_capacity (vss_shm s)" "l \<noteq> -1"
    and i: "vss_insert l v vb lk False s = Some s'"
  shows "vss_journalled s s'" "vss_currentSize (vss_shm s') = vss_currentSize (vss_shm s) + 1"
    "vss_capacity (vss_shm s') = vss_capacity (vss_shm s)"
proof -
  show "vss_journalled s s'" using s(2) by (intro vss_step_journalled vss_step.insert [OF _ i]) simp
  let ?e = "\<lparr>vss_lbid = l, vss_verID = v, vss_vbFlag = vb, vss_locked = lk, vss_next = -1\<rparr>"
  have "vss_wf (vss_shm s)" "vss_used ?e" using s by (simp_all add: vss_obj_wf_def vss_used_def)
  then obtain g imgs where "vss_insert_seg ?e False (vss_shm s) = Some (g, imgs)"
      "vss_capacity g = vss_capacity (vss_shm s)" "vss_currentSize g = vss_currentSize (vss_shm s) + 1"
    using vss_insert_seg_correct [OF _ s(2), of ?e False] by blast
  then show "vss_currentSize (vss_shm s') = vss_currentSize (vss_shm s) + 1" "vss_capacity (vss_shm s') = vss_capacity (vss_shm s)"
    using i s(2) by (auto simp: vss_insert_def vss_on_def)
qed

lemma vbbm_insert_room_journalled:
  "vb_currentSize (vbbm_shm b) < vb_capacity (vbbm_shm b) \<Longrightarrow> vbbm_insert l v d f False b = Some b' \<Longrightarrow> vbbm_journalled b b'"
  by (auto simp: vbbm_insert_def Let_def intro!: vbbm_on_journalled vbbm_insert_seg_undo)

definition sn_table_room :: "SlaveDBRMNode \<Rightarrow> bool" where
  "sn_table_room n \<longleftrightarrow> vss_currentSize (vss_shm (sn_vss n)) + 2 \<le> vss_capacity (vss_shm (sn_vss n)) \<and>
    vb_currentSize (vbbm_shm (sn_vbbm n)) < vb_capacity (vbbm_shm (sn_vbbm n))"

lemma vss_setVBFlag_obj_keeps:
  assumes s: "vss_obj_wf s" "l \<noteq> -1" and r: "vss_setVBFlag_obj l v vb s = Some (Inr s')"
  shows "vss_journalled s s'" "vss_obj_wf s'" "vss_header (vss_shm s') = vss_header (vss_shm s)"
proof -
  show "vss_journalled s s'" by (rule vss_step_journalled [OF vss_step.setVBFlag [OF r]])
  show "vss_header (vss_shm s') = vss_header (vss_shm s)" by (rule vss_setVBFlag_header [OF r])
  have wf: "vss_wf (vss_shm s)" using s by (simp add: vss_obj_wf_def)
  show "vss_obj_wf s'"
    using vss_setVBFlag_correct [OF wf s(2), of v vb] r s(1)
    by (auto simp: vss_setVBFlag_obj_def vss_on_def vss_obj_wf_def)
qed

text \<open>The old version into the version buffer, the first of the two changes of the VSS.\<close>

definition vss_retire :: "LBID_t \<Rightarrow> VER_t \<Rightarrow> VSS \<Rightarrow> VSS res option" where
  "vss_retire l v s = (if v > 0 then vss_setVBFlag_obj l v True s else map_option Inr (vss_insert l v True False False s))"

lemma vss_retire_keeps:
  assumes s: "vss_obj_wf s" "l \<noteq> -1" "vss_currentSize (vss_shm s) + 2 \<le> vss_capacity (vss_shm s)"
    and r: "vss_retire l v s = Some (Inr s')"
  shows "vss_journalled s s' \<and> vss_obj_wf s' \<and> vss_currentSize (vss_shm s') < vss_capacity (vss_shm s')"
proof (cases "0 < v")
  case True
  then have "vss_setVBFlag_obj l v True s = Some (Inr s')" using r by (simp add: vss_retire_def)
  from vss_setVBFlag_obj_keeps [OF s(1,2) this] s(3) show ?thesis by simp
next
  case False
  then have i: "vss_insert l v True False False s = Some s'" using r by (simp add: vss_retire_def)
  have lt: "vss_currentSize (vss_shm s) < vss_capacity (vss_shm s)" using s(3) by simp
  obtain s1 where "vss_insert l v True False False s = Some s1" "vss_obj_wf s1"
    using vss_insert_correct [OF s(1,2), of v True False False] by blast
  then show ?thesis using vss_insert_room [OF s(1) lt s(2) i] i s(3) by simp
qed

lemma sn_new_version_journalled:
  assumes n: "vss_obj_wf (sn_vss n)" "sn_table_room n" "sn_locked0 n" "sn_locked1 n" "l \<noteq> -1"
    and r: "sn_new_version l v t k vbOID vbFBO n = Some (rc, n')"
  shows "sn_journalled n n'"
proof -
  let ?d = "dbr_zero[k := word_of_int vbOID]" and ?f = "fbo_zero[k := word_of_int vbFBO]"
  have k: "k < MAX_DATA_REPLICATESIZE" using r by (cases "k < MAX_DATA_REPLICATESIZE") (simp_all add: sn_new_version_def)
  obtain b where b: "vbbm_insert l v ?d ?f False (sn_vbbm n) = Some b"
    using r k by (cases "vbbm_insert l v ?d ?f False (sn_vbbm n)") (simp_all add: sn_new_version_def)
  have e: "sn_new_version l v t k vbOID vbFBO n = Option.bind (vss_retire l v (sn_vss n)) (\<lambda>q. case q of
      Inl _ \<Rightarrow> Some (-1, n\<lparr>sn_vbbm := b\<rparr>)
    | Inr v1 \<Rightarrow> map_option (\<lambda>v2. (0, n\<lparr>sn_vbbm := b, sn_vss := v2\<rparr>)) (vss_insert l t False True False v1))"
    using k b by (simp add: sn_new_version_def vss_retire_def Let_def)
  obtain q where q: "vss_retire l v (sn_vss n) = Some q" using r e by (cases "vss_retire l v (sn_vss n)") simp_all
  have jb: "vbbm_journalled (sn_vbbm n) b"
    using n(2) b by (intro vbbm_insert_room_journalled) (simp_all add: sn_table_room_def)
  show ?thesis
  proof (cases q)
    case (Inl err)
    then have "n' = n\<lparr>sn_vbbm := b\<rparr>" using r e q by simp
    then show ?thesis using jb n(3) by (simp add: sn_journalled_def journalled_refls)
  next
    case (Inr v1)
    have j1: "vss_journalled (sn_vss n) v1 \<and> vss_obj_wf v1 \<and> vss_currentSize (vss_shm v1) < vss_capacity (vss_shm v1)"
      using n(2) q Inr by (intro vss_retire_keeps [OF n(1,5)]) (simp_all add: sn_table_room_def)
    obtain v2 where v2: "vss_insert l t False True False v1 = Some v2" "n' = n\<lparr>sn_vbbm := b, sn_vss := v2\<rparr>"
      using r e q Inr by auto
    have "vss_journalled v1 v2" using vss_insert_room(1) [OF _ _ n(5) v2(1)] j1 by simp
    then show ?thesis using j1 jb n(3,4) vss_log.journalled_trans [of "sn_vss n" v1 v2] v2(2)
      by (simp add: sn_journalled_def journalled_refls)
  qed
qed

section \<open>Messages that can be undone\<close>

inductive sn_undoable :: "SlaveDBRMNode \<Rightarrow> SlaveDBRMNode \<Rightarrow> bool" where
  write_new: "sn_ok n \<Longrightarrow> sn_table_room n \<Longrightarrow> 0 \<le> l \<Longrightarrow> vss_getCurrentVersion l (vss_shm (sn_vss n)) = Some (v, lk) \<Longrightarrow> v \<noteq> t \<Longrightarrow>
    sn_writeVBEntry t l k vbOID vbFBO n = Some (rc, n') \<Longrightarrow> sn_undoable n n'"
| roll_back: "sn_vbRollback t ls n = Some (rc, n') \<Longrightarrow> sn_undoable n n'"
| end_copy: "sn_endVBCopy ranges n = Some (rc, n') \<Longrightarrow> sn_undoable n n'"
| dml_release: "sn_dmlReleaseLBIDRanges ranges n = Some (rc, n') \<Longrightarrow> sn_undoable n n'"
| edit_extents: "em_edit (sn_em n) em \<Longrightarrow> sn_undoable n (n\<lparr>sn_em := em\<rparr>)"
| create_extent: "em_good (sn_em n) \<Longrightarrow> \<not> em_full (sn_em n) \<Longrightarrow> em_create (sn_em n) em \<Longrightarrow> sn_undoable n (n\<lparr>sn_em := em\<rparr>)"

lemma sn_lock_flags [simp]:
  "sn_locked0 (sn_lock_vb n)" "sn_locked1 (sn_lock_vb n)" "sn_locked2 (sn_lock_vb n) = sn_locked2 n"
  "sn_locked0 (sn_lock_cl n) = sn_locked0 n" "sn_locked1 (sn_lock_cl n) = sn_locked1 n" "sn_locked2 (sn_lock_cl n)"
  by (simp_all add: sn_lock_vb_def sn_lock_cl_def)

lemma sn_undoable_journalled: "sn_undoable n n' \<Longrightarrow> sn_journalled n n'"
proof (induction rule: sn_undoable.induct)
  case (write_new n l v lk t k vbOID vbFBO rc n')
  have j: "sn_journalled n (sn_lock_vb n)" by (simp add: sn_journalled_def journalled_refls)
  show ?case
  proof (cases "t < v")
    case True
    then show ?thesis using write_new(4,6) j by (simp add: sn_writeVBEntry_def)
  next
    case False
    then have "sn_new_version l v t k vbOID vbFBO (sn_lock_vb n) = Some (rc, n')"
      using write_new(4,5,6) by (simp add: sn_writeVBEntry_def)
    moreover have "vss_obj_wf (sn_vss n)" using write_new(1) by (simp add: sn_ok_def vb_ok_def)
    ultimately have "sn_journalled (sn_lock_vb n) n'"
      using write_new(2,3) by (intro sn_new_version_journalled) (simp_all add: sn_table_room_def)
    then show ?thesis by (rule sn_journalled_trans [OF j])
  qed
next
  case (roll_back t ls n rc n')
  then obtain c r v b where c: "cl_rollback t (sn_copylocks n) = Some c"
      "vb_rollback_blocks t ls (sn_vss n, sn_vbbm n) = Some (r, v, b)"
      "n' = sn_put_vb (v, b) (sn_lock_cl (sn_lock_vb n)\<lparr>sn_copylocks := c\<rparr>)"
    by (auto simp: sn_vbRollback_def Let_def Option.bind_eq_Some_conv)
  have "cl_journalled (sn_copylocks n) c" by (rule cl_step_journalled [OF cl_step.roll_back [OF c(1)]])
  then show ?case using vb_rollback_blocks_journalled [OF c(2)]
    by (simp add: c(3) sn_journalled_def journalled_refls sn_put_vb_def)
next
  case (end_copy ranges n rc n')
  then show ?case by (auto simp: sn_endVBCopy_def sn_journalled_def journalled_refls intro: cl_release_each_journalled)
next
  case (dml_release ranges n rc n')
  then show ?case by (auto simp: sn_dmlReleaseLBIDRanges_def sn_journalled_def journalled_refls intro: cl_release_each_journalled)
next
  case (edit_extents n em)
  then show ?case by (simp add: sn_journalled_def journalled_refls em_edit_journalled)
next
  case (create_extent n em)
  then show ?case by (simp add: sn_journalled_def journalled_refls em_create_good)
qed

lemma sn_undoables_journalled: "sn_undoable\<^sup>*\<^sup>* n n' \<Longrightarrow> sn_journalled n n'"
  by (induction rule: rtranclp_induct) (blast intro: sn_journalled_refl sn_journalled_trans sn_undoable_journalled)+

end
