(* ===== verification/Extent_Undo.thy ===== *)
theory Extent_Undo
  imports Extent_Delete
begin

text \<open>
  What undoing a deletion restores. \<^verbatim>\<open>deleteExtent\<close> journals the entries it writes, but for
  the counters it passes the address of the pointer \<^verbatim>\<open>fEMShminfo\<close> (or
  \<^verbatim>\<open>fFLShminfo\<close>) to \<^verbatim>\<open>makeUndoRecord\<close> instead of the descriptor it
  points to. The relation \<open>tables_logged\<close> says that undoing leads back to the same tables with
  the counter of the extent map as the operation left it; it is closed under composition and holds of
  every sweep that does not grow the free list.
\<close>

definition with_counts :: "int \<Rightarrow> int \<Rightarrow> ExtentMap \<Rightarrow> ExtentMap" where
  "with_counts a b s = s\<lparr>em_currentSize := a, fl_currentSize := b\<rparr>"

definition tables_logged :: "ExtentMap \<Rightarrow> ExtentMap \<Rightarrow> bool" where
  "tables_logged s s' \<longleftrightarrow> (\<exists>rs b. em_undoRecords s' = em_undoRecords s @ rs \<and> (\<forall>r \<in> set rs. \<forall>n. snd r \<noteq> EmSizeImage n) \<and>
    undo_all em_restore rs (em_set_undo [] s') = Some (with_counts (em_currentSize s') b (em_set_undo [] s)))"

lemma restore_with_counts:
  assumes "em_restore r s = Some t" "\<forall>n. snd r \<noteq> EmSizeImage n"
  shows "\<exists>b'. em_restore r (with_counts a b s) = Some (with_counts a b' t)"
  using assms by (cases s) (auto simp: em_restore_def with_counts_def split: em_image.splits if_splits)

lemma undo_with_counts:
  assumes "undo_all em_restore rs s = Some t" "\<forall>r \<in> set rs. \<forall>n. snd r \<noteq> EmSizeImage n"
  shows "\<exists>b'. undo_all em_restore rs (with_counts a b s) = Some (with_counts a b' t)"
  using assms
proof (induction rs arbitrary: t)
  case Nil
  then show ?case by auto
next
  case (Cons r rs)
  then obtain u where u: "undo_all em_restore rs s = Some u" "em_restore r u = Some t"
    by (auto simp: Option.bind_eq_Some_conv)
  from Cons.IH [OF u(1)] Cons.prems obtain b' where "undo_all em_restore rs (with_counts a b s) = Some (with_counts a b' u)" by auto
  with restore_with_counts [OF u(2)] Cons.prems(2) show ?case by simp
qed

lemma tables_logged_refl: "tables_logged s s"
  by (auto simp: tables_logged_def with_counts_def em_set_undo_def intro!: exI [of _ "fl_currentSize s"])

lemma tables_logged_trans:
  assumes "tables_logged s s'" "tables_logged s' s''"
  shows "tables_logged s s''"
proof -
  obtain rs b where 1: "em_undoRecords s' = em_undoRecords s @ rs" "\<forall>r \<in> set rs. \<forall>n. snd r \<noteq> EmSizeImage n"
    "undo_all em_restore rs (em_set_undo [] s') = Some (with_counts (em_currentSize s') b (em_set_undo [] s))"
    using assms(1) by (auto simp: tables_logged_def)
  obtain rs' b' where 2: "em_undoRecords s'' = em_undoRecords s' @ rs'" "\<forall>r \<in> set rs'. \<forall>n. snd r \<noteq> EmSizeImage n"
    "undo_all em_restore rs' (em_set_undo [] s'') = Some (with_counts (em_currentSize s'') b' (em_set_undo [] s'))"
    using assms(2) by (auto simp: tables_logged_def)
  from undo_with_counts [OF 1(3,2), of "em_currentSize s''" b'] obtain c where
    "undo_all em_restore rs (with_counts (em_currentSize s'') b' (em_set_undo [] s')) =
      Some (with_counts (em_currentSize s'') c (with_counts (em_currentSize s') b (em_set_undo [] s)))" by blast
  then have "undo_all em_restore (rs @ rs') (em_set_undo [] s'') = Some (with_counts (em_currentSize s'') c (em_set_undo [] s))"
    using 2(3) by (simp add: undo_all_append with_counts_def)
  with 1(1,2) 2(1,2) show ?thesis unfolding tables_logged_def by (intro exI [of _ "rs @ rs'"]) auto
qed

text \<open>The single writes.\<close>

lemmas logged_simps = tables_logged_def em_writes fl_log_def fl_assign_def em_restore_def em_set_undo_def with_counts_def

lemma tables_logged_put: "tables_logged s (em_put i e s)"
  and tables_logged_fl_put: "tables_logged s (fl_put i r s)"
  and tables_logged_fl_count: "tables_logged s (fl_count d s)"
  and tables_logged_unlogged: "tables_logged s (em_count_unlogged d s)" "tables_logged s (fl_count_unlogged d s)"
  by (cases s; auto simp: logged_simps)+

lemma tables_logged_assign: "tables_logged s (fl_assign i r (fl_log i s))"
  by (cases s) (auto simp: logged_simps)

lemma tables_logged_migrate:
  assumes "fl_migrate p f (fl_log p s) = (p', s')"
  shows "tables_logged s (fl_assign p' r s')"
  using assms by (cases s) (auto simp: fl_migrate_def Let_def logged_simps list_update_swap split: option.splits if_splits)

lemma fl_give_back_logged:
  assumes "fl_give_back x s = Some s'" "fl_mapping s' = fl_mapping s"
  shows "tables_logged s s'"
proof -
  obtain prec succ f where nb: "fl_neighbours x (fl_entries s) = (prec, succ, f)" by (cases "fl_neighbours x (fl_entries s)")
  show ?thesis
  proof (cases prec)
    case (Some p)
    obtain p' s2 where mg: "fl_migrate p f (fl_log p s) = (p', s2)" by (cases "fl_migrate p f (fl_log p s)")
    show ?thesis
    proof (cases succ)
      case None
      with assms(1) nb Some mg show ?thesis
        by (auto simp: fl_give_back_def Let_def intro: tables_logged_migrate [OF mg])
    next
      case (Some q)
      with assms(1) nb \<open>prec = Some p\<close> mg show ?thesis
        by (auto simp: fl_give_back_def Let_def intro!: tables_logged_trans [OF tables_logged_migrate [OF mg]
            tables_logged_trans [OF tables_logged_fl_put tables_logged_fl_count]])
    qed
  next
    case None
    show ?thesis
    proof (cases succ)
      case (Some q)
      obtain q' s2 where mg: "fl_migrate q f (fl_log q s) = (q', s2)" by (cases "fl_migrate q f (fl_log q s)")
      with assms(1) nb None Some show ?thesis
        by (auto simp: fl_give_back_def Let_def intro: tables_logged_migrate [OF mg])
    next
      case succ: None
      have grown: "fl_mapping s1 = fl_mapping s + 1" if "em_growFLShmseg s = Some s1" for s1
        using that by (auto simp: em_growFLShmseg_def Let_def Option.bind_eq_Some_conv)
      have "\<not> fl_full s"
      proof
        assume "fl_full s"
        with assms(1) nb None succ obtain s1 where "em_growFLShmseg s = Some s1" "fl_mapping s' = fl_mapping s1"
          by (auto simp: fl_give_back_def Let_def em_writes Option.bind_eq_Some_conv)
        with grown assms(2) show False by simp
      qed
      with assms(1) nb None succ show ?thesis
        by (auto simp: fl_give_back_def Let_def Option.bind_eq_Some_conv
            intro: tables_logged_trans [OF tables_logged_fl_put tables_logged_unlogged(2)])
    qed
  qed
qed

lemma fl_give_back_mapping: "fl_give_back x s = Some s' \<Longrightarrow> fl_mapping s \<le> fl_mapping s' \<and> em_mapping s' = em_mapping s"
proof -
  have mig: "fl_mapping (snd (fl_migrate p f s)) = fl_mapping s \<and> em_mapping (snd (fl_migrate p f s)) = em_mapping s" for p f s
    by (simp add: fl_migrate_def Let_def fl_assign_def fl_log_def em_record_def split: option.split)
  have grow: "fl_mapping s' = fl_mapping s + 1 \<and> em_mapping s' = em_mapping s" if "em_growFLShmseg s = Some s'" for s s'
    using that by (auto simp: em_growFLShmseg_def Let_def Option.bind_eq_Some_conv)
  show "fl_give_back x s = Some s' \<Longrightarrow> fl_mapping s \<le> fl_mapping s' \<and> em_mapping s' = em_mapping s"
    using mig [of _ _ "fl_log _ s"] grow
    by (auto simp: fl_give_back_def Let_def em_writes fl_assign_def fl_log_def case_prod_beta Option.bind_eq_Some_conv
        split: option.splits if_splits)
qed

lemma em_apply_logged:
  assumes "em_apply act i s = Some s'" "\<forall>e. act \<noteq> WriteRaw e"
  shows "fl_mapping s \<le> fl_mapping s' \<and> (fl_mapping s' = fl_mapping s \<longrightarrow> tables_logged s s')"
proof (cases act)
  case Delete
  then obtain s1 where s1: "fl_give_back (em_range (em_entries s ! i)) s = Some s1"
    and s': "s' = em_count_unlogged (- sizeof_EMEntry)
      (em_put i ((em_entries s ! i)\<lparr>em_range := (em_range (em_entries s ! i))\<lparr>il_size := 0\<rparr>\<rparr>) s1)"
    using assms(1) by (auto simp: em_deleteExtent_def Let_def Option.bind_eq_Some_conv)
  have "fl_mapping s' = fl_mapping s1" by (simp add: s' em_writes)
  moreover have "tables_logged s1 s'" unfolding s'
    by (rule tables_logged_trans [OF tables_logged_put tables_logged_unlogged(1)])
  ultimately show ?thesis using fl_give_back_mapping [OF s1] fl_give_back_logged [OF s1] tables_logged_trans by metis
next
  case (Write e)
  then have "s' = em_put i e s" using assms(1) by simp
  then show ?thesis using tables_logged_put by (simp add: em_writes)
qed (use assms tables_logged_refl in auto)

lemma em_sweep_logged:
  assumes "\<And>a e e'. snd (f a e) \<noteq> WriteRaw e'"
  shows "em_sweep f a is s = Some (acc, s') \<Longrightarrow>
    fl_mapping s \<le> fl_mapping s' \<and> (fl_mapping s' = fl_mapping s \<longrightarrow> tables_logged s s')"
proof (induction "is" arbitrary: a s)
  case Nil
  then show ?case by (simp add: tables_logged_refl)
next
  case (Cons i "is")
  obtain a' act where act: "f a (em_entries s ! i) = (a', act)" by (cases "f a (em_entries s ! i)")
  obtain s1 where s1: "em_apply act i s = Some s1" "em_sweep f a' is s1 = Some (acc, s')"
    using Cons.prems act by (auto simp: Option.bind_eq_Some_conv)
  have "\<forall>e. act \<noteq> WriteRaw e" using assms [of a "em_entries s ! i"] act by auto
  from em_apply_logged [OF s1(1) this] Cons.IH [OF s1(2)] show ?case
    using tables_logged_trans [of s s1 s'] by auto
qed

lemma tables_logged_undo:
  assumes "em_undoRecords s = []" "tables_logged s s'"
  shows "\<exists>b. em_undoChanges s' = Some (with_counts (em_currentSize s') b s)"
proof -
  obtain b where "undo_all em_restore (em_undoRecords s') (em_set_undo [] s') = Some (with_counts (em_currentSize s') b (em_set_undo [] s))"
    using assms by (auto simp: tables_logged_def)
  moreover have "em_set_undo [] s = s" using assms(1) by (simp add: em_set_undo_def)
  ultimately have "undo_all em_restore (em_undoRecords s') (em_set_undo [] s') = Some (with_counts (em_currentSize s') b s)" by simp
  then have "map_option (em_set_undo []) (undo_all em_restore (em_undoRecords s') s') = Some (with_counts (em_currentSize s') b s)"
    by (simp add: em_log.undo_all_set_log)
  then show ?thesis unfolding em_undoChanges_def undoChanges_def by blast
qed

end
