(* ===== verification/Extent_Rollback.thy ===== *)
theory Extent_Rollback
  imports Extent_Undo Extent_Steps
begin

text \<open>
  The effect of the deleting operations on the set of extents: \<^verbatim>\<open>deleteOID\<close> removes the
  extents of one column, and \<^verbatim>\<open>rollbackColumnExtents_DBroot\<close> cuts the extents of a column on
  a DBRoot back to a given one and sets its high water mark. The window of the stripe is computed at
  the first extent met, so the statement is for columns with extents of one size.
\<close>

section \<open>deleteOID\<close>

lemma deleteOID_effect:
  assumes "em_good s"
  obtains s' where "em_deleteOID OID s = Some (if \<exists>e \<in># em_extents s. em_fileID e = OID then Inr ()
      else Inl (Invalid_argument ''ExtentMap::deleteOID(): There are no extent entries for OID ''), s')"
    "em_good s'" "em_extents s' = filter_mset (\<lambda>e. em_fileID e \<noteq> OID) (em_extents s)"
    "fl_mapping s' = fl_mapping s \<Longrightarrow> tables_logged s s'"
proof -
  have s: "em_inv s" "em_small s" using assms by (simp_all add: em_good_def)
  let ?f = "deleteOID_act OID" and ?g = "\<lambda>e. if em_used e \<and> em_fileID e = OID then Delete else Keep"
  obtain s' where s': "em_sweep_all ?f False s = Some (swept_acc ?f False (em_entries s), s')" "em_entries s' = swept ?f False (em_entries s)"
    by (rule deleteOID.sweep_ok [OF s])
  have acc: "swept_acc ?f b es = (b \<or> (\<exists>e \<in> set es. em_used e \<and> em_fileID e = OID))" for b es
    by (induction es arbitrary: b) (auto simp: deleteOID_act_def)
  have es: "em_entries s' = map (\<lambda>e. act_entry (?g e) e) (em_entries s)"
    unfolding s'(2) by (rule swept_map [where Q = "\<lambda>_. True"]) (simp_all add: deleteOID_act_def)
  have ext: "mset (filter em_used (map (\<lambda>e. act_entry (?g e) e) es)) = filter_mset (\<lambda>e. em_fileID e \<noteq> OID) (mset (filter em_used es))" for es
    by (induction es) (simp_all add: em_freed_def em_used_def)
  have good: "em_good s'" using deleteOID_good [OF assms, of OID] s'(1) by (auto simp: em_deleteOID_def)
  have "em_sweep ?f False [0 ..< length (em_entries s)] s = Some (swept_acc ?f False (em_entries s), s')"
    using s'(1) by (simp add: em_sweep_all_def)
  from em_sweep_logged [OF _ this] have "fl_mapping s' = fl_mapping s \<Longrightarrow> tables_logged s s'"
    by (auto simp: deleteOID_act_def split: if_splits)
  with s'(1) good ext show thesis
    by (intro that [of s']) (auto simp: em_deleteOID_def acc em_extents_def es)
qed

section \<open>rollbackColumnExtents_DBroot\<close>

definition rb_mine :: "OID_t \<Rightarrow> DBROOTS_struct \<Rightarrow> EMEntry \<Rightarrow> bool" where
  "rb_mine oid dbRoot e \<longleftrightarrow> em_fileID e = oid \<and> dbr_eq (em_dbRoots e) dbRoot \<and> em_status e \<noteq> EXTENTOUTOFSERVICE"

text \<open>The extents up to the one that holds the high water mark, where the stripe holding it has the
  offsets from \<open>lo\<close> to \<open>hi\<close>.\<close>

definition rb_keeps :: "int \<Rightarrow> int \<Rightarrow> int \<Rightarrow> int \<Rightarrow> EMEntry \<Rightarrow> bool" where
  "rb_keeps part seg lo hi e \<longleftrightarrow> em_partitionNum e < part \<or>
    em_partitionNum e = part \<and> (em_blockOffset e < lo \<or> em_blockOffset e \<le> hi \<and> em_segmentNum e \<le> seg)"

lemma act_reset: "act_entry (reset_hwm h e) e = (if em_HWM e = h then e else e\<lparr>em_HWM := h, em_status := EXTENTAVAILABLE\<rparr>)"
  by (simp add: reset_hwm_def)

lemma stripe_act_delete: "fw_lo w \<le> fw_hi w \<Longrightarrow> stripe_act part seg hwm w e = Delete \<longleftrightarrow> \<not> rb_keeps part seg (fw_lo w) (fw_hi w) e"
  by (simp add: stripe_act_def rb_keeps_def)

lemma stripe_act_keep: "stripe_act part seg hwm w e \<noteq> Delete \<Longrightarrow> stripe_act part seg hwm w e = Keep \<or> (\<exists>h. stripe_act part seg hwm w e = reset_hwm h e)"
  by (simp add: stripe_act_def split: if_splits) blast+

lemma stripe_act_last:
  "stripe_act part seg hwm w e \<noteq> Delete \<Longrightarrow> em_partitionNum e = part \<Longrightarrow> em_segmentNum e = seg \<Longrightarrow> fw_lo w \<le> em_blockOffset e \<Longrightarrow>
    stripe_act part seg hwm w e = reset_hwm hwm e"
  by (simp add: stripe_act_def split: if_splits)

lemma stripe_act_effect:
  fixes part seg hwm :: int and w :: fbo_window
  assumes "em_used e" "rb_mine oid dbRoot e" "fw_lo w \<le> fw_hi w"
  defines "e' \<equiv> act_entry (stripe_act part seg hwm w e) e"
  shows "em_used e' \<longleftrightarrow> rb_keeps part seg (fw_lo w) (fw_hi w) e" "em_used e' \<Longrightarrow> rb_mine oid dbRoot e'"
    "em_position e' = em_position e"
    "em_used e' \<Longrightarrow> em_partitionNum e = part \<Longrightarrow> em_segmentNum e = seg \<Longrightarrow> fw_lo w \<le> em_blockOffset e \<Longrightarrow> em_HWM e' = hwm"
proof -
  let ?a = "stripe_act part seg hwm w e"
  have reset: "em_used (act_entry (reset_hwm h e) e)" "rb_mine oid dbRoot (act_entry (reset_hwm h e) e)"
      "em_position (act_entry (reset_hwm h e) e) = em_position e" "em_HWM (act_entry (reset_hwm h e) e) = h" for h
    using assms(1,2) by (simp_all add: act_reset em_used_def rb_mine_def em_position_def EXTENTAVAILABLE_def EXTENTOUTOFSERVICE_def)
  have cases: "?a = Delete \<and> \<not> em_used e' \<and> em_position e' = em_position e \<or>
      ?a \<noteq> Delete \<and> em_used e' \<and> rb_mine oid dbRoot e' \<and> em_position e' = em_position e"
  proof (cases "?a = Delete")
    case True
    then show ?thesis by (simp add: e'_def) (simp add: em_freed_def em_position_def)
  next
    case False
    from stripe_act_keep [OF this] show ?thesis
    proof
      assume "?a = Keep"
      then show ?thesis using assms(1,2) by (simp add: e'_def)
    next
      assume "\<exists>h. ?a = reset_hwm h e"
      then obtain h where h: "?a = reset_hwm h e" ..
      with False reset [of h] show ?thesis by (simp add: e'_def)
    qed
  qed
  then show "em_used e' \<longleftrightarrow> rb_keeps part seg (fw_lo w) (fw_hi w) e" using stripe_act_delete [OF assms(3)] by blast
  show "em_used e' \<Longrightarrow> rb_mine oid dbRoot e'" "em_position e' = em_position e" using cases by blast+
  assume "em_used e'" "em_partitionNum e = part" "em_segmentNum e = seg" "fw_lo w \<le> em_blockOffset e"
  with cases stripe_act_last have "?a = reset_hwm hwm e" by blast
  with reset(4) show "em_HWM e' = hwm" by (simp add: e'_def)
qed

definition rb_window :: "int \<Rightarrow> HWM_t \<Rightarrow> fbo_window" where
  "rb_window sz hwm = (let rng = sz * 1024; lo = hwm - hwm mod rng
    in \<lparr>fw_lo = lo, fw_hi = lo + rng - 1, fw_prev = (if lo > 0 then lo - rng else 0)\<rparr>)"

lemma fw_calc_uniform:
  assumes sz: "0 < sz" "sz < 2 ^ 22" and hwm: "0 \<le> hwm" "hwm + sz * 1024 < 2 ^ 32" and e: "em_size e = sz"
    and w: "w = fbo_window0 \<or> w = rb_window sz hwm"
  shows "fw_calc hwm e w = Some (rb_window sz hwm)"
proof -
  let ?r = "sz * 1024" and ?lo = "hwm - hwm mod (sz * 1024)"
  have r: "fbo_range e = ?r" using sz e by (simp add: fbo_range_def u32_id)
  have m: "0 \<le> hwm mod ?r" "hwm mod ?r < ?r" "hwm mod ?r \<le> hwm" using sz(1) hwm(1) by (simp_all add: zmod_le_nonneg_dividend)
  have lo: "0 \<le> ?lo" "?lo + ?r - 1 < 2 ^ 32" "?lo < 2 ^ 32" using m hwm sz by linarith+
  have pos: "?lo > 0 \<Longrightarrow> ?r \<le> ?lo"
    by (metis dvd_minus_mod zdvd_imp_le)
  have hi: "fw_hi (rb_window sz hwm) \<noteq> 0" using lo sz by (simp add: rb_window_def Let_def)
  show ?thesis
  proof (cases "w = rb_window sz hwm")
    case True
    then show ?thesis using hi by (simp add: fw_calc_def)
  next
    case False
    then have "w = fbo_window0" using w by simp
    then show ?thesis using r sz lo pos m
      by (auto simp: fw_calc_def Let_def rb_window_def fbo_window0_def u32_id)
  qed
qed

lemma rb_window_bounds: "0 < sz \<Longrightarrow> fw_lo (rb_window sz hwm) \<le> fw_hi (rb_window sz hwm)"
  by (simp add: rb_window_def Let_def)

lemma rollbackColumn_effect:
  assumes good: "em_good s" and sz: "0 < sz" "sz < 2 ^ 22" and hwm: "0 \<le> hwm" "hwm + sz * 1024 < 2 ^ 32"
    and uniform: "\<forall>e \<in># em_extents s. rb_mine oid dbRoot e \<longrightarrow> em_size e = sz"
  defines "lo \<equiv> fw_lo (rb_window sz hwm)" and "hi \<equiv> fw_hi (rb_window sz hwm)"
  obtains s' where "em_rollbackColumnExtents_DBroot oid False dbRoot part seg hwm s = Some s'" "em_good s'"
    "filter_mset (\<lambda>e. \<not> rb_mine oid dbRoot e) (em_extents s') = filter_mset (\<lambda>e. \<not> rb_mine oid dbRoot e) (em_extents s)"
    "image_mset em_position (filter_mset (rb_mine oid dbRoot) (em_extents s')) =
      image_mset em_position (filter_mset (\<lambda>e. rb_mine oid dbRoot e \<and> rb_keeps part seg lo hi e) (em_extents s))"
    "\<forall>e \<in># em_extents s'. rb_mine oid dbRoot e \<longrightarrow> em_partitionNum e = part \<longrightarrow> em_segmentNum e = seg \<longrightarrow>
      lo \<le> em_blockOffset e \<longrightarrow> em_HWM e = hwm"
proof -
  let ?f = "rollbackColumn_act oid False dbRoot part seg hwm" and ?w = "rb_window sz hwm" and ?m = "rb_mine oid dbRoot"
  let ?g = "\<lambda>e. if em_used e \<and> ?m e then stripe_act part seg hwm ?w e else Keep"
  let ?h = "\<lambda>e. act_entry (?g e) e"
  have s: "em_inv s" "em_small s" using good by (simp_all add: em_good_def)
  have h32: "hwm < 2 ^ 32" using hwm sz by linarith
  obtain acc s' where s': "em_sweep_all ?f fbo_window0 s = Some (acc, s')" "em_entries s' = swept ?f fbo_window0 (em_entries s)"
    by (rule rollbackColumn.sweep_ok [OF s]) blast
  have res: "em_rollbackColumnExtents_DBroot oid False dbRoot part seg hwm s = Some s'"
    using s'(1) by (simp add: em_rollbackColumnExtents_DBroot_def)
  have good': "em_good s'" using rollbackColumn_good [OF good hwm(1) h32] res by (metis option.inject)
  have step: "(fst (?f w e) = fbo_window0 \<or> fst (?f w e) = ?w) \<and> snd (?f w e) = ?g e"
    if "w = fbo_window0 \<or> w = ?w" "e \<in> set (em_entries s)" for w e
  proof (cases "em_used e \<and> ?m e")
    case True
    then have "em_size e = sz" using uniform that(2) by (simp add: em_extents_def)
    from fw_calc_uniform [OF sz hwm this that(1)] True show ?thesis by (simp add: rollbackColumn_act_def rb_mine_def)
  next
    case False
    then show ?thesis using that(1) by (auto simp: rollbackColumn_act_def rb_mine_def)
  qed
  have es: "em_entries s' = map ?h (em_entries s)"
    unfolding s'(2) by (rule swept_map [where Q = "\<lambda>w. w = fbo_window0 \<or> w = ?w", OF step]) simp_all
  note eff = stripe_act_effect [OF _ _ rb_window_bounds [OF sz(1)], of _ oid dbRoot, where part = part and seg = seg and hwm = hwm and hwm1 = hwm]
  have ext: "em_extents s' = mset (filter em_used (map ?h (em_entries s)))" by (simp add: em_extents_def es)
  have others: "filter_mset (\<lambda>e. \<not> ?m e) (mset (filter em_used (map ?h xs))) = filter_mset (\<lambda>e. \<not> ?m e) (mset (filter em_used xs))" for xs
    using eff(2) by (induction xs) auto
  have kept: "image_mset em_position (filter_mset ?m (mset (filter em_used (map ?h xs)))) =
      image_mset em_position (filter_mset (\<lambda>e. ?m e \<and> rb_keeps part seg lo hi e) (mset (filter em_used xs)))" for xs
    using eff(1-3) by (induction xs) (auto simp: lo_def hi_def)
  have last_hwm: "em_HWM (?h e) = hwm" if "em_used (?h e)" "?m (?h e)" "em_partitionNum (?h e) = part" "em_segmentNum (?h e) = seg"
      "lo \<le> em_blockOffset (?h e)" for e
  proof (cases "em_used e \<and> ?m e")
    case True
    then have "em_position (?h e) = em_position e" using eff(3) by simp
    then show ?thesis using that True eff(4) [of e] by (simp add: em_position_def lo_def)
  next
    case False
    with that show ?thesis by auto
  qed
  have "\<forall>e \<in># em_extents s'. ?m e \<longrightarrow> em_partitionNum e = part \<longrightarrow> em_segmentNum e = seg \<longrightarrow> lo \<le> em_blockOffset e \<longrightarrow> em_HWM e = hwm"
  proof (intro ballI impI)
    fix e assume e: "e \<in># em_extents s'" "?m e" "em_partitionNum e = part" "em_segmentNum e = seg" "lo \<le> em_blockOffset e"
    from e(1) obtain x where x: "em_used e" "?h x = e" unfolding ext by auto
    show "em_HWM e = hwm" using last_hwm [of x, unfolded x(2), OF x(1) e(2-5)] .
  qed
  from that [OF res good' others [of "em_entries s", folded ext em_extents_def [of s]]
      kept [of "em_entries s", folded ext em_extents_def [of s]] this]
  show thesis .
qed

end
