(* ===== verification/Extent_Properties.thy ===== *)
theory Extent_Properties
  imports Extent_Rollback
begin

text \<open>
  The properties of the extent map, with witnesses. The small map \<open>em_sample\<close> that several
  witnesses use has one extent of eight units and the rest of the block space in one free range.
\<close>

section \<open>A small map\<close>

definition em_sample_extent :: EMEntry where
  "em_sample_extent = (em_new_entry 0 8 3000 8 [1, 0, 0, 0] BIGINT 0 0 0)\<lparr>em_HWM := 5, em_status := EXTENTAVAILABLE\<rparr>"

definition em_sample :: ExtentMap where
  "em_sample = \<lparr>em_entries = [em_sample_extent, em_zero_entry], em_currentSize = sizeof_EMEntry, em_tableShmkey = 0x30000,
     em_attached = True, fl_entries = [\<lparr>il_start = 8192, il_size = MAX_LBID_SIZE - 8\<rparr>, fl_zero_entry],
     fl_currentSize = sizeof_InlineLBIDRange, fl_tableShmkey = 0x40000, fl_attached = True,
     em_mapping = 0, fl_mapping = 0, em_undoRecords = []\<rparr>"

lemmas em_sample_defs = em_sample_def em_sample_extent_def em_new_entry_def cp_reset_def em_used_def fl_used_def
  em_zero_entry_def fl_zero_entry_def MAX_LBID_SIZE_def

lemma em_sample_good: "em_good em_sample"
proof -
  have "em_wf em_sample" by (simp add: em_wf_def em_sample_defs range_ok_def)
  moreover have "em_counted em_sample" by (simp add: em_counted_def em_sample_defs)
  moreover have "em_space em_sample = mset_set {0 ..< MAX_LBID_SIZE}"
  proof -
    have "{0 ..< MAX_LBID_SIZE} = {0 ..< 8} \<union> {8 ..< MAX_LBID_SIZE}" by (auto simp: MAX_LBID_SIZE_def)
    then have "mset_set {0 ..< MAX_LBID_SIZE} = mset_set {0 ..< 8} + mset_set {8 ..< MAX_LBID_SIZE}"
      by (simp add: mset_set_Union)
    then show ?thesis
      by (simp add: em_space_def blk_def units_def em_sample_def em_sample_extent_def em_new_entry_def em_zero_entry_def fl_zero_entry_def)
  qed
  moreover have "em_small em_sample" by (simp add: em_small_def em_sample_defs)
  moreover have "\<forall>e \<in> set (em_entries em_sample). em_typed e"
    by (simp add: em_typed_def em_sample_defs dbr_zero_def MAX_DATA_REPLICATESIZE_def)
  ultimately show ?thesis by (simp add: em_good_def em_inv_def)
qed

definition em_sample_cfg :: em_config where
  "em_sample_cfg = \<lparr>filesPerColumnPartition = 4, extentsPerSegmentFile = 2, dbRootCount = 1\<rparr>"

lemma em_init_step: "\<exists>s0 s. em_init = Some s0 \<and> em_step s0 s"
proof -
  obtain s0 where s0: "em_init = Some s0" "em_good s0" using em_init_good by blast
  obtain r s where "em_createDictStoreExtent 3000 [1, 0, 0, 0] 0 0 s0 = Some (r, s)"
    by (rule createDict_good [OF s0(2), of 0 0 "[1, 0, 0, 0]" 3000]) (simp_all add: MAX_DATA_REPLICATESIZE_def)
  then have "em_create s0 s" by (rule em_create.create_dict [rotated]) (simp add: em_args MAX_DATA_REPLICATESIZE_def)
  with s0(1) em_step.step_create show ?thesis by blast
qed

lemma em_reachable_good:
  assumes "em_init = Some s0" "em_step\<^sup>*\<^sup>* s0 s"
  shows "em_good s"
proof -
  obtain s1 where "em_init = Some s1" "em_good s1" using em_init_good by blast
  then have "em_good s0" using assms(1) by (metis option.inject)
  with em_steps_good [OF assms(2)] show ?thesis by simp
qed

lemma em_init_steps: "\<exists>s0 s. em_init = Some s0 \<and> em_step s0 s \<and> em_step\<^sup>*\<^sup>* s0 s"
  using em_init_step by blast

section \<open>The block space\<close>





text \<open>C17: The creation of a column extent always returns, and it succeeds if and only if some free
  range is long enough, growing the table when it is full.\<close>

theorem em_create_succeeds:
  assumes "em_good s" "width_arg w" "file_arg d part 0" "dbRootCount cfg \<noteq> 0"
  shows "\<exists>r s'. em_createColumnExtent_DBroot cfg OID w d t part s = Some (r, s') \<and>
    ((\<exists>x. r = Inr x) \<longleftrightarrow> (\<exists>x \<in> set (fl_entries s). w \<le> il_size x))"
proof -
  have s: "em_inv s" "\<forall>e \<in> set (em_entries s). em_typed e" "0 < w" "w < 512" using assms by (simp_all add: em_good_def em_args)
  show ?thesis
  proof (rule em_createColumnExtent_ok [OF s assms(4), of OID d t part])
    fix err s' assume c: "em_createColumnExtent_DBroot cfg OID w d t part s = Some (Inl err, s')" "em_created s s' None w"
    then have "\<forall>x \<in> set (fl_entries s). il_size x < w" by (simp add: em_created_def)
    with c(1) show ?thesis by fastforce
  next
    fix lbid p g off k n s'
    assume c: "em_createColumnExtent_DBroot cfg OID w d t part s = Some (Inr (lbid, p, g, off), s')"
      "em_created s s' (Some (em_new_entry lbid w OID w d t p g off)) w"
    then have "\<exists>x \<in> set (fl_entries s). w \<le> il_size x" by (simp add: em_created_def)
    with c(1) show ?thesis by blast
  qed
qed

theorem em_create_succeeds_witness:
  "\<exists>x s'. em_createColumnExtent_DBroot em_sample_cfg 3001 4 [1, 0, 0, 0] BIGINT 0 em_sample = Some (Inr x, s')"
proof -
  have "\<exists>x \<in> set (fl_entries em_sample). 4 \<le> il_size x" by (simp add: em_sample_def MAX_LBID_SIZE_def)
  with em_create_succeeds [OF em_sample_good, of 4 "[1, 0, 0, 0]" 0 em_sample_cfg 3001 BIGINT] show ?thesis
    by (auto simp: em_args em_sample_cfg_def MAX_DATA_REPLICATESIZE_def)
qed

text \<open>C5: A new column extent is placed where none is: if the extents of the column have different
  places and each of its segment files is on one list of DBRoots, this holds after the creation, which
  adds exactly the new extent.\<close>

theorem em_create_layout:
  assumes "em_good s" "width_arg w" "file_arg d part 0" "dbRootCount cfg \<noteq> 0"
    "em_room OID (em_entries s)" "em_layout OID (em_entries s)"
    "em_createColumnExtent_DBroot cfg OID w d t part s = Some (Inr (lbid, p, g, off), s')"
  shows "em_layout OID (em_entries s') \<and> em_extents s' = add_mset (em_new_entry lbid w OID w d t p g off) (em_extents s)"
proof -
  have s: "em_inv s" "\<forall>e \<in> set (em_entries s). em_typed e" "0 < w" "w < 512" using assms by (simp_all add: em_good_def em_args)
  show ?thesis
  proof (rule em_createColumnExtent_ok [OF s assms(4), of OID d t part])
    fix err s'' assume "em_createColumnExtent_DBroot cfg OID w d t part s = Some (Inl err, s'')"
    with assms(7) show ?thesis by simp
  next
    fix lbid' p' g' off' k n s''
    let ?es = "em_entries s @ replicate n em_zero_entry" and ?e = "em_new_entry lbid' w OID w d t p' g' off'"
    assume c: "em_createColumnExtent_DBroot cfg OID w d t part s = Some (Inr (lbid', p', g', off'), s'')"
      "em_created s s'' (Some ?e) w" "k < length ?es" "\<not> em_used (?es ! k)" "em_entries s'' = ?es[k := ?e]"
      "em_room OID (em_entries s) \<Longrightarrow> em_layout OID (em_entries s) \<Longrightarrow> place_free OID d ?es p' g' off'"
    have eq: "lbid' = lbid" "p' = p" "g' = g" "off' = off" "s'' = s'" using c(1) assms(7) by simp_all
    have fields: "of_column OID ?e" "em_dbRoots ?e = d" "em_partitionNum ?e = p'" "em_segmentNum ?e = g'" "em_blockOffset ?e = off'"
      using s(3) by (simp_all add: of_column_def em_used_def em_new_entry_def)
    have "em_layout OID ?es" using assms(6) by (simp add: em_layout_append)
    from em_layout_put [OF this c(3,4) fields(1)] c(6) [OF assms(5,6)] have "em_layout OID (em_entries s'')"
      by (simp add: c(5) fields(2-5))
    with c(2) eq show ?thesis by (simp add: em_created_def)
  qed
qed

lemma em_sample_entries [simp]: "em_entries em_sample = [em_sample_extent, em_zero_entry]"
  "em_undoRecords em_sample = []" "em_currentSize em_sample = sizeof_EMEntry" "em_used em_sample_extent" "\<not> em_used em_zero_entry"
  by (simp_all add: em_sample_defs)

lemma em_sample_extent_fields [simp]: "em_fileID em_sample_extent = 3000" "em_size em_sample_extent = 8"
  "em_start em_sample_extent = 0" "em_extents em_sample = {#em_sample_extent#}"
  by (simp_all add: em_extents_def) (simp_all add: em_sample_extent_def em_new_entry_def)

theorem em_create_layout_witness:
  "\<exists>x s'. em_createColumnExtent_DBroot em_sample_cfg 3000 8 [1, 0, 0, 0] BIGINT 0 em_sample = Some (Inr x, s') \<and>
    em_layout 3000 (em_entries s')"
proof -
  have args: "width_arg 8" "file_arg [1, 0, 0, 0] 0 0" "dbRootCount em_sample_cfg \<noteq> 0"
    by (simp_all add: em_args em_sample_cfg_def MAX_DATA_REPLICATESIZE_def)
  have "em_room 3000 (em_entries em_sample)" "em_layout 3000 (em_entries em_sample)"
    by (simp_all add: em_room_def em_layout_def less_Suc_eq numeral_2_eq_2 of_column_def em_sample_defs dbr_eq_def list_all_iff)
  moreover have "em_inv em_sample" "\<forall>e \<in> set (em_entries em_sample). em_typed e" using em_sample_good by (simp_all add: em_good_def)
  then obtain lbid p g off s' where "em_createColumnExtent_DBroot em_sample_cfg 3000 8 [1, 0, 0, 0] BIGINT 0 em_sample = Some (Inr (lbid, p, g, off), s')"
    by (rule em_createColumnExtent_ok [of _ 8 em_sample_cfg 3000 "[1, 0, 0, 0]" BIGINT 0])
      (auto simp: em_created_def em_sample_cfg_def em_sample_defs)
  ultimately show ?thesis using em_create_layout [OF em_sample_good args] by blast
qed

section \<open>Looking up blocks and high water marks\<close>

text \<open>C22: Resolving a block of a segment file to its LBID and the LBID back to a file gives the OID,
  partition, segment and block offset one started from, for extents of fewer than 2 to the 31 blocks (the
  distance from the first block is an \<^verbatim>\<open>int\<close>).\<close>

theorem em_lookup_roundtrip:
  assumes "em_good s" "\<forall>e \<in> set (em_entries s). em_size e < 2 ^ 21" "em_lookupLocal_file OID part seg fbo s = Inr (Some lbid)"
  shows "\<exists>d. em_lookupLocal lbid s = Inr (Some (OID, d, part, seg, fbo_of (word_of_int fbo)))"
proof (rule em_resolve_back [OF _ assms(2,3)])
  show "em_inv s" using assms(1) by (simp add: em_good_def)
qed

theorem em_lookup_roundtrip_witness:
  "em_lookupLocal_file 3000 0 0 77 em_sample = Inr (Some 77) \<and>
   (\<exists>d. em_lookupLocal 77 em_sample = Inr (Some (3000, d, 0, 0, fbo_of 77)))"
proof -
  have "em_lookupLocal_file 3000 0 0 77 em_sample = Inr (Some 77)"
    by (simp add: em_lookupLocal_file_def em_in_segment_def em_holds_fbo_def em_sample_defs s32_id index_of_def free_from.simps isUnsigned_def Let_def)
  moreover have "\<forall>e \<in> set (em_entries em_sample). em_size e < 2 ^ 21" by (simp add: em_sample_defs)
  ultimately show ?thesis using em_lookup_roundtrip [OF em_sample_good, of 3000 0 0 77 77] by simp
qed

text \<open>C30: After \<^verbatim>\<open>setLocalHWM\<close> on a segment file, \<^verbatim>\<open>getLocalHWM\<close> returns the value set
  and, for a value other than zero, the status available. At most one extent of the file carries a high
  water mark, before and after.\<close>

theorem em_hwm_read_back:
  assumes "em_good s" "em_one_hwm OID part seg (em_entries s)" "0 \<le> OID" "em_setLocalHWM OID part seg h s = (Inr (), s')"
  shows "em_one_hwm OID part seg (em_entries s') \<and>
    (\<exists>st. em_getLocalHWM OID part seg s' = Inr (h, st) \<and> (h \<noteq> 0 \<longrightarrow> st = EXTENTAVAILABLE))"
proof (rule setLocalHWM_read [OF _ assms(2-4)])
  show "\<forall>e \<in> set (em_entries s). 0 \<le> em_blockOffset e" using assms(1) by (auto simp: em_good_def em_typed_def)
qed

theorem em_hwm_read_back_witness:
  "\<exists>s'. em_setLocalHWM 3000 0 0 9 em_sample = (Inr (), s') \<and> em_getLocalHWM 3000 0 0 s' = Inr (9, EXTENTAVAILABLE)"
proof -
  have "em_one_hwm 3000 0 0 (em_entries em_sample)"
    by (simp add: em_one_hwm_def less_Suc_eq numeral_2_eq_2 em_in_segment_def em_sample_defs)
  moreover obtain s' where "em_setLocalHWM 3000 0 0 9 em_sample = (Inr (), s')"
    by (simp add: em_setLocalHWM_def setHWM_scan_def setHWM_step_def em_in_segment_def em_sample_defs u32_def Let_def)
  ultimately show ?thesis using em_hwm_read_back [OF em_sample_good] by fastforce
qed

section \<open>Deleting and rolling back\<close>

text \<open>C15: \<^verbatim>\<open>deleteOID\<close> returns and removes the extents of the column and no other, and
  it reports an error if and only if the column has none.\<close>

theorem em_deleteOID_refines:
  assumes "em_good s"
  shows "\<exists>r s'. em_deleteOID OID s = Some (r, s') \<and> em_good s' \<and>
    em_extents s' = filter_mset (\<lambda>e. em_fileID e \<noteq> OID) (em_extents s) \<and>
    (r = Inr () \<longleftrightarrow> (\<exists>e \<in># em_extents s. em_fileID e = OID))"
  by (rule deleteOID_effect [OF assms, of OID]) simp

theorem em_deleteOID_refines_witness:
  "\<exists>s'. em_deleteOID 3000 em_sample = Some (Inr (), s') \<and> em_extents s' = {#}"
  using em_deleteOID_refines [OF em_sample_good, of 3000] by auto

text \<open>C8: \<^verbatim>\<open>rollbackColumnExtents_DBroot\<close> on a column with extents of one size leaves the
  extents of other columns and DBRoots and the ones out of service alone, keeps exactly the extents of
  the column up to the one that held the high water mark, and gives that one the old high water mark.\<close>

theorem em_rollback_refines:
  assumes "em_good s" "0 < sz" "sz < 2 ^ 22" "0 \<le> hwm" "hwm + sz * 1024 < 2 ^ 32"
    "\<forall>e \<in># em_extents s. rb_mine oid dbRoot e \<longrightarrow> em_size e = sz"
  shows "\<exists>s'. em_rollbackColumnExtents_DBroot oid False dbRoot part seg hwm s = Some s' \<and> em_good s' \<and>
    filter_mset (\<lambda>e. \<not> rb_mine oid dbRoot e) (em_extents s') = filter_mset (\<lambda>e. \<not> rb_mine oid dbRoot e) (em_extents s) \<and>
    image_mset em_position (filter_mset (rb_mine oid dbRoot) (em_extents s')) =
      image_mset em_position (filter_mset (\<lambda>e. rb_mine oid dbRoot e \<and>
        rb_keeps part seg (hwm - hwm mod (sz * 1024)) (hwm - hwm mod (sz * 1024) + sz * 1024 - 1) e) (em_extents s)) \<and>
    (\<forall>e \<in># em_extents s'. rb_mine oid dbRoot e \<longrightarrow> em_partitionNum e = part \<longrightarrow> em_segmentNum e = seg \<longrightarrow>
      hwm - hwm mod (sz * 1024) \<le> em_blockOffset e \<longrightarrow> em_HWM e = hwm)"
  by (rule rollbackColumn_effect [OF assms, of part seg]) (auto simp: rb_window_def Let_def)

theorem em_rollback_refines_witness:
  "\<exists>s'. em_rollbackColumnExtents_DBroot 3000 False [1, 0, 0, 0] 0 0 3 em_sample = Some s' \<and> em_good s' \<and>
    (\<forall>e \<in># em_extents s'. rb_mine 3000 [1, 0, 0, 0] e \<longrightarrow> em_partitionNum e = 0 \<longrightarrow> em_segmentNum e = 0 \<longrightarrow>
      0 \<le> em_blockOffset e \<longrightarrow> em_HWM e = 3)"
proof -
  have "\<forall>e \<in># em_extents em_sample. rb_mine 3000 [1, 0, 0, 0] e \<longrightarrow> em_size e = 8" by simp
  from em_rollback_refines [OF em_sample_good _ _ _ _ this, of 3 0 0] show ?thesis by auto
qed

section \<open>Undoing\<close>

definition em_undoable_step :: "ExtentMap \<Rightarrow> ExtentMap \<Rightarrow> bool" where
  "em_undoable_step s s' \<longleftrightarrow> em_good s \<and> (em_edit s s' \<or> \<not> em_full s \<and> em_create s s')"

lemma em_undoable_step_journalled: "em_undoable_step s s' \<Longrightarrow> em_journalled s s'"
  using em_edit_journalled em_create_good by (auto simp: em_undoable_step_def)

text \<open>C12: Creating column and dictionary extents in a table that has room, setting high water marks,
  changing the state of partitions and the bounds of extents are all undone, in any sequence, by
  \<^verbatim>\<open>undoChanges\<close>: from a state with an empty log the state comes back exactly.\<close>

theorem em_undo_restores:
  assumes "em_undoRecords s = []" "em_undoable_step\<^sup>*\<^sup>* s s'"
  shows "em_undoChanges s' = Some s"
  unfolding em_undoChanges_def
  using em_log.undo_to_confirmed [OF assms(1) em_log.journalled_rtranclp [OF assms(2) em_undoable_step_journalled]] .

theorem em_undo_restores_witness:
  "em_undoChanges (snd (em_markInvalid 77 BIGINT (snd (em_setLocalHWM 3000 0 0 9 em_sample)))) = Some em_sample"
proof -
  let ?s = "snd (em_setLocalHWM 3000 0 0 9 em_sample)"
  have 1: "em_edit em_sample ?s" by (rule em_edit.set_hwm [OF _ prod.collapse [symmetric]]) (simp add: em_args)
  have 2: "em_edit ?s (snd (em_markInvalid 77 BIGINT ?s))" by (rule em_edit.mark_invalid [OF prod.collapse [symmetric]])
  have "em_undoable_step\<^sup>*\<^sup>* em_sample (snd (em_markInvalid 77 BIGINT ?s))"
    using 1 2 em_edit_good [OF 1 em_sample_good] em_sample_good
    by (meson em_undoable_step_def rtranclp.rtrancl_into_rtrancl rtranclp.rtrancl_refl)
  with em_undo_restores show ?thesis by simp
qed

text \<open>C38: Undoing \<^verbatim>\<open>deleteOID\<close> brings both tables back but not the counter of the extent
  map, whose image was recorded from the wrong address: it stays lower by the size of the extents that
  were deleted.\<close>

theorem em_delete_undo_counter:
  assumes "em_good s" "em_undoRecords s = []" "em_deleteOID OID s = Some (r, s')" "fl_mapping s' = fl_mapping s"
  shows "\<exists>t. em_undoChanges s' = Some t \<and> em_entries t = em_entries s \<and> fl_entries t = fl_entries s \<and>
    em_currentSize t + sizeof_EMEntry * int (size {#e \<in># em_extents s. em_fileID e = OID#}) = em_currentSize s"
proof (rule deleteOID_effect [OF assms(1), of OID])
  fix s'' assume d: "em_deleteOID OID s = Some (if \<exists>e \<in># em_extents s. em_fileID e = OID then Inr ()
      else Inl (Invalid_argument ''ExtentMap::deleteOID(): There are no extent entries for OID ''), s'')"
    "em_good s''" "em_extents s'' = filter_mset (\<lambda>e. em_fileID e \<noteq> OID) (em_extents s)"
    "fl_mapping s'' = fl_mapping s \<Longrightarrow> tables_logged s s''"
  then have eq: "s'' = s'" using assms(3) by simp
  obtain b where b: "em_undoChanges s' = Some (with_counts (em_currentSize s') b s)"
    using tables_logged_undo [OF assms(2)] d(4) assms(4) eq by blast
  have count: "em_currentSize t = sizeof_EMEntry * int (size (em_extents t))" if "em_good t" for t
    using that by (simp add: em_good_def em_inv_def em_counted_def em_extents_def flip: mset_filter size_mset)
  have "size (em_extents s) = size {#e \<in># em_extents s. em_fileID e = OID#} + size {#e \<in># em_extents s. em_fileID e \<noteq> OID#}"
    by (metis multiset_partition size_union)
  with count [OF assms(1)] count [OF d(2)] d(3) eq b show ?thesis by (simp add: with_counts_def algebra_simps)
qed

theorem em_delete_undo_counter_witness:
  "\<exists>s' t. em_deleteOID 3000 em_sample = Some (Inr (), s') \<and> em_undoChanges s' = Some t \<and>
    em_entries t = em_entries em_sample \<and> em_currentSize t = 0"
proof -
  obtain s' where s': "em_deleteOID 3000 em_sample = Some (Inr (), s')" 
    by (rule deleteOID_effect [OF em_sample_good, of 3000]) simp
  have "map_option (\<lambda>x. fl_mapping (snd x)) (em_deleteOID 3000 em_sample) = Some 0" by code_simp
  then have "fl_mapping s' = fl_mapping em_sample" using s' by (simp add: em_sample_def)
  with em_delete_undo_counter [OF em_sample_good _ s'] s' show ?thesis by auto
qed

section \<open>Casual partitioning\<close>

text \<open>C19: Bounds computed by a scan that began before the extent was marked invalid are not
  stored: \<^verbatim>\<open>setMaxMin\<close> with the sequence number read before \<^verbatim>\<open>markInvalid\<close> was called on
  any block of the same extent changes nothing.\<close>

theorem em_stale_bounds_ignored:
  assumes "em_inv s" "e \<in># em_extents s" "em_covers lbid e" "em_covers lbid' e"
    "em_getMaxMin lbid s = Inr (mx0, mn0, seqNum, v)" "seqNum \<noteq> -1" "em_markInvalid lbid' t s = (r, s')"
  shows "em_setMaxMin lbid mx mn seqNum s' = (Inr (), s')"
proof -
  obtain i where i: "i < length (em_entries s)" "em_entries s ! i = e" using assms(2) by (auto simp: em_extents_def in_set_conv_nth)
  have at: "index_of (em_covers lbid) (em_entries s) = Some i" "index_of (em_covers lbid') (em_entries s) = Some i"
    using em_index_covers [OF assms(1) i(1)] i(2) assms(3,4) by simp_all
  let ?e = "em_cp (cp_markInvalid t) e"
  have s': "s' = em_put i ?e s" using assms(7) at(2) i(2) by (simp add: em_markInvalid_def)
  have es': "em_entries s' = (em_entries s)[i := ?e]" by (simp add: s' em_writes)
  have cov: "em_covers l ?e = em_covers l e" for l by (simp add: em_covers_def em_used_def em_lastBlock_def)
  have "index_of (em_covers lbid) (em_entries s') = Some i"
  proof (rule index_of_unique)
    show "i < length (em_entries s')" "em_covers lbid (em_entries s' ! i)" using i assms(3) cov by (simp_all add: es')
    show "j = i" if "j < length (em_entries s')" "em_covers lbid (em_entries s' ! j)" for j
      using that em_covers_unique [OF assms(1) _ i(1), of j lbid] i(2) assms(3) by (cases "j = i") (simp_all add: es')
  qed
  moreover have "sequenceNum (em_cprange (em_entries s' ! i)) = incSeqNum seqNum"
    using assms(5) at(1) i by (auto simp: em_getMaxMin_def es' cp_markInvalid_def cp_reset_def Let_def)
  ultimately show ?thesis using assms(6) incSeqNum_changes [of seqNum] by (simp add: em_setMaxMin_def Let_def)
qed

theorem em_stale_bounds_ignored_witness:
  "em_getMaxMin 77 em_sample = Inr (0x8000000000000000, 0x7FFFFFFFFFFFFFFF, 0, CP_VALID) \<and>
   em_setMaxMin 77 9 4 0 (snd (em_markInvalid 4000 BIGINT em_sample)) = (Inr (), snd (em_markInvalid 4000 BIGINT em_sample))"
proof -
  have "em_getMaxMin 77 em_sample = Inr (0x8000000000000000, 0x7FFFFFFFFFFFFFFF, 0, CP_VALID)" by code_simp
  moreover have "em_inv em_sample" using em_sample_good by (simp add: em_good_def)
  moreover have "em_covers 77 em_sample_extent" "em_covers 4000 em_sample_extent" by (simp_all add: em_covers_def em_lastBlock_def)
  ultimately show ?thesis using em_stale_bounds_ignored [of em_sample em_sample_extent 77 4000] by (metis em_sample_extent_fields(4)
    prod.collapse union_single_eq_member zero_neq_neg_one)
qed


definition em_sample_load :: "CPMaxMinMerge std_map" where
  "em_sample_load = [(0, \<lparr>mm_max = 9, mm_min = - 4, mm_seqNum = 0, mm_type = BIGINT, mm_newExtent = False\<rparr>)]"

definition em_sample_bounds :: ExtentMap where
  "em_sample_bounds = snd (em_setMaxMin 77 5 1 0 em_sample)"


section \<open>The consistency check\<close>

text \<open>C39: \<^verbatim>\<open>checkConsistency\<close> rejects every correct map in which the last part of the block
  space, from a unit below 2 to the 26, is in one piece, for example the map with all blocks free: the
  \<^verbatim>\<open>int\<close> in which it walks over the space wraps to -1 at the end of that piece.\<close>

theorem em_checkConsistency_rejects:
  assumes "em_inv s" "cc_tail s k" "0 \<le> k"
  shows "em_checkConsistency s = Some (cc_error ''1a'') \<or> em_checkConsistency s = Some (cc_error ''1b'')"
  using checkConsistency_fails [OF assms] .

theorem em_checkConsistency_rejects_witness:
  "em_checkConsistency em_sample = Some (cc_error ''1a'') \<or> em_checkConsistency em_sample = Some (cc_error ''1b'')"
proof -
  have "em_inv em_sample" using em_sample_good by (simp add: em_good_def)
  moreover have "cc_tail em_sample 8" unfolding cc_tail_def by code_simp
  ultimately show ?thesis using em_checkConsistency_rejects [of em_sample 8] by simp
qed

end
