(* ===== verification/Slave_Properties.thy ===== *)
theory Slave_Properties
  imports Slave_Undo Vbbm_Properties Extent_Properties
begin

text \<open>
  The properties of a worker node, each with a witness on a small node: block 7 has version 3 in the
  version buffer and version 5, locked by transaction 5; block 9 has version 4.
\<close>

section \<open>A concrete node\<close>

definition vb_sn :: vbbm_segment where
  "vb_sn = \<lparr>
     vb_header = \<lparr>nFiles = 1, vbCapacity = 3, vbCurrentSize = 1, vbLWM = 1, vbNumHashBuckets = 1\<rparr>,
     vb_files = [\<lparr>vf_OID = 1, vf_fileSize = 1000, vf_nextOffset = 100\<rparr>],
     vb_buckets = [0],
     vb_storage =
      [\<lparr>vb_lbid = 7, vb_vbOids = [1, 0, 0, 0], vb_vbFbo = [20, 0, 0, 0], vb_verID = 3, vb_next = -1\<rparr>,
       vb_zero_entry, vb_zero_entry]\<rparr>"

definition sn_sample :: SlaveDBRMNode where
  "sn_sample = \<lparr>sn_em = em_sample, sn_vss = vss_ex_obj, sn_vbbm = vb_obj_of vb_sn, sn_copylocks = cl_full,
     sn_locked0 = False, sn_locked1 = False, sn_locked2 = False\<rparr>"

lemma vb_sn_wf: "vb_wf vb_sn"
  by (rule vb_wf_checkI) code_simp

lemma vb_sn_abs: "vb_abs vb_sn = {#(7, 3, [1, 0, 0, 0], [20, 0, 0, 0])#}"
  by (simp add: vb_abs_def vb_sn_def vb_used_def vb_payload_def vb_zero_entry_def)

lemma sn_sample_simps [simp]:
  "sn_em sn_sample = em_sample" "sn_vss sn_sample = vss_ex_obj" "sn_vbbm sn_sample = vb_obj_of vb_sn"
  "sn_copylocks sn_sample = cl_full"
  by (simp_all add: sn_sample_def)

lemma sn_sample_ok: "sn_ok sn_sample"
proof -
  have "vs_ok (vss_abs vss_ex)"
  proof (rule vs_okI)
    show "vs_unique (vss_abs vss_ex)" by (simp add: vss_ex_abs vs_unique_add) (simp add: vs_unique_def)
  qed (auto simp: vss_ex_abs)
  moreover have "in_step (vss_abs vss_ex) (vb_abs vb_sn)" by (simp add: in_step_def vss_ex_abs vb_sn_abs)
  moreover have "vss_locks vss_ex" by (simp add: vss_locks_def vss_ex_abs) (simp add: vss_ex_def)
  moreover have "cl_inv cl_full"
    by (simp add: cl_full_def cl_inv_def cl_wf_def cl_used_def sizeof_CopyLockEntry_def)
  ultimately show ?thesis
    using em_sample_good vss_ex_obj_wf vb_obj_of_wf [OF vb_sn_wf] by (simp add: sn_ok_def vb_ok_def) (simp add: vss_ex_obj_def)
qed

section \<open>Snapshots\<close>

lemma sn_lookup:
  assumes "sn_ok n" "0 \<le> l" "0 \<le> currentScn q"
  obtains out where "vss_lookup l q t vbOnly (vss_shm (sn_vss n)) = Some out"
    "vss_lookup_spec q (vss_visible l q t vbOnly (sn_versions n)) out"
proof -
  have ok: "vb_ok (sn_vss n, sn_vbbm n)" using assms(1) by (simp add: sn_ok_def)
  have "l \<noteq> -1" "\<forall>x \<in> set_mset (sn_versions n). 0 \<le> vv_ver x"
    using assms(2) vb_okD(6) [OF ok] by (auto simp: vs_ok_def)
  then show ?thesis using vss_lookup_correct [OF vb_okD(2) [OF ok] _ assms(3)] that by blast
qed

lemma vss_lookup_spec_unique:
  assumes "vss_lookup_spec q V a" "vss_lookup_spec q V b" "\<forall>x \<in> V. \<forall>y \<in> V. vv_ver x = vv_ver y \<longrightarrow> x = y"
  shows "a = b"
proof (cases "\<exists>x \<in> V. vv_ver x \<le> currentScn q")
  case True
  then obtain x y where "x \<in> V" "a = (0, vv_ver x, vv_vb x)" "vv_ver x \<le> currentScn q" "\<forall>z \<in> V. vv_ver z \<le> currentScn q \<longrightarrow> vv_ver z \<le> vv_ver x"
      "y \<in> V" "b = (0, vv_ver y, vv_vb y)" "vv_ver y \<le> currentScn q" "\<forall>z \<in> V. vv_ver z \<le> currentScn q \<longrightarrow> vv_ver z \<le> vv_ver y"
    using assms(1,2) unfolding vss_lookup_spec_def by auto
  moreover from this have "vv_ver x = vv_ver y" by (meson order_antisym)
  ultimately show ?thesis using assms(3) by metis
next
  case False
  then show ?thesis using assms(1,2) by (simp add: vss_lookup_spec_def)
qed

lemma vs_unique_visible:
  "vs_unique V \<Longrightarrow> x \<in> vss_visible l q t vbOnly V \<Longrightarrow> y \<in> vss_visible l q t vbOnly V \<Longrightarrow> vv_ver x = vv_ver y \<Longrightarrow> x = y"
proof (induction V)
  case (add z V)
  have "x \<in># add_mset z V" "y \<in># add_mset z V" "vs_key x = vs_key y"
    using add.prems by (auto simp: vss_visible_def vs_key_def)
  then show ?case using add by (auto simp: vs_unique_add vss_visible_def)
qed (simp add: vss_visible_def)



section \<open>Writing\<close>

lemma vs_written_members:
  assumes w: "vs_written l v t V V'" and ok: "vs_ok V" and x: "(l, v', vb, lk') \<in># V'"
  shows "v' = t \<and> \<not> vb \<or> v' \<le> v \<and> vb"
  using w unfolding vs_written_def
proof (elim disjE exE conjE)
  fix Q lk assume Q: "V = add_mset (l, v, False, lk) Q" "V' = add_mset (l, t, False, True) (add_mset (l, v, True, lk) Q)"
  show ?thesis
  proof (cases "(l, v', vb, lk') \<in># Q")
    case True
    then show ?thesis using vs_ok_below [OF ok [unfolded Q(1)] True] by simp
  next
    case False
    then show ?thesis using x Q(2) by auto
  qed
qed (use x in force)

lemma vs_written_new: "vs_written l v t V V' \<Longrightarrow> (l, t, False, True) \<in># V' \<and> (\<exists>lk. (l, v, True, lk) \<in># V')"
  by (auto simp: vs_written_def)

lemma vs_written_other:
  "vs_written l v t V V' \<Longrightarrow> l' \<noteq> l \<Longrightarrow> vss_visible l' q u vbOnly V' = vss_visible l' q u vbOnly V"
  by (auto simp: vs_written_def vss_visible_def)

text \<open>The answer to a query whose best usable version is known.\<close>

lemma sn_lookup_is:
  assumes ok: "sn_ok n" and l: "0 \<le> l" and x: "(l, v, b, lk) \<in># sn_versions n" "v \<le> currentScn q" "u = v \<or> v \<notin> txns q"
    and best: "\<And>v' b' lk'. (l, v', b', lk') \<in># sn_versions n \<Longrightarrow> v' \<le> currentScn q \<Longrightarrow> u = v' \<or> v' \<notin> txns q \<Longrightarrow>
      v' < v \<or> v' = v \<and> b' = b"
  shows "vss_lookup l q u False (vss_shm (sn_vss n)) = Some (0, v, b)"
proof -
  let ?S = "vss_visible l q u False (sn_versions n)"
  have "vs_ok (sn_versions n)" using ok by (simp add: sn_ok_def vb_ok_def)
  from vs_ok_nonneg [OF this x(1)] have "0 \<le> currentScn q" using x(2) by simp
  then obtain out where out: "vss_lookup l q u False (vss_shm (sn_vss n)) = Some out" "vss_lookup_spec q ?S out"
    by (rule sn_lookup [OF ok l])
  have m: "(l, v, b, lk) \<in> ?S" using x by (simp add: vss_visible_def)
  have "\<exists>y \<in> ?S. vv_ver y \<le> currentScn q" using m x(2) by force
  with out(2) obtain y where y: "y \<in> ?S" "out = (0, vv_ver y, vv_vb y)" "vv_ver y \<le> currentScn q"
      "\<forall>z \<in> ?S. vv_ver z \<le> currentScn q \<longrightarrow> vv_ver z \<le> vv_ver y" by (auto simp: vss_lookup_spec_def)
  have "(l, vv_ver y, vv_vb y, vv_locked y) \<in># sn_versions n" "u = vv_ver y \<or> vv_ver y \<notin> txns q"
    using y(1) by (auto simp: vss_visible_def)
  then have "vv_ver y < v \<or> vv_ver y = v \<and> vv_vb y = b" using best [OF _ y(3)] by blast
  moreover have "v \<le> vv_ver y" using y(4) m x(2) by force
  ultimately show ?thesis using out(1) y(2) by simp
qed

text \<open>C3: A block written by a transaction newer than its current version keeps every reader of the old
  version apart from the writer. \<^verbatim>\<open>writeVBEntry\<close> succeeds; a query whose snapshot has the old
  version and not the new one, because it is older than the writer or the writer was active, is sent to
  the old version in the version buffer, and the VBBM has it at the place the caller gave; the writer
  itself reads its own version in place; and queries of other blocks get what they got before.\<close>

theorem sn_write_isolated:
  assumes "sn_ok n" "0 \<le> l" "k < MAX_DATA_REPLICATESIZE"
    and "vss_getCurrentVersion l (vss_shm (sn_vss n)) = Some (v, lk)" "v < t"
  shows "\<exists>n'. sn_writeVBEntry t l k vbOID vbFBO n = Some (0, n') \<and>
    (\<forall>q u. v \<le> currentScn q \<and> v \<notin> txns q \<and> (currentScn q < t \<or> t \<in> txns q \<and> u \<noteq> t) \<longrightarrow>
       vss_lookup l q u False (vss_shm (sn_vss n')) = Some (0, v, True)) \<and>
    vbbm_lookup l v d0 f0 (vbbm_shm (sn_vbbm n')) =
      Some (Inr (0, dbr_zero[k := word_of_int vbOID], fbo_zero[k := word_of_int vbFBO])) \<and>
    (\<forall>q. t \<le> currentScn q \<longrightarrow> vss_lookup l q t False (vss_shm (sn_vss n')) = Some (0, t, False)) \<and>
    (\<forall>l' q u b. l' \<noteq> l \<and> 0 \<le> l' \<and> 0 \<le> currentScn q \<longrightarrow>
       vss_lookup l' q u b (vss_shm (sn_vss n')) = vss_lookup l' q u b (vss_shm (sn_vss n)))"
proof -
  have ok: "vb_ok (sn_vss n, sn_vbbm n)" using assms(1) by (simp add: sn_ok_def)
  obtain n' where n': "sn_writeVBEntry t l k vbOID vbFBO n = Some (0, n')" "vb_ok (sn_vss n', sn_vbbm n')"
    and w: "vs_written l v t (sn_versions n) (sn_versions n')"
    and B: "sn_copies n' = add_mset (l, v, dbr_zero[k := word_of_int vbOID], fbo_zero[k := word_of_int vbFBO]) (sn_copies n)"
    by (rule sn_writeVBEntry_new [OF ok assms(2,3,4,5)])
  have ok': "sn_ok n'" by (rule sn_writeVBEntry_ok [OF assms(1-3) n'(1)])
  note D = vb_okD [OF n'(2)] and mem = vs_written_members [OF w vb_okD(6) [OF ok]] and new = vs_written_new [OF w]
  obtain lk1 where old: "(l, v, True, lk1) \<in># sn_versions n'" using new by blast
  have v0: "0 \<le> v" using vs_ok_nonneg [OF D(6) old] by simp
  have 1: "vss_lookup l q u False (vss_shm (sn_vss n')) = Some (0, v, True)"
    if q: "v \<le> currentScn q" "v \<notin> txns q" "currentScn q < t \<or> t \<in> txns q \<and> u \<noteq> t" for q u
  proof (rule sn_lookup_is [OF ok' assms(2) old q(1)])
    show "v' < v \<or> v' = v \<and> b' = True"
      if "(l, v', b', lk') \<in># sn_versions n'" "v' \<le> currentScn q" "u = v' \<or> v' \<notin> txns q" for v' b' lk'
      using mem [OF that(1)] that(2,3) q(3) by auto
  qed (use q(2) in simp)
  have 2: "vss_lookup l q t False (vss_shm (sn_vss n')) = Some (0, t, False)" if q: "t \<le> currentScn q" for q
  proof (rule sn_lookup_is [OF ok' assms(2) conjunct1 [OF new] q])
    show "v' < t \<or> v' = t \<and> b' = False" if "(l, v', b', lk') \<in># sn_versions n'" for v' b' lk'
      using mem [OF that] assms(5) by auto
  qed simp
  have "count (image_mset vc_key (sn_copies n)) (l, v) = 0" using vb_ok_unique_copies [OF n'(2), of "(l, v)"] B by simp
  then have "(l, v) \<notin># image_mset vc_key (sn_copies n)" by (simp only: not_in_iff)
  then have "(l, v, d, f) \<notin># sn_copies n" for d f by force
  then have 3: "vbbm_lookup l v d0 f0 (vbbm_shm (sn_vbbm n')) =
      Some (Inr (0, dbr_zero[k := word_of_int vbOID], fbo_zero[k := word_of_int vbFBO]))"
    using vbbm_lookup_correct [OF D(5) assms(2) v0, of d0 f0] unfolding B by auto
  have 4: "vss_lookup l' q u b (vss_shm (sn_vss n')) = vss_lookup l' q u b (vss_shm (sn_vss n))"
    if l': "l' \<noteq> l" "0 \<le> l'" "0 \<le> currentScn q" for l' q u b
  proof -
    obtain a where a: "vss_lookup l' q u b (vss_shm (sn_vss n)) = Some a"
        "vss_lookup_spec q (vss_visible l' q u b (sn_versions n)) a" by (rule sn_lookup [OF assms(1) l'(2,3)])
    obtain c where c: "vss_lookup l' q u b (vss_shm (sn_vss n')) = Some c"
        "vss_lookup_spec q (vss_visible l' q u b (sn_versions n')) c" by (rule sn_lookup [OF ok' l'(2,3)])
    have "c = a"
      using a(2) c(2) vs_unique_visible [OF vs_ok_unique [OF D(6)], of _ l' q u b]
      unfolding vs_written_other [OF w l'(1)] by (intro vss_lookup_spec_unique) blast+
    then show ?thesis using a(1) c(1) by simp
  qed
  from n'(1) 1 2 3 4 show ?thesis by blast
qed

theorem sn_write_isolated_witness:
  "\<exists>n'. sn_writeVBEntry 6 9 0 1 150 sn_sample = Some (0, n') \<and>
     vss_lookup 9 (mkQueryContext_vss 8 [6]) 7 False (vss_shm (sn_vss n')) = Some (0, 4, True) \<and>
     vbbm_lookup 9 4 dbr_zero fbo_zero (vbbm_shm (sn_vbbm n')) =
       Some (Inr (0, dbr_zero[0 := word_of_int 1], fbo_zero[0 := word_of_int 150])) \<and>
     vss_lookup 9 (mkQueryContext_vss 8 [6]) 6 False (vss_shm (sn_vss n')) = Some (0, 6, False)"
proof -
  have cur: "vss_getCurrentVersion 9 (vss_shm (sn_vss sn_sample)) = Some (4, False)" by (simp add: vss_ex_obj_def) code_simp
  from sn_write_isolated [OF sn_sample_ok _ _ cur, of 0 6 1 150 dbr_zero fbo_zero] obtain n' where
    n': "sn_writeVBEntry 6 9 0 1 150 sn_sample = Some (0, n')"
      "\<forall>q u. 4 \<le> currentScn q \<and> 4 \<notin> txns q \<and> (currentScn q < 6 \<or> 6 \<in> txns q \<and> u \<noteq> 6) \<longrightarrow>
        vss_lookup 9 q u False (vss_shm (sn_vss n')) = Some (0, 4, True)"
      "vbbm_lookup 9 4 dbr_zero fbo_zero (vbbm_shm (sn_vbbm n')) =
        Some (Inr (0, dbr_zero[0 := word_of_int 1], fbo_zero[0 := word_of_int 150]))"
      "\<forall>q. 6 \<le> currentScn q \<longrightarrow> vss_lookup 9 q 6 False (vss_shm (sn_vss n')) = Some (0, 6, False)"
    by (auto simp: MAX_DATA_REPLICATESIZE_def)
  have "vss_lookup 9 (mkQueryContext_vss 8 [6]) 7 False (vss_shm (sn_vss n')) = Some (0, 4, True)"
    using n'(2) by (simp add: mkQueryContext_vss_def)
  moreover have "vss_lookup 9 (mkQueryContext_vss 8 [6]) 6 False (vss_shm (sn_vss n')) = Some (0, 6, False)"
    using n'(4) by (simp add: mkQueryContext_vss_def)
  ultimately show ?thesis using n'(1,3) by blast
qed

section \<open>Rolling back\<close>

lemma vs_unique_mem:
  assumes "vs_unique V" "(l, v, b, lk) \<in># V" "(l, v, b', lk') \<in># V"
  shows "b' = b \<and> lk' = lk"
proof -
  obtain R where R: "V = add_mset (l, v, b, lk) R" using assms(2) by (metis mset_add)
  then have "\<forall>y \<in># R. vs_key y \<noteq> (l, v)" using assms(1) by (simp add: vs_unique_add)
  then have "(l, v, b', lk') \<notin># R" by force
  then show ?thesis using assms(3) R by auto
qed

lemma vs_rolled_written:
  assumes w: "vs_written l v t V V1" and r: "vs_rolled l t V1 V2 B1 B2" and ok: "vs_ok V" "vs_ok V1"
    and B: "B1 = add_mset (l, v, d, f) B" "\<forall>k. count (image_mset vc_key B1) k \<le> 1"
  shows "V2 = vs_settled l V \<and> B2 = B"
proof -
  obtain Q lkv where Q: "V1 = add_mset (l, t, False, True) (add_mset (l, v, True, lkv) Q)"
    "vs_settled l (add_mset (l, v, False, lkv) Q) = vs_settled l V"
  proof -
    have *: "vs_settled l (add_mset (l, 0, False, False) V) = vs_settled l V" if "\<forall>x \<in># V. vv_lbid x \<noteq> l"
      using that by (auto simp: vs_settled_def vss_needed_def vss_without_def)
    show ?thesis using w that * unfolding vs_written_def by blast
  qed
  from r show ?thesis unfolding vs_rolled_def
  proof (elim disjE exE conjE)
    fix lk R assume R: "V1 = add_mset (l, t, False, lk) R" "\<forall>x \<in># R. vv_lbid x \<noteq> l"
    have "(l, v, True, lkv) \<in># add_mset (l, t, False, lk) R" using Q(1) R(1) by (metis insert_iff set_mset_add_mset_insert)
    then show ?thesis using R(2) by force
  next
    fix lk u lk1 R d' f'
    assume R: "V1 = add_mset (l, t, False, lk) (add_mset (l, u, True, lk1) R)"
      and top: "\<forall>v lk'. (l, v, True, lk') \<in># R \<longrightarrow> v \<le> u"
      and V2: "V2 = vs_settled l (add_mset (l, u, False, lk1) R)" and B2: "B1 = add_mset (l, u, d', f') B2"
    have mv: "(l, v, True, lkv) \<in># V1" "(l, u, True, lk1) \<in># V1" by (simp add: Q(1), simp add: R)
    have "v \<le> u" using mv(1) top unfolding R by auto
    moreover have "u \<le> v" using vs_written_members [OF w ok(1) mv(2)] by simp
    ultimately have u: "u = v" by simp
    have "lk1 = lkv" using vs_unique_mem [OF vs_ok_unique [OF ok(2)] mv(1) mv(2) [unfolded u]] by simp
    moreover have "(l, t, False, True) \<in># V1" "(l, t, False, lk) \<in># V1" by (simp add: Q(1), simp add: R)
    then have "lk = True" using vs_ok_current [OF ok(2)] by blast
    ultimately have "R = Q" using Q(1) R u by simp
    then have "V2 = vs_settled l V" using V2 Q(2) u \<open>lk1 = lkv\<close> by simp
    moreover have "(l, v) \<notin># image_mset vc_key B"
      using B(2) unfolding B(1) image_mset_add_mset count_le_1_add by simp
    then have "(l, v, d', f') \<notin># B" by force
    moreover have "(l, v, d', f') \<in># B1" by (simp add: B2 u)
    ultimately show ?thesis using B(1) B2 u by auto
  qed
qed

text \<open>C7: Rolling back a transaction's first write of a block undoes it: \<^verbatim>\<open>vbRollback\<close> after
  \<^verbatim>\<open>writeVBEntry\<close> succeeds, the VBBM has the copies it had before, and the VSS the versions it had
  before, without those of the block when none of them is locked or in the version buffer.\<close>

theorem sn_write_rollback:
  assumes "sn_ok n" "0 \<le> l" "k < MAX_DATA_REPLICATESIZE"
    and "vss_getCurrentVersion l (vss_shm (sn_vss n)) = Some (v, lk)" "v < t"
  shows "\<exists>n1 n2. sn_writeVBEntry t l k vbOID vbFBO n = Some (0, n1) \<and> sn_vbRollback t [l] n1 = Some (0, n2) \<and>
    sn_copies n2 = sn_copies n \<and> sn_versions n2 = vs_settled l (sn_versions n)"
proof -
  have ok: "vb_ok (sn_vss n, sn_vbbm n)" "cl_inv (sn_copylocks n)" using assms(1) by (simp_all add: sn_ok_def)
  obtain n1 where n1: "sn_writeVBEntry t l k vbOID vbFBO n = Some (0, n1)" "vb_ok (sn_vss n1, sn_vbbm n1)"
    and w: "vs_written l v t (sn_versions n) (sn_versions n1)"
    and B: "sn_copies n1 = add_mset (l, v, dbr_zero[k := word_of_int vbOID], fbo_zero[k := word_of_int vbFBO]) (sn_copies n)"
    and cl: "sn_copylocks n1 = sn_copylocks n"
    by (rule sn_writeVBEntry_new [OF ok(1) assms(2,3,4,5)])
  obtain v2 b2 where vb: "vb_rollback_block t l (sn_vss n1, sn_vbbm n1) = Some (Inr (), v2, b2)"
    and r: "vs_rolled l t (sn_versions n1) (vss_abs (vss_shm v2)) (sn_copies n1) (vb_abs (vbbm_shm b2))"
    by (rule vb_rollback_block_ok [OF n1(2) conjunct1 [OF vs_written_new [OF w]]])
  have eq: "vss_abs (vss_shm v2) = vs_settled l (sn_versions n) \<and> vb_abs (vbbm_shm b2) = sn_copies n"
    by (rule vs_rolled_written [OF w r vb_okD(6) [OF ok(1)] vb_okD(6) [OF n1(2)] B]) (use vb_ok_unique_copies [OF n1(2)] in blast)
  obtain c where "cl_rollback t (sn_copylocks n1) = Some c" using cl_rollback_ok [OF ok(2)] cl by metis
  then have "sn_vbRollback t [l] n1 = Some (0, sn_put_vb (v2, b2) (sn_lock_cl (sn_lock_vb n1)\<lparr>sn_copylocks := c\<rparr>))"
    using vb by (simp add: sn_vbRollback_def)
  then show ?thesis using n1(1) eq by fastforce
qed

theorem sn_write_rollback_witness:
  "\<exists>n1 n2. sn_writeVBEntry 6 7 0 1 150 sn_sample = Some (0, n1) \<and> sn_vbRollback 6 [7] n1 = Some (0, n2) \<and>
     sn_copies n2 = {#(7, 3, [1, 0, 0, 0], [20, 0, 0, 0])#} \<and>
     sn_versions n2 = {#(7, 3, True, False), (9, 4, False, False), (7, 5, False, True)#}"
proof -
  have cur: "vss_getCurrentVersion 7 (vss_shm (sn_vss sn_sample)) = Some (5, True)" by (simp add: vss_ex_obj_def) code_simp
  have V: "sn_versions sn_sample = {#(7, 3, True, False), (9, 4, False, False), (7, 5, False, True)#}"
    by (simp add: vss_ex_obj_def vss_ex_abs)
  have "vs_settled 7 (sn_versions sn_sample) = sn_versions sn_sample" unfolding V by (simp add: vs_settled_def vss_needed_def)
  then show ?thesis using sn_write_rollback [OF sn_sample_ok _ _ cur, of 0 6 1 150] V
    by (simp add: MAX_DATA_REPLICATESIZE_def vb_sn_abs)
qed

section \<open>Deleting a column\<close>

text \<open>C16: \<^verbatim>\<open>deleteOID\<close> of a column with an extent in service succeeds and removes, from all three
  tables at once, the extents of the column and the versions and copies of the blocks in its extents in
  service, and nothing else.\<close>

theorem sn_deleteOID_removes:
  assumes "sn_ok n" "em_lookup_OID oid (sn_em n) = Inr rs" "rs \<noteq> []"
  shows "\<exists>n'. sn_deleteOID oid n = Some (0, n') \<and> sn_ok n' \<and>
    em_extents (sn_em n') = filter_mset (\<lambda>e. em_fileID e \<noteq> oid) (em_extents (sn_em n)) \<and>
    sn_versions n' = filter_mset (\<lambda>x. vv_lbid x \<notin> (\<Union>r \<in> set rs. set (range_lbids r))) (sn_versions n) \<and>
    sn_copies n' = filter_mset (\<lambda>x. fst x \<notin> (\<Union>r \<in> set rs. set (range_lbids r))) (sn_copies n)"
proof (cases rule: sn_deleteOID_ok [OF assms(1), of oid])
  case 1
  then show ?thesis using assms(2,3) by blast
next
  case (2 rc em vb)
  have good: "em_good (sn_em n)" using assms(1) by (simp add: sn_ok_def)
  have ex: "\<exists>e \<in># em_extents (sn_em n). em_fileID e = oid"
    using assms(2,3) by (auto simp: em_lookup_OID_def em_extents_def filter_empty_conv split: if_splits)
  obtain em1 where em1: "em_deleteOID oid (sn_em n) = Some (if \<exists>e \<in># em_extents (sn_em n). em_fileID e = oid then Inr ()
      else Inl (Invalid_argument ''ExtentMap::deleteOID(): There are no extent entries for OID ''), em1)"
      "em_extents em1 = filter_mset (\<lambda>e. em_fileID e \<noteq> oid) (em_extents (sn_em n))"
    by (rule deleteOID_effect [OF good, of oid])
  let ?n = "(sn_put_vb vb (sn_lock_vb n))\<lparr>sn_em := em\<rparr>"
  have "sn_deleteOID oid n = Some (0, ?n)" "em_extents em = filter_mset (\<lambda>e. em_fileID e \<noteq> oid) (em_extents (sn_em n))"
    using 2(1,5) em1 ex by (auto simp: sn_em_call_def)
  moreover have "sn_ok ?n" using assms(1) 2(2,3) by (simp add: sn_ok_def)
  ultimately show ?thesis using 2(4) assms(2) by (auto simp: vb_rest_def oid_blocks_def)
qed

theorem sn_deleteOID_removes_witness:
  "\<exists>n'. sn_deleteOID 3000 sn_sample = Some (0, n') \<and> em_extents (sn_em n') = {#} \<and> sn_versions n' = {#} \<and> sn_copies n' = {#}"
proof -
  have l: "em_lookup_OID 3000 (sn_em sn_sample) = Inr [\<lparr>range_start = 0, range_size = 8192\<rparr>]"
    by (simp add: em_lookup_OID_def em_sample_defs EXTENTOUTOFSERVICE_def EXTENTAVAILABLE_def u32_def)
  have V: "vss_abs (vss_shm vss_ex_obj) = {#(7, 3, True, False), (9, 4, False, False), (7, 5, False, True)#}"
    by (simp add: vss_ex_obj_def vss_ex_abs)
  have in_range: "7 \<in> set (range_lbids \<lparr>range_start = 0, range_size = 8192\<rparr>)" "9 \<in> set (range_lbids \<lparr>range_start = 0, range_size = 8192\<rparr>)"
    by (simp_all add: range_lbids_def)
  have em: "em_extents em_sample = {#em_sample_extent#}" "em_fileID em_sample_extent = 3000"
    by (simp_all add: em_extents_def em_sample_defs)
  from sn_deleteOID_removes [OF sn_sample_ok l] show ?thesis
    using in_range by (simp add: V em vb_sn_abs) blast
qed

section \<open>Undoing\<close>


lemma sn_sample_confirmed: "sn_confirmed sn_sample"
  by (simp add: sn_confirmed_def vss_ex_obj_def cl_full_def em_sample_def) (simp add: sn_sample_def)


lemma sn_set_replica_segment:
  assumes "sn_set_replica l t k vbOID vbFBO n = Some (0, n')"
  shows "\<exists>g. n' = n\<lparr>sn_vbbm := (sn_vbbm n)\<lparr>vbbm_shm := g\<rparr>\<rparr>"
proof -
  obtain ov q where q: "vss_getHighestVerInVB l t (vss_shm (sn_vss n)) = Some ov"
      "vbbm_lookup_entry l ov (vbbm_shm (sn_vbbm n)) = Some q"
    using assms by (auto simp: sn_set_replica_def Let_def Option.bind_eq_Some_conv)
  show ?thesis
  proof (cases "\<exists>i. q = Inr (Some i)")
    case True
    then show ?thesis using assms q by (auto simp: sn_set_replica_def Let_def split: if_splits)
  next
    case False
    then show ?thesis using assms q by (auto simp: sn_set_replica_def Let_def split: sum.splits option.splits)
  qed
qed

text \<open>C40: The exception. A second write of a block by the transaction that holds its current version puts the
  place of the replica into the VBBM entry itself, with no undo record: \<^verbatim>\<open>undoChanges\<close> leaves the new
  place in the table.\<close>

theorem sn_replica_not_undone:
  assumes "sn_confirmed n" "vss_getCurrentVersion l (vss_shm (sn_vss n)) = Some (t, lk)"
    and "sn_writeVBEntry t l k vbOID vbFBO n = Some (0, n')"
  shows "sn_undoChanges n' = Some (n\<lparr>sn_vbbm := sn_vbbm n'\<rparr>)"
proof -
  have "sn_set_replica l t k vbOID vbFBO (sn_lock_vb n) = Some (0, n')"
    using assms(2,3) by (simp add: sn_writeVBEntry_def)
  then obtain g where n': "n' = (sn_lock_vb n)\<lparr>sn_vbbm := (sn_vbbm n)\<lparr>vbbm_shm := g\<rparr>\<rparr>"
    using sn_set_replica_segment [of l t k vbOID vbFBO "sn_lock_vb n" n'] by auto
  have "em_undoChanges (sn_em n) = Some (sn_em n)" "vss_undoChanges (sn_vss n) = Some (sn_vss n)"
      "vbbm_undoChanges (sn_vbbm n') = Some (sn_vbbm n')"
    using assms(1) unfolding sn_confirmed_def em_undoChanges_def vss_undoChanges_def vbbm_undoChanges_def
    by (simp_all add: em_log.undo_confirmed vss_log.undo_confirmed vbbm_log.undo_confirmed n')
  then show ?thesis using assms(1) by (simp add: n' sn_undoChanges_def sn_confirmed_def sn_lock_vb_def)
qed

theorem sn_replica_not_undone_witness:
  "\<exists>n' n''. sn_writeVBEntry 5 7 1 2 30 sn_sample = Some (0, n') \<and> sn_undoChanges n' = Some n'' \<and>
     vbbm_lookup 7 3 dbr_zero fbo_zero (vbbm_shm (sn_vbbm n'')) = Some (Inr (0, [1, 2, 0, 0], [20, 30, 0, 0])) \<and>
     vbbm_lookup 7 3 dbr_zero fbo_zero (vbbm_shm (sn_vbbm sn_sample)) = Some (Inr (0, [1, 0, 0, 0], [20, 0, 0, 0]))"
proof -
  have "map_option (\<lambda>(r, n). (r, vbbm_lookup 7 3 dbr_zero fbo_zero (vbbm_shm (sn_vbbm n)))) (sn_writeVBEntry 5 7 1 2 30 sn_sample) =
      Some (0, Some (Inr (0, [1, 2, 0, 0], [20, 30, 0, 0])))" by code_simp
  then obtain n' where n': "sn_writeVBEntry 5 7 1 2 30 sn_sample = Some (0, n')"
      "vbbm_lookup 7 3 dbr_zero fbo_zero (vbbm_shm (sn_vbbm n')) = Some (Inr (0, [1, 2, 0, 0], [20, 30, 0, 0]))" by auto
  have cur: "vss_getCurrentVersion 7 (vss_shm (sn_vss sn_sample)) = Some (5, True)" by (simp add: vss_ex_obj_def) code_simp
  have "vbbm_lookup 7 3 dbr_zero fbo_zero (vbbm_shm (sn_vbbm sn_sample)) = Some (Inr (0, [1, 0, 0, 0], [20, 0, 0, 0]))" by code_simp
  then show ?thesis using n' sn_replica_not_undone [OF sn_sample_confirmed cur n'(1)] by simp
qed

end
