(* ===== verification/Spec2Isabelle.thy ===== *)
theory Spec2Isabelle
  imports Vss_Properties Vbbm_Properties Table_Lock Auto_Increment Oid_Server Copy_Locks Slave_Properties
begin

text \<open>
  \<^bold>\<open>The Block Resolution Manager of erydb.\<close>

  The Block Resolution Manager (BRM, \<^verbatim>\<open>src/versioning/BRM\<close>) keeps the metadata that lets
  the database engine resolve logical blocks (LBIDs): which range of blocks each extent of a column
  occupies, which versions of a block exist and where they live, which transactions, table locks and
  sequences are active. Its tables live in shared memory and are changed under a write lock by one worker
  at a time; every change is meant to be journalled in an undo log, so that a request that fails on one
  worker is taken back on all of them. A controller node sends each request to all workers.

  A write of a block goes through a worker node (\<^verbatim>\<open>slavedbrmnode.cpp\<close>) in this order:
  \<^verbatim>\<open>beginVBCopy\<close> takes copy locks on the blocks and free space in the version buffer from the
  VBBM, ageing out what was there; \<^verbatim>\<open>writeVBEntry\<close> enters the place of the old version in the
  VBBM, flags it in the VSS and enters the new version, locked; \<^verbatim>\<open>endVBCopy\<close> releases the copy
  locks; \<^verbatim>\<open>vbCommit\<close> or \<^verbatim>\<open>vbRollback\<close> ends the transaction. After each message the
  node is told to confirm or to undo its changes. Readers ask the VSS for the version of a block their
  snapshot may see and the VBBM for its place. The extent map says which blocks a file has.

  \<^bold>\<open>Foundations.\<close>
  \<^item> \<open>Brm_Prelude\<close>: type names of \<^verbatim>\<open>brmtypes.h\<close>, the exceptions the code throws
    (\<open>brm_exn\<close>, with \<open>'a res = brm_exn + 'a\<close>), loop combinators (\<open>scan\<close>,
    \<open>free_from\<close>, \<open>check_all\<close>), generic list lemmas.
  \<^item> \<open>Byte_Stream\<close>: fixed-width integers as little-endian bytes of the save files.
  \<^item> \<open>Std_Map\<close>: \<^verbatim>\<open>std::map\<close> as an ascending association list.
  \<^item> \<open>Undo_Log\<close>: \<^verbatim>\<open>undoable.cpp\<close>. The locale \<open>undoable\<close> is the contract of a
    table with an undo log; it is interpreted on the VSS, the VBBM, the copy locks and the extent map. An
    image is tagged with the mapping it points into: restoring it into a segment that was replaced in the
    meantime is undefined behaviour, the result \<open>None\<close>.
  \<^item> \<open>Brm_Hasher\<close> (\<^verbatim>\<open>hasher.h\<close>), \<open>Shm_Keys\<close> (\<^verbatim>\<open>shmkeys.h\<close>,
    \<^verbatim>\<open>shmkeys.cpp\<close>), \<open>Logical_Partition\<close> (\<^verbatim>\<open>logicalpartition.h\<close>,
    \<^verbatim>\<open>logicalpartition.cpp\<close>: replica lists and block offsets).
  \<^item> \<open>Hash_Chain\<close>: the chained hash table in two arrays that the VSS and the VBBM share; the
    locale \<open>chained_entry\<close> has what linking and unlinking keep and is interpreted on the entries of
    both.

  \<^bold>\<open>Components.\<close> The state of each is a record with the members of the class, its operations have
  the names of the source with a prefix.
  \<^item> Version Substitution Structure, \<^verbatim>\<open>vss.h\<close>, \<^verbatim>\<open>vss.cpp\<close>, prefix
    \<open>vss_\<close>: \<open>Vss\<close> has the segment (header, buckets, storage), the object around it and
    every operation; \<open>Vss_Invariant\<close> and \<open>Vss_Update\<close> show that the updates keep the
    invariant and act on the multiset of versions \<open>vss_abs\<close> as their names say;
    \<open>Vss_Query\<close> what the queries return, \<open>Vss_Undo\<close> that the undo records revert the
    updates, \<open>Vss_Image\<close> the save file and the consistency check.
  \<^item> Version Buffer Block Map, \<^verbatim>\<open>vbbm.h\<close>, \<^verbatim>\<open>vbbm.cpp\<close>, prefixes \<open>vb_\<close>
    and \<open>vbbm_\<close>: the same layout; \<open>Vbbm_Blocks\<close> shows that the blocks handed out by
    \<^verbatim>\<open>getBlocks\<close> are in use by no entry and that its growth loop ends.
  \<^item> Copy locks, \<^verbatim>\<open>copylocks.cpp\<close>, prefix \<open>cl_\<close>: \<open>Copy_Locks\<close>.
  \<^item> Extent map, \<^verbatim>\<open>extentmap.h\<close>, \<^verbatim>\<open>extentmap.cpp\<close>, prefixes \<open>em_\<close>
    and \<open>fl_\<close>: \<open>Extent_Map\<close> (tables, journalled writes), \<open>Extent_Space\<close> (taking
    blocks from the free list and giving them back), \<open>Extent_Create\<close>, \<open>Extent_Placement\<close>
    and \<open>Extent_Created\<close> (creation, the place chosen, the effect), \<open>Extent_Sweep\<close>,
    \<open>Extent_Delete\<close>, \<open>Extent_Rollback\<close> and \<open>Extent_Undo\<close> (deletions, rollbacks
    and what undoing them restores), \<open>Extent_Lookup\<close> (queries and high water marks),
    \<open>Extent_Partition\<close>, \<open>Extent_Casual\<close> (bounds of the values of an extent),
    \<open>Extent_Check\<close>, and \<open>Extent_Steps\<close> with all operations as the step relation
    \<open>em_step\<close> and the invariant \<open>em_good\<close>: every block of the space is in exactly one
    extent or free range. The locale \<open>em_sweeper\<close> is the contract of the loops that delete.
  \<^item> Worker node, \<^verbatim>\<open>slavedbrmnode.cpp\<close>, prefix \<open>sn_\<close>: \<open>Slave_Node\<close> has
    the handlers over the four tables; \<open>Slave_Versions\<close>, \<open>Slave_Write\<close>,
    \<open>Slave_Update\<close> and \<open>Slave_Steps\<close> the invariant \<open>sn_ok\<close> (one current version
    per block, older copies, VSS and VBBM naming the same copies) and that every handler keeps it;
    \<open>Slave_Undo\<close> which messages the undo log of the node takes back.
  \<^item> Servers of the controller node: \<open>Session_Manager\<close> (\<^verbatim>\<open>sessionmanagerserver.cpp\<close>,
    transaction ids and the semaphore, with waiting callers as an interleaving), \<open>Table_Lock\<close>
    (\<^verbatim>\<open>tablelockserver.cpp\<close>, with the save file as bytes), \<open>Auto_Increment\<close>
    (\<^verbatim>\<open>autoincrementmanager.cpp\<close>), \<open>Oid_Server\<close>
    (\<^verbatim>\<open>oidserver.cpp\<close>, with failing writes and restarts).

  \<^bold>\<open>What the properties show.\<close> Those of the tables are in \<open>Vss_Properties\<close>,
  \<open>Vbbm_Properties\<close>, \<open>Extent_Properties\<close> and \<open>Copy_Locks\<close>, those that span tables in
  \<open>Slave_Properties\<close>, those of the servers with their component.
  \<^item> Invariants of reachable states: blocks are conserved, versions flagged as copied are in the VBBM,
    the semaphore and the active transactions add up, no two locks of a table share a DBRoot.
  \<^item> Refinement: insertions, removals, commits, deletions and rollbacks of extents act on abstract
    multisets.
  \<^item> Snapshots: lookup returns the newest version a query may see; a write is invisible to readers
    whose snapshot excludes it, and rolling it back restores what was there.
  \<^item> Undo: which sequences of operations are restored exactly, and the cases in which the code does not
    restore the state (growth of a segment, commit, deletion of extents, a second replica).
  \<^item> Round trips of the save files, placement of new extents, bounds of the values of extents, ranges of
    sequences and of object ids, consistency checks, growth and loss of entries.

  \<^bold>\<open>Numbers, loops and undefined behaviour.\<close> A C++ integer is \<open>int\<close> with the wrap-around
  written out (\<open>u32\<close>, \<open>s32\<close>, \<open>take_bit\<close>) or a word where the code works on its bits.
  A function whose result is an \<open>option\<close> has \<open>None\<close> for what is no normal return: an index
  out of bounds, a failed assertion, a stale undo image, a loop that does not end. Loops that follow the
  links of a table are partial functions, and the invariants give that they return; no operation has fuel
  (only the decision procedure for the invariant of a concrete table, \<open>chain_from\<close>, follows a chain for
  at most as many steps as there are entries, which a chain without a cycle never exceeds). The growth loop of \<^verbatim>\<open>getBlocks\<close> and the searches of the extent map are shown to
  return. The retries of \<^verbatim>\<open>beginVBCopy\<close> are bounded by the constant of the source, 1200. What
  other processes do while a handler waits is the argument \<open>wait\<close>, restricted by
  \<open>others_keep\<close>. Values of the configuration are arguments
  (\<open>em_config\<close> for the extent map).
  Code under \<^verbatim>\<open>BRM_DEBUG\<close> and \<^verbatim>\<open>BRM_INFO\<close> is not compiled in, code under
  \<^verbatim>\<open>BRM_VERBOSE\<close> only prints; neither is modelled.

  \<^bold>\<open>Not modelled.\<close>
  \<^item> Of the modelled files: the mapping of shared memory and the read-write locks (operating system
    services; the model has the tables while the lock is held), the HDFS branches, the loading and saving of
    the extent map (it shares \<^verbatim>\<open>reserveLBIDRange\<close>, which is modelled), \<^verbatim>\<open>getMinDataDBRoots\<close>
    (it depends on the module configuration of OAM), tracing and printing, and the forms of the
    structures on a \<^verbatim>\<open>ByteStream\<close> message.
  \<^item> \<^verbatim>\<open>dbrm.cpp\<close>, \<^verbatim>\<open>slavecomm.cpp\<close>, \<^verbatim>\<open>masterdbrmnode.cpp\<close>: network
    messages between client, controller and workers, the threads that serve them, and the journal file of a
    worker. The queries of \<^verbatim>\<open>dbrm.cpp\<close> take a read lock and call the modelled operations.
  \<^item> \<^verbatim>\<open>lbidresourcegraph.cpp\<close> and its nodes: the only call of \<^verbatim>\<open>reserveRange\<close>
    outside the test drivers is commented out in \<^verbatim>\<open>masterdbrmnode.cpp\<close>, so the graph is always
    empty.
  \<^item> \<^verbatim>\<open>mastersegmenttable.cpp\<close>, \<^verbatim>\<open>brmshmimpl.cpp\<close>, \<^verbatim>\<open>rwlockmonitor.cpp\<close>:
    wrappers of operating system services, apart from the size arithmetic of a grown segment.
  \<^item> The rest of the repository (query execution, SQL front ends, write engine, administration
    tools, utilities): clients of the BRM, through \<^verbatim>\<open>dbrm.cpp\<close> and in a few places through
    queries of \<^verbatim>\<open>ExtentMap\<close>.
\<close>

end
